(* ===== verification/Prelude.thy ===== *)
theory Prelude
  imports Main "HOL-Library.Word" "HOL-Library.AList" "HOL-Library.Multiset"
    "HOL-Library.Char_ord" "HOL-Library.List_Lexorder" "HOL-Library.Product_Lexorder"
begin

text \<open>
  What every component shares: the Go types the model uses (byte strings, 64-bit integers,
  maps as association lists whose order is the iteration order), the results of fallible
  calls, the functions of Go's package \<^verbatim>\<open>strings\<close> that the scheduler calls, and the
  generic lemmas about them.  The interface of Go's maps is a locale, proved for the
  association lists of the model.
\<close>

named_theorems int64_simps \<open>reading 64-bit words as integers\<close>
named_theorems gomap_simps \<open>characteristic equations of Go maps\<close>
named_theorems step_defs \<open>one-step operations of the state machines\<close>

section \<open>Results of fallible calls\<close>

text \<open>A Go function returning \<open>(T, error)\<close>: the error, or the value when the error is nil.\<close>

fun res_bind :: "'e + 'a \<Rightarrow> ('a \<Rightarrow> 'e + 'b) \<Rightarrow> 'e + 'b" where
  "res_bind (Inl e) f = Inl e"
| "res_bind (Inr a) f = f a"

lemma res_bind_Inr_iff: "res_bind m f = Inr b \<longleftrightarrow> (\<exists>a. m = Inr a \<and> f a = Inr b)"
  by (cases m) auto

lemma res_bind_Inl_iff:
  "res_bind m f = Inl e \<longleftrightarrow> m = Inl e \<or> (\<exists>a. m = Inr a \<and> f a = Inl e)"
  by (cases m) auto

section \<open>Go's 64-bit integers\<close>

type_synonym int64 = "64 word"

abbreviation ival :: "int64 \<Rightarrow> int" where
  "ival \<equiv> sint"

lemma word_of_ival [simp]: "word_of_int (ival w) = w"
  by simp

declare of_int_sint [simp del]

lemma ival_lower: "- (2 ^ 63) \<le> ival x"
  using sint_ge [of x] by simp

lemma ival_upper: "ival x < 2 ^ 63"
  using sint_lt [of x] by simp

lemma ival_add [int64_simps]:
  assumes "- (2 ^ 63) \<le> ival a + ival b" and "ival a + ival b < 2 ^ 63"
  shows "ival (a + b) = ival a + ival b"
  using assms by (simp add: sint_word_add signed_take_bit_int_eq_self)

lemma ival_diff [int64_simps]:
  assumes "- (2 ^ 63) \<le> ival a - ival b" and "ival a - ival b < 2 ^ 63"
  shows "ival (a - b) = ival a - ival b"
  using assms by (simp add: sint_word_diff signed_take_bit_int_eq_self)

lemma ival_of_int [int64_simps]:
  "- (2 ^ 63) \<le> i \<Longrightarrow> i < 2 ^ 63 \<Longrightarrow> ival (word_of_int i) = i"
  by (simp add: sint_sbintrunc' signed_take_bit_int_eq_self)

lemma ival_inject [int64_simps]: "ival a = ival b \<longleftrightarrow> a = b"
  by (auto intro: signed_word_eqI)

section \<open>Go's byte strings\<close>

text \<open>\<^verbatim>\<open>strings.Split(s, sep)\<close> for a separator of one byte: never empty.\<close>

fun split_on :: "char \<Rightarrow> string \<Rightarrow> string list" where
  "split_on c [] = [[]]"
| "split_on c (x # xs) =
     (if x = c then [] # split_on c xs
      else (case split_on c xs of [] \<Rightarrow> [[x]] | y # ys \<Rightarrow> (x # y) # ys))"

text \<open>\<^verbatim>\<open>strings.Join(xs, sep)\<close>.\<close>

fun join_with :: "string \<Rightarrow> string list \<Rightarrow> string" where
  "join_with sep [] = []"
| "join_with sep [x] = x"
| "join_with sep (x # y # zs) = x @ sep @ join_with sep (y # zs)"

text \<open>\<^verbatim>\<open>strings.HasPrefix(s, p)\<close>, arguments in the order of the call.\<close>

fun has_prefix :: "string \<Rightarrow> string \<Rightarrow> bool" where
  "has_prefix s [] = True"
| "has_prefix [] (p # ps) = False"
| "has_prefix (s # ss) (p # ps) = (s = p \<and> has_prefix ss ps)"

text \<open>\<^verbatim>\<open>strings.Contains(s, sub)\<close>.\<close>

fun contains :: "string \<Rightarrow> string \<Rightarrow> bool" where
  "contains [] sub = (sub = [])"
| "contains (x # xs) sub = (has_prefix (x # xs) sub \<or> contains xs sub)"

text \<open>
  \<^verbatim>\<open>strings.ToLower\<close> on ASCII bytes; other bytes are left alone.  The code only asks
  whether the result contains \<open>hostpath\<close>, and no character outside ASCII lowers to one of
  the letters \<open>h o s t p a\<close>, so the answer is the one Go computes.
\<close>

definition lower_char :: "char \<Rightarrow> char" where
  "lower_char c = (let n = of_char c :: nat in if 65 \<le> n \<and> n \<le> 90 then char_of (n + 32) else c)"

definition to_lower :: "string \<Rightarrow> string" where
  "to_lower s = map lower_char s"

lemma split_on_nonempty [simp]: "split_on c xs \<noteq> []"
  by (induction xs) (auto split: list.splits)

lemma split_on_no_sep: "\<forall>x \<in> set (split_on c xs). c \<notin> set x"
  by (induction xs) (auto split: list.splits)

lemma join_split: "join_with [c] (split_on c xs) = xs"
proof (induction xs)
  case (Cons x xs)
  obtain y ys where ys: "split_on c xs = y # ys"
    by (cases "split_on c xs") auto
  with Cons show ?case by (cases ys) auto
qed simp

lemma split_on_plain: "c \<notin> set x \<Longrightarrow> split_on c x = [x]"
  by (induction x) auto

lemma split_on_append_sep: "c \<notin> set x \<Longrightarrow> split_on c (x @ c # ys) = x # split_on c ys"
  by (induction x) auto

lemma split_join:
  "xs \<noteq> [] \<Longrightarrow> \<forall>x \<in> set xs. c \<notin> set x \<Longrightarrow> split_on c (join_with [c] xs) = xs"
  by (induction "[c]" xs rule: join_with.induct) (auto simp: split_on_plain split_on_append_sep)

lemma has_prefix_iff: "has_prefix s p \<longleftrightarrow> (\<exists>t. s = p @ t)"
  by (induction s p rule: has_prefix.induct) auto

lemma contains_iff: "contains s sub \<longleftrightarrow> (\<exists>a b. s = a @ sub @ b)"
proof (induction s)
  case Nil
  show ?case by simp
next
  case (Cons x xs)
  have "(\<exists>a b. x # xs = a @ sub @ b) \<longleftrightarrow>
      (\<exists>b. x # xs = sub @ b) \<or> (\<exists>a b. xs = a @ sub @ b)"
    by (metis append_Cons append_Nil list.inject neq_Nil_conv)
  with Cons.IH show ?case by (simp add: has_prefix_iff)
qed

section \<open>Go's maps\<close>

text \<open>
  A map is an association list with distinct keys.  The order of the list stands for the
  order in which one \<^verbatim>\<open>range\<close> loop visits the entries, which Go leaves open: a
  statement about all association lists covers every order.  A nil map reads as the empty
  one.
\<close>

type_synonym ('k, 'v) gomap = "('k \<times> 'v) list"

abbreviation gget :: "('k, 'v) gomap \<Rightarrow> 'k \<Rightarrow> 'v option" where
  "gget m k \<equiv> map_of m k"

abbreviation gput :: "'k \<Rightarrow> 'v \<Rightarrow> ('k, 'v) gomap \<Rightarrow> ('k, 'v) gomap" where
  "gput k v m \<equiv> AList.update k v m"

abbreviation gdel :: "'k \<Rightarrow> ('k, 'v) gomap \<Rightarrow> ('k, 'v) gomap" where
  "gdel k m \<equiv> AList.delete k m"

definition gkeys :: "('k, 'v) gomap \<Rightarrow> 'k list" where
  "gkeys m = map fst m"

definition gwf :: "('k, 'v) gomap \<Rightarrow> bool" where
  "gwf m \<longleftrightarrow> distinct (gkeys m)"

text \<open>Reading a missing key of a \<^verbatim>\<open>map[string]string\<close> gives the empty string.\<close>

definition gget_str :: "('k, string) gomap \<Rightarrow> 'k \<Rightarrow> string" where
  "gget_str m k = (case gget m k of None \<Rightarrow> [] | Some v \<Rightarrow> v)"

locale go_map =
  fixes empty :: "'m"
    and get :: "'m \<Rightarrow> 'k \<Rightarrow> 'v option"
    and put :: "'k \<Rightarrow> 'v \<Rightarrow> 'm \<Rightarrow> 'm"
    and del :: "'k \<Rightarrow> 'm \<Rightarrow> 'm"
    and keys :: "'m \<Rightarrow> 'k list"
    and wf :: "'m \<Rightarrow> bool"
  assumes get_empty: "get empty k = None"
    and get_put: "get (put k v m) j = (if j = k then Some v else get m j)"
    and get_del: "get (del k m) j = (if j = k then None else get m j)"
    and set_keys: "set (keys m) = {k. get m k \<noteq> None}"
    and wf_keys: "wf m \<Longrightarrow> distinct (keys m)"
    and wf_empty: "wf empty"
    and wf_put: "wf m \<Longrightarrow> wf (put k v m)"
    and wf_del: "wf m \<Longrightarrow> wf (del k m)"
begin

lemma get_put_all:
  "get (fold (\<lambda>x. put (f x) v) xs m) j = (if j \<in> f ` set xs then Some v else get m j)"
  by (induction xs arbitrary: m) (auto simp: get_put)

lemma wf_put_all: "wf m \<Longrightarrow> wf (fold (\<lambda>x. put (f x) (g x)) xs m)"
  by (induction xs arbitrary: m) (auto simp: wf_put)

lemma length_keys: "wf m \<Longrightarrow> length (keys m) = card {k. get m k \<noteq> None}"
  using wf_keys [of m] set_keys [of m] by (metis distinct_card)

lemma length_put_all:
  "length (keys (fold (\<lambda>x. put (f x) v) xs empty)) = card (f ` set xs)"
proof -
  have "{k. get (fold (\<lambda>x. put (f x) v) xs empty) k \<noteq> None} = f ` set xs"
    by (auto simp: get_put_all get_empty)
  then show ?thesis
    using length_keys [OF wf_put_all [OF wf_empty, of f "\<lambda>_. v" xs]] by simp
qed

lemma keys_put_all: "set (keys (fold (\<lambda>x. put (f x) v) xs empty)) = f ` set xs"
  by (auto simp: set_keys get_put_all get_empty)

end

interpretation gm: go_map "[]" gget gput gdel gkeys gwf
proof unfold_locales
  fix k j :: 'k and v :: 'v and m :: "('k, 'v) gomap"
  show "gget (gput k v m) j = (if j = k then Some v else gget m j)"
    by (simp add: update_conv')
  show "gget (gdel k m) j = (if j = k then None else gget m j)"
    by (simp add: delete_conv')
  show "set (gkeys m) = {k. gget m k \<noteq> None}"
    by (auto simp: gkeys_def map_of_eq_None_iff)
  show "gwf m \<Longrightarrow> gwf (gput k v m)"
    by (simp add: gwf_def gkeys_def distinct_update)
  show "gwf m \<Longrightarrow> gwf (gdel k m)"
    by (simp add: gwf_def gkeys_def distinct_delete)
qed (simp_all add: gwf_def gkeys_def)

lemmas gomap_basics [gomap_simps] = gm.get_put gm.get_del gm.get_put_all

lemma length_gkeys [gomap_simps]: "length (gkeys m) = length m"
  by (simp add: gkeys_def)

section \<open>Lists\<close>

text \<open>Machine additions over a list, in the order of the loop.\<close>

fun wsum :: "int64 list \<Rightarrow> int64" where
  "wsum [] = 0"
| "wsum (x # xs) = x + wsum xs"

lemma fold_plus_wsum: "fold (\<lambda>x a. a + f x) xs a = a + wsum (map f xs)"
  by (induction xs arbitrary: a) (simp_all add: algebra_simps)

text \<open>Without overflow the machine sum is the integer sum.\<close>

lemma ival_wsum:
  assumes "\<forall>x \<in> set xs. 0 \<le> ival x" and "sum_list (map ival xs) < 2 ^ 63"
  shows "ival (wsum xs) = sum_list (map ival xs)"
  using assms
proof (induction xs)
  case (Cons x xs)
  have nonneg: "0 \<le> sum_list (map ival xs)"
    using Cons.prems(1) by (intro sum_list_nonneg) auto
  with Cons.prems have "sum_list (map ival xs) < 2 ^ 63" by auto
  with Cons have "ival (wsum xs) = sum_list (map ival xs)" by simp
  then show ?case using Cons.prems nonneg by (simp add: ival_add)
qed simp

section \<open>Sorting\<close>

text \<open>
  What \<^verbatim>\<open>sort.Sort\<close> promises: a permutation in which no element is less than an earlier
  one.  It is not stable, but the sequence of the keys it compares is determined.
\<close>

locale sorter =
  fixes less :: "'a \<Rightarrow> 'a \<Rightarrow> bool"
    and key :: "'a \<Rightarrow> 'k :: linorder"
    and srt :: "'a list \<Rightarrow> 'a list"
  assumes less_key: "less a b \<longleftrightarrow> key a < key b"
    and srt_perm: "mset (srt xs) = mset xs"
    and srt_order: "sorted_wrt (\<lambda>a b. \<not> less b a) (srt xs)"
begin

lemma srt_sorted: "sorted (map key (srt xs))"
  using srt_order [of xs] by (simp add: less_key not_less sorted_wrt_map)

lemma srt_keys: "map key (srt xs) = sort (map key xs)"
  by (rule properties_for_sort [symmetric]) (simp_all add: srt_sorted flip: mset_map, simp add: srt_perm)

lemma srt_unique:
  assumes "mset ys = mset xs" and "sorted_wrt (\<lambda>a b. \<not> less b a) ys"
  shows "map key ys = map key (srt xs)"
proof -
  have "sorted (map key ys)"
    using assms(2) by (simp add: less_key not_less sorted_wrt_map)
  then have "map key ys = sort (map key xs)"
    by (intro properties_for_sort [symmetric]) (simp_all add: assms(1))
  then show ?thesis by (simp add: srt_keys)
qed

lemma srt_set: "set (srt xs) = set xs"
  using srt_perm [of xs] by (metis set_mset_mset)

lemma srt_length: "length (srt xs) = length xs"
  using srt_perm [of xs] by (metis size_mset)

end

lemma sort_key_sorter:
  fixes key :: "'a \<Rightarrow> 'k :: linorder"
  shows "sorter (\<lambda>a b. key a < key b) key (sort_key key)"
proof
  fix xs :: "'a list"
  have "sorted (map key (sort_key key xs))" by simp
  then show "sorted_wrt (\<lambda>a b. \<not> key b < key a) (sort_key key xs)"
    by (simp add: not_less sorted_wrt_map)
qed simp_all

end
