(* ===== verification/GoStd.thy ===== *)
theory GoStd
  imports Prelude
begin

text \<open>
  The functions of Go's standard library whose results the scheduler stores or compares:
  \<^verbatim>\<open>path.Clean\<close> (the key under which a mounted directory is counted once),
  \<^verbatim>\<open>strconv.ParseInt(s, 10, 64)\<close> and \<^verbatim>\<open>fmt.Sprintf("%d", n)\<close> (the capacity
  annotation).  They are written from the language's documentation, executable, with the
  facts the components rest on.
\<close>

section \<open>path.Clean\<close>

text \<open>
  One path element after another; the list is the stack of kept elements, last first.
  \<open>..\<close> removes the element before it, is dropped at a root, and is kept where a relative
  path leaves its start.
\<close>

fun clean_step :: "bool \<Rightarrow> string \<Rightarrow> string list \<Rightarrow> string list" where
  "clean_step rooted e st =
     (if e = [] \<or> e = ''.'' then st
      else if e = ''..'' then
        (case st of
           [] \<Rightarrow> if rooted then [] else [e]
         | t # ts \<Rightarrow> if t = ''..'' then e # st else ts)
      else e # st)"

definition path_clean :: "string \<Rightarrow> string" where
  "path_clean p =
     (if p = [] then ''.''
      else let rooted = has_prefix p ''/'';
               body = join_with ''/'' (rev (fold (clean_step rooted) (split_on (CHR ''/'') p) []))
           in if rooted then CHR ''/'' # body else if body = [] then ''.'' else body)"

text \<open>A path that needs no cleaning: plain elements below a root.\<close>

definition plain_element :: "string \<Rightarrow> bool" where
  "plain_element e \<longleftrightarrow> e \<noteq> [] \<and> e \<noteq> ''.'' \<and> e \<noteq> ''..'' \<and> CHR ''/'' \<notin> set e"

lemma clean_step_plain: "plain_element e \<Longrightarrow> clean_step r e st = e # st"
  by (simp add: plain_element_def)

lemma clean_step_empty [simp]: "clean_step r [] st = st"
  by simp

declare clean_step.simps [simp del]

lemma path_clean_root: "path_clean ''/'' = ''/''"
  by (simp add: path_clean_def)

lemma fold_clean_plain:
  "\<forall>e \<in> set es. plain_element e \<Longrightarrow> fold (clean_step r) es st = rev es @ st"
  by (induction es arbitrary: st) (simp_all add: clean_step_plain)

lemma path_clean_plain:
  assumes "es \<noteq> []" and "\<forall>e \<in> set es. plain_element e"
  shows "path_clean (CHR ''/'' # join_with ''/'' es) = CHR ''/'' # join_with ''/'' es"
proof -
  have "split_on (CHR ''/'') (CHR ''/'' # join_with ''/'' es) = [] # es"
    using assms by (simp add: split_join plain_element_def)
  then show ?thesis
    using fold_clean_plain [OF assms(2), of True "[]"] by (simp add: path_clean_def)
qed

lemma clean_step_plain_invariant:
  assumes "\<forall>e \<in> set st. plain_element e" and "CHR ''/'' \<notin> set e"
  shows "\<forall>e \<in> set (clean_step True e st). plain_element e"
proof (cases "e = [] \<or> e = ''.'' \<or> e = ''..''")
  case True
  have "\<forall>e \<in> set (tl st). plain_element e"
    using assms(1) by (cases st) simp_all
  moreover have "clean_step True e st = st \<or> clean_step True e st = tl st"
  proof (cases st)
    case (Cons t ts)
    with assms(1) have "t \<noteq> ''..''" by (simp add: plain_element_def)
    with Cons show ?thesis using True by (auto simp: clean_step.simps)
  qed (use True in \<open>auto simp: clean_step.simps\<close>)
  ultimately show ?thesis using assms(1) by metis
next
  case False
  with assms(2) have "plain_element e" by (simp add: plain_element_def)
  with assms(1) show ?thesis by (simp add: clean_step_plain)
qed

lemma fold_clean_plain_invariant:
  assumes "\<forall>e \<in> set st. plain_element e" and "\<forall>e \<in> set es. CHR ''/'' \<notin> set e"
  shows "\<forall>e \<in> set (fold (clean_step True) es st). plain_element e"
  using assms
proof (induction es arbitrary: st)
  case (Cons e es)
  then show ?case using clean_step_plain_invariant [of st e] by simp
qed simp

text \<open>Cleaning an absolute path twice changes nothing.\<close>

lemma path_clean_idempotent:
  assumes "has_prefix p ''/''"
  shows "path_clean (path_clean p) = path_clean p"
proof -
  define es where "es = rev (fold (clean_step True) (split_on (CHR ''/'') p) [])"
  have p: "path_clean p = CHR ''/'' # join_with ''/'' es"
    using assms by (cases p) (auto simp: path_clean_def es_def Let_def)
  have plain: "\<forall>e \<in> set es. plain_element e"
    using fold_clean_plain_invariant [of "[]" "split_on (CHR ''/'') p"] split_on_no_sep
    by (simp add: es_def)
  show ?thesis
  proof (cases "es = []")
    case True
    with p have "path_clean p = ''/''" by simp
    then show ?thesis by (simp add: path_clean_root)
  next
    case False
    then show ?thesis using path_clean_plain [OF _ plain] by (simp add: p)
  qed
qed

section \<open>Decimal numbers\<close>

definition digit_char :: "nat \<Rightarrow> char" where
  "digit_char d = char_of (48 + d)"

definition digit_val :: "char \<Rightarrow> nat option" where
  "digit_val c = (let n = of_char c :: nat in if 48 \<le> n \<and> n \<le> 57 then Some (n - 48) else None)"

fun dec_digits :: "nat \<Rightarrow> string" where
  "dec_digits n = (if n < 10 then [digit_char n] else dec_digits (n div 10) @ [digit_char (n mod 10)])"

declare dec_digits.simps [simp del]

text \<open>\<^verbatim>\<open>fmt.Sprintf("%d", n)\<close> for an int64.\<close>

definition format_int :: "int64 \<Rightarrow> string" where
  "format_int w =
     (if ival w < 0 then CHR ''-'' # dec_digits (nat (- ival w)) else dec_digits (nat (ival w)))"

fun parse_digits :: "nat \<Rightarrow> string \<Rightarrow> nat option" where
  "parse_digits acc [] = Some acc"
| "parse_digits acc (c # cs) =
     (case digit_val c of None \<Rightarrow> None | Some d \<Rightarrow> parse_digits (10 * acc + d) cs)"

text \<open>
  \<^verbatim>\<open>strconv.ParseInt(s, 10, 64)\<close>; \<open>None\<close> is either of its two errors (syntax, range).
  A sign is allowed, an empty digit sequence is not.
\<close>

definition parse_int :: "string \<Rightarrow> int64 option" where
  "parse_int s =
     (let neg = has_prefix s ''-'';
          ds = (if neg \<or> has_prefix s ''+'' then tl s else s)
      in if ds = [] then None
         else (case parse_digits 0 ds of
                 None \<Rightarrow> None
               | Some v \<Rightarrow>
                   if neg then (if v \<le> 2 ^ 63 then Some (word_of_int (- int v)) else None)
                   else (if v < 2 ^ 63 then Some (word_of_int (int v)) else None)))"

lemma digit_val_char [simp]: "d < 10 \<Longrightarrow> digit_val (digit_char d) = Some d"
  by (simp add: digit_val_def digit_char_def)

lemma parse_digits_append:
  "parse_digits acc (xs @ ys) =
     (case parse_digits acc xs of None \<Rightarrow> None | Some v \<Rightarrow> parse_digits v ys)"
  by (induction acc xs rule: parse_digits.induct) (auto split: option.splits)

lemma parse_dec_digits: "parse_digits 0 (dec_digits n) = Some n"
proof (induction n rule: dec_digits.induct)
  case (1 n)
  then show ?case by (subst dec_digits.simps) (auto simp: parse_digits_append)
qed

lemma dec_digits_nonempty [simp]: "dec_digits n \<noteq> []"
  by (subst dec_digits.simps) simp

lemma digit_char_neq:
  "d < 10 \<Longrightarrow> digit_char d \<noteq> CHR ''-''" "d < 10 \<Longrightarrow> digit_char d \<noteq> CHR ''+''"
proof -
  have "digit_val (CHR ''-'') = None" and "digit_val (CHR ''+'') = None"
    by (simp_all add: digit_val_def)
  then show "d < 10 \<Longrightarrow> digit_char d \<noteq> CHR ''-''" "d < 10 \<Longrightarrow> digit_char d \<noteq> CHR ''+''"
    by (metis digit_val_char option.distinct(1))+
qed

lemma dec_digits_chars: "set (dec_digits n) \<subseteq> digit_char ` {..<10}"
proof (induction n rule: dec_digits.induct)
  case (1 n)
  then show ?case by (subst dec_digits.simps) auto
qed

lemma dec_digits_no_sign:
  "\<not> has_prefix (dec_digits n) ''-''" "\<not> has_prefix (dec_digits n) ''+''"
proof -
  obtain c cs where cs: "dec_digits n = c # cs"
    by (cases "dec_digits n") auto
  have "c \<in> digit_char ` {..<10}"
    using dec_digits_chars [of n] by (simp add: cs)
  then obtain d where "c = digit_char d" and "d < 10"
    by (elim imageE) simp
  with digit_char_neq [of d] have "c \<noteq> CHR ''-''" and "c \<noteq> CHR ''+''"
    by simp_all
  with cs show "\<not> has_prefix (dec_digits n) ''-''" "\<not> has_prefix (dec_digits n) ''+''"
    by simp_all
qed

text \<open>Printing an int64 and parsing it back.\<close>

lemma parse_format_int: "parse_int (format_int w) = Some w"
proof (cases "ival w < 0")
  case True
  have "nat (- ival w) \<le> 2 ^ 63" using ival_lower [of w] by simp
  with True show ?thesis
    by (simp add: format_int_def parse_int_def parse_dec_digits)
next
  case False
  have "nat (ival w) < 2 ^ 63" using ival_upper [of w] False by simp
  with False show ?thesis
    by (simp add: format_int_def parse_int_def parse_dec_digits dec_digits_no_sign)
qed

lemma format_int_nonempty [simp]: "format_int w \<noteq> []"
  by (simp add: format_int_def)

end
