(* ===== verification/ApiTypes.thy ===== *)
theory ApiTypes
  imports GoStd
begin

text \<open>
  The Kubernetes objects and the messages of the scheduler extender, with the fields the
  program reads (\<^verbatim>\<open>k8s.io/api/core/v1\<close>, \<^verbatim>\<open>pkg/scheduler/api\<close>, the annotation types of
  the hostpath CSI plugin), the errors of the program as one datatype, and the informer
  caches the predicates and priorities read.  An optional field is a Go pointer (or a map
  that may be nil).
\<close>

section \<open>Objects\<close>

text \<open>\<^verbatim>\<open>Volume.VolumeSource.PersistentVolumeClaim\<close>: the claim's name, when the source is set.\<close>

record volume =
  vol_claim :: "string option"

record pod =
  pod_namespace :: string
  pod_name :: string
  pod_deletion :: bool  \<comment> \<open>\<open>DeletionTimestamp\<close> is set\<close>
  pod_phase :: string
  pod_node :: string    \<comment> \<open>\<open>Spec.NodeName\<close>, empty when the pod is not scheduled\<close>
  pod_volumes :: "volume list"

record node =
  node_name :: string
  node_labels :: "(string, string) gomap"
  node_annotations :: "(string, string) gomap option"

record claim_ref =
  ref_namespace :: string
  ref_name :: string

text \<open>
  A persistent volume: \<open>Spec.HostPath\<close> (its path), \<open>Spec.CSI\<close> (its driver), \<open>Spec.ClaimRef\<close>
  and \<open>Spec.Capacity\<close>, a quantity being read only through \<open>Quantity.Value()\<close>.
\<close>

record pv =
  pv_name :: string
  pv_annotations :: "(string, string) gomap option"
  pv_host_path :: "string option"
  pv_csi_driver :: "string option"
  pv_claim_ref :: "claim_ref option"
  pv_capacity :: "(string, int64) gomap"

record pvc =
  pvc_phase :: string
  pvc_volume :: string  \<comment> \<open>\<open>Spec.VolumeName\<close>\<close>

definition PodSucceeded :: string where "PodSucceeded = ''Succeeded''"
definition PodFailed :: string where "PodFailed = ''Failed''"
definition ClaimBound :: string where "ClaimBound = ''Bound''"
definition ResourceStorage :: string where "ResourceStorage = ''storage''"

section \<open>Annotation data of the CSI plugin\<close>

record mount_info =
  mi_host_path :: string
  mi_quota :: int64          \<comment> \<open>\<open>VolumeQuotaSize\<close>\<close>
  mi_current_size :: int64
  mi_current_files :: int64
  mi_pod_info :: "string option"

record hp_mount_info =
  hm_node :: string          \<comment> \<open>\<open>NodeName\<close>\<close>
  hm_mounts :: "mount_info list"

record disk_quota_info =
  dq_mount_path :: string
  dq_allocable :: int64
  dq_disabled :: bool

definition NodeDiskQuotaInfoAnn :: string where
  "NodeDiskQuotaInfoAnn = ''io.enndata.kubelet/alpha-nodediskquotainfo''"
definition PVVolumeHostPathMountNode :: string where
  "PVVolumeHostPathMountNode = ''io.enndata.kubelet/alpha-pvchostpathnode''"
definition PVHostPathMountPolicyAnn :: string where
  "PVHostPathMountPolicyAnn = ''io.enndata.user/alpha-pvhostpathmountpolicy''"
definition PVHostPathQuotaForOnePod :: string where
  "PVHostPathQuotaForOnePod = ''io.enndata.user/alpha-pvhostpathquotaforonepod''"
definition PVHostPathCapacityAnn :: string where
  "PVHostPathCapacityAnn = ''io.enndata.user/alpha-pvhostpathcapcity''"
definition PVHostPathNone :: string where
  "PVHostPathNone = ''none''"

lemmas annotation_keys = NodeDiskQuotaInfoAnn_def PVVolumeHostPathMountNode_def
  PVHostPathMountPolicyAnn_def PVHostPathQuotaForOnePod_def PVHostPathCapacityAnn_def
  PVHostPathNone_def

section \<open>Errors\<close>

text \<open>
  One constructor per error the program builds, with the values its message is formatted
  from.  \<open>External\<close> is an error of the API server, the caches or a decoder, by its text.
  Where the code formats the method value \<^verbatim>\<open>err.Error\<close> instead of calling it, the message
  holds no information about the cause and the constructor has no argument for it.
  \<open>ParserPanic\<close> stands for an index out of range in the selector parser.
\<close>

datatype error =
    External string
  | PvNotBound string
  | FilterPodsFailed string string error
  | GetPodFailed string string error
  | FilterByNodeAndPvcFailed error
  | NotAHostPathPv string
  | GetPvcFailed string "error option"
  | PvcNotBound string
  | FetchPvFailed string
  | NodeDiskInfoUnmarshal error
  | PvMountInfoFailed string error
  | CapacityNotDefined string
  | PvSizeTooSmall
  | PvIsNotHostPath string
  | PodVolumeFailed string string nat error
  | PredicateError string error
  | NodeGetPodVolumePv string
  | NodeUsedNodeMap string
  | NodeEmptyItem string
  | NodePodDiskInfos string error
  | NodeDiskInfos string error
  | NodeRequestTooBig string int64 int64
  | NodeRequestNotMatched string "(string \<times> int64 \<times> bool) list" "(string \<times> int64 \<times> bool) list"
  | NodeLabelSelector string error
  | Aggregate "error list"
  | EmptyName
  | AlreadyRegistered
  | InitFailed string error
  | NotInited
  | InvalidLabelKey string
  | InvalidLabelValue string
  | EmptyValueSet
  | NotOneValue
  | ValuesNotEmpty
  | ValueNotInteger
  | UnknownOperator
  | SelectorFound string
  | RequirementFailed error
  | ParserPanic

section \<open>Caches\<close>

text \<open>
  The informer caches and the API client are outside the program: a lister returns an
  object pointer (\<open>None\<close> is nil) or an error.  \<open>pv_info\<close> and \<open>pvc_info\<close> are the interfaces
  \<^verbatim>\<open>PersistentVolumeInfo\<close> and \<^verbatim>\<open>PersistentVolumeClaimInfo\<close>; \<open>pod_lister\<close> is the lister
  below \<^verbatim>\<open>CachedPodInfo\<close>.
\<close>

record pv_info =
  pvi_get :: "string \<Rightarrow> error + pv option"
  pvi_list :: "error + pv list"

type_synonym pvc_info = "string \<Rightarrow> string \<Rightarrow> error + pvc option"

record pod_lister =
  pl_list :: "error + pod list"
  pl_get :: "string \<Rightarrow> string \<Rightarrow> error + pod option"

text \<open>
  The decoders of \<^verbatim>\<open>encoding/json\<close> for the two annotations.  A nil list decoded from
  \<open>null\<close> reads as the empty list.
\<close>

record codec =
  un_mounts :: "string \<Rightarrow> error + hp_mount_info list"
  un_disks :: "string \<Rightarrow> error + disk_quota_info list"

text \<open>What a predicate or a priority keeps after its \<^verbatim>\<open>Init\<close>: its three caches.\<close>

record informers =
  pvInfo :: pv_info
  pvcInfo :: pvc_info
  podInfo :: pod_lister

end
