(* ===== verification/Registry.thy ===== *)
theory Registry
  imports ApiTypes
begin

text \<open>
  The contract both plug-in registries of the program keep (package \<^verbatim>\<open>predicate\<close> and
  package \<^verbatim>\<open>prioritize\<close>): a component is appended unless its name is empty or taken, and
  names are what the HTTP routes are made of.  The consequences for any sequence of
  registrations are proved once, in the locale; each package interprets it on its own
  \<^verbatim>\<open>Regist\<close>.  The theory also holds the outcome type of the request handlers.
\<close>

section \<open>Outcomes of a handler\<close>

text \<open>A Go call that may panic.\<close>

datatype 'a outcome = Panic | Done 'a

text \<open>
  The extender's request.  \<open>ea_nodes\<close> is \<^verbatim>\<open>args.Nodes\<close> with its items; both pointers may be
  nil after decoding.
\<close>

record extender_args =
  ea_pod :: "pod option"
  ea_nodes :: "node list option"

text \<open>
  What the HTTP layer sees: a 400 for a request without a body, a 200 with a JSON body, a
  panic of the handler, which the server turns into a closed connection, or the end of the
  process, after a panic in another goroutine than the handler's.
\<close>

datatype 'b http_result = BadRequest string | Ok200 'b | Crashed | ProcessExit

section \<open>The registry contract\<close>

locale registry =
  fixes names :: "'s \<Rightarrow> string list"
    and name_of :: "'p \<Rightarrow> string"
    and regist :: "'p \<Rightarrow> 's \<Rightarrow> error option \<times> 's"
  assumes regist_ok: "name_of p \<noteq> [] \<Longrightarrow> name_of p \<notin> set (names s) \<Longrightarrow>
      fst (regist p s) = None \<and> names (snd (regist p s)) = names s @ [name_of p]"
    and regist_bad: "name_of p = [] \<or> name_of p \<in> set (names s) \<Longrightarrow>
      fst (regist p s) \<noteq> None \<and> snd (regist p s) = s"
begin

lemma regist_names:
  "names (snd (regist p s)) =
     (if name_of p = [] \<or> name_of p \<in> set (names s) then names s else names s @ [name_of p])"
  using regist_ok [of p s] regist_bad [of p s] by auto

lemma regist_distinct:
  "distinct (names s) \<Longrightarrow> [] \<notin> set (names s) \<Longrightarrow>
   distinct (names (snd (regist p s))) \<and> [] \<notin> set (names (snd (regist p s)))"
  by (auto simp: regist_names)

text \<open>Any sequence of registrations.\<close>

lemma regist_all_distinct:
  "distinct (names s) \<Longrightarrow> [] \<notin> set (names s) \<Longrightarrow>
   distinct (names (fold (\<lambda>p s. snd (regist p s)) ps s)) \<and>
   [] \<notin> set (names (fold (\<lambda>p s. snd (regist p s)) ps s))"
  by (induction ps arbitrary: s) (auto simp: regist_distinct)

text \<open>Registering fresh names keeps all of them, in order.\<close>

lemma regist_all_fresh:
  "distinct (names s @ map name_of ps) \<Longrightarrow> [] \<notin> set (map name_of ps) \<Longrightarrow>
   names (fold (\<lambda>p s. snd (regist p s)) ps s) = names s @ map name_of ps"
  by (induction ps arbitrary: s) (auto simp: regist_names)

text \<open>The first component of a name wins; a second one is refused.\<close>

lemma regist_twice:
  "name_of p \<noteq> [] \<Longrightarrow> name_of q = name_of p \<Longrightarrow>
   fst (regist q (snd (regist p s))) \<noteq> None \<and>
   snd (regist q (snd (regist p s))) = snd (regist p s)"
  using regist_bad [of q "snd (regist p s)"] by (simp add: regist_names)

end

section \<open>Routes\<close>

text \<open>\<^verbatim>\<open>fmt.Sprintf("/%s/%s/%s", apiPrefix, prefix, name)\<close>\<close>

definition route_path :: "string \<Rightarrow> string \<Rightarrow> string \<Rightarrow> string" where
  "route_path apiPrefix prefix name = ''/'' @ apiPrefix @ ''/'' @ prefix @ ''/'' @ name"

lemma route_path_inject: "route_path a p m = route_path a p n \<longleftrightarrow> m = n"
  by (simp add: route_path_def)

lemma route_paths_distinct:
  "distinct (map (route_path a p) ns) \<longleftrightarrow> distinct ns"
  by (simp add: distinct_map inj_on_def route_path_inject)

section \<open>The services made of a registry\<close>

text \<open>
  What both packages promise to \<^verbatim>\<open>main\<close>: initialisation keeps the names and, when it succeeds,
  opens the service; before that the service is not ready and installs nothing; then it
  installs one route for each name.
\<close>

locale plugin_service = registry names name_of regist
  for names :: "'s \<Rightarrow> string list" and name_of :: "'p \<Rightarrow> string"
    and regist :: "'p \<Rightarrow> 's \<Rightarrow> error option \<times> 's" +
  fixes opened :: "'s \<Rightarrow> bool"
    and initialise :: "'s \<Rightarrow> error option \<times> 's"
    and ready :: "'s \<Rightarrow> bool outcome"
    and install :: "string \<Rightarrow> 's \<Rightarrow> error + string list"
    and prefix :: string
  assumes init_names: "names (snd (initialise s)) = names s"
    and init_opens: "fst (initialise s) = None \<Longrightarrow> opened (snd (initialise s))"
    and closed_not_ready: "\<not> opened s \<Longrightarrow> ready s = Done False"
    and install_spec: "install a s =
      (if opened s then Inr (map (route_path a prefix) (names s)) else Inl NotInited)"
begin

lemma ready_opened: "ready s = Done True \<Longrightarrow> opened s"
  using closed_not_ready [of s] by auto

lemma installed_after_init:
  "fst (initialise s) = None \<Longrightarrow> install a (snd (initialise s)) = Inr (map (route_path a prefix) (names s))"
  by (simp add: install_spec init_opens init_names)

lemma installed_distinct:
  "install a s = Inr paths \<Longrightarrow> distinct (names s) \<Longrightarrow> distinct paths"
  by (auto simp: install_spec route_paths_distinct split: if_splits)

text \<open>Registrations in an empty registry, then a successful initialisation.\<close>

lemma start_and_install:
  assumes "names s = []" and "distinct (map name_of ps)" and "[] \<notin> set (map name_of ps)"
    and "fst (initialise (fold (\<lambda>p s. snd (regist p s)) ps s)) = None"
  shows "install a (snd (initialise (fold (\<lambda>p s. snd (regist p s)) ps s))) =
    Inr (map (route_path a prefix) (map name_of ps))"
  using installed_after_init [OF assms(4)] regist_all_fresh [of s ps] assms(1-3) by simp

end

end
