(* ===== verification/PredicatePlugin.thy ===== *)
theory PredicatePlugin
  imports Registry
begin

text \<open>
  \<^verbatim>\<open>pkg/algorithm/predicate/predicate.go\<close>: the registry of predicates, the filter handler and
  its HTTP route.  A predicate is a record of its interface's operations together with
  whether \<^verbatim>\<open>Init\<close> has run on it; \<^verbatim>\<open>Ready\<close> on a predicate whose \<^verbatim>\<open>Init\<close> has not run calls a nil
  function and panics.
\<close>

section \<open>The interface and the registry\<close>

record predicate =
  p_name :: string
  p_init :: "error option"     \<comment> \<open>what \<^verbatim>\<open>Init\<close> returns\<close>
  p_started :: bool            \<comment> \<open>\<^verbatim>\<open>Init\<close> has run\<close>
  p_synced :: bool             \<comment> \<open>what the informers answer once it has\<close>
  p_match :: "pod \<Rightarrow> node \<Rightarrow> error + bool"

record registry_state =
  predicateList :: "predicate list"
  inited :: bool

definition init_registry :: registry_state where
  "init_registry = \<lparr>predicateList = [], inited = False\<rparr>"

definition newPredicateError :: "string \<Rightarrow> error \<Rightarrow> error" where
  "newPredicateError name desc = PredicateError name desc"

text \<open>
  After \<^verbatim>\<open>Init\<close> the code builds the error \<open>please regist before init\<close> and drops it, so the
  flag does not guard the registration.
\<close>

definition predicate_Regist :: "predicate \<Rightarrow> registry_state \<Rightarrow> error option \<times> registry_state" where
  "predicate_Regist p st =
     (if p_name p = [] then (Some (EmptyName), st)
      else if p_name p \<in> set (map p_name (predicateList st))
        then (Some (AlreadyRegistered), st)
      else (None, st\<lparr>predicateList := predicateList st @ [p]\<rparr>))"

fun init_loop :: "predicate list \<Rightarrow> error option \<times> predicate list" where
  "init_loop [] = (None, [])"
| "init_loop (p # ps) =
     (case p_init p of
        Some err \<Rightarrow> (Some (InitFailed (p_name p) err), p # ps)
      | None \<Rightarrow> (case init_loop ps of (e, ps') \<Rightarrow> (e, p\<lparr>p_started := True\<rparr> # ps')))"

definition predicate_Init :: "registry_state \<Rightarrow> error option \<times> registry_state" where
  "predicate_Init st =
     (case init_loop (predicateList st) of
        (Some err, ps) \<Rightarrow> (Some err, st\<lparr>predicateList := ps\<rparr>)
      | (None, ps) \<Rightarrow> (None, st\<lparr>predicateList := ps, inited := True\<rparr>))"

fun ready_loop :: "predicate list \<Rightarrow> bool outcome" where
  "ready_loop [] = Done True"
| "ready_loop (p # ps) =
     (if \<not> p_started p then Panic else if p_synced p = False then Done False else ready_loop ps)"

definition predicate_Ready :: "registry_state \<Rightarrow> bool outcome" where
  "predicate_Ready st = (if inited st = False then Done False else ready_loop (predicateList st))"

definition predicatesPrefix :: string where
  "predicatesPrefix = ''predicates''"

definition predicate_InstallHttpServer :: "string \<Rightarrow> registry_state \<Rightarrow> error + string list" where
  "predicate_InstallHttpServer apiPrefix st =
     (if inited st = False then Inl (NotInited)
      else Inr (map (\<lambda>p. route_path apiPrefix predicatesPrefix (p_name p)) (predicateList st)))"

lemma init_loop_names: "map p_name (snd (init_loop ps)) = map p_name ps"
  by (induction ps) (auto split: option.splits prod.splits)

interpretation preds: plugin_service "\<lambda>st. map p_name (predicateList st)" p_name predicate_Regist
  inited predicate_Init predicate_Ready predicate_InstallHttpServer predicatesPrefix
proof unfold_locales
  fix st :: registry_state
  show "map p_name (predicateList (snd (predicate_Init st))) = map p_name (predicateList st)"
    using init_loop_names [of "predicateList st"]
    by (auto simp: predicate_Init_def split: option.splits prod.splits)
qed (auto simp: predicate_Regist_def predicate_Init_def predicate_Ready_def predicate_InstallHttpServer_def
  split: option.splits prod.splits)

section \<open>The registry as a state machine\<close>

text \<open>
  What can happen to the registry: a registration, an initialisation, a change of what the
  informers of one predicate answer.
\<close>

inductive predicate_step :: "registry_state \<Rightarrow> registry_state \<Rightarrow> bool" where
  regist: "\<not> p_started p \<Longrightarrow> predicate_step st (snd (predicate_Regist p st))"
| init: "predicate_step st (snd (predicate_Init st))"
| sync: "predicate_step st (st\<lparr>predicateList :=
    map (\<lambda>p. if p_name p = n then p\<lparr>p_synced := b\<rparr> else p) (predicateList st)\<rparr>)"

inductive predicate_reach :: "registry_state \<Rightarrow> bool" where
  start: "predicate_reach init_registry"
| step: "predicate_reach st \<Longrightarrow> predicate_step st st' \<Longrightarrow> predicate_reach st'"

inductive_cases predicate_stepE: "predicate_step st st'"

lemma init_loop_started: "fst (init_loop ps) = None \<Longrightarrow> \<forall>p \<in> set (snd (init_loop ps)). p_started p"
  by (induction ps) (auto split: option.splits prod.splits)

lemma init_loop_synced: "map p_synced (snd (init_loop ps)) = map p_synced ps"
  by (induction ps) (auto split: option.splits prod.splits)

definition names_ok :: "registry_state \<Rightarrow> bool" where
  "names_ok st \<longleftrightarrow> distinct (map p_name (predicateList st)) \<and> [] \<notin> set (map p_name (predicateList st))"

lemma predicate_step_names_ok: "predicate_step st st' \<Longrightarrow> names_ok st \<Longrightarrow> names_ok st'"
proof (induction rule: predicate_step.induct)
  case (regist p st)
  then show ?case using preds.regist_distinct [of st p] by (simp add: names_ok_def)
next
  case (init st)
  then show ?case by (simp add: names_ok_def preds.init_names del: set_map)
next
  case (sync st n b)
  have "map p_name (predicateList (st\<lparr>predicateList :=
      map (\<lambda>p. if p_name p = n then p\<lparr>p_synced := b\<rparr> else p) (predicateList st)\<rparr>))
      = map p_name (predicateList st)"
    by simp
  with sync show ?case by (simp only: names_ok_def simp_thms)
qed

lemma predicate_reach_names_ok: "predicate_reach st \<Longrightarrow> names_ok st"
proof (induction rule: predicate_reach.induct)
  case start
  show ?case by (simp add: names_ok_def init_registry_def)
next
  case (step st st')
  then show ?case by (blast intro: predicate_step_names_ok)
qed

lemma ready_loop_started:
  "\<forall>p \<in> set ps. p_started p \<Longrightarrow> ready_loop ps = Done (\<forall>p \<in> set ps. p_synced p)"
  by (induction ps) auto

lemma ready_loop_late:
  "\<forall>p \<in> set ps. p_started p \<and> p_synced p \<Longrightarrow> \<not> p_started q \<Longrightarrow> ready_loop (ps @ [q]) = Panic"
  by (induction ps) auto

section \<open>The filter handler\<close>

record filter_result =
  fr_nodes :: "node list option"
  fr_failed :: "(string, error) gomap option"
  fr_error :: "error option"

text \<open>
  The loop over the nodes with \<^verbatim>\<open>canSchedule\<close> and \<^verbatim>\<open>canNotSchedule\<close>; the map holds the error
  whose text the code stores.  A nil pod is dereferenced by every predicate, so the first
  call panics.
\<close>

fun handler_loop ::
  "(pod \<Rightarrow> node \<Rightarrow> error + bool) \<Rightarrow> pod option \<Rightarrow> node list \<Rightarrow> node list \<Rightarrow> (string, error) gomap \<Rightarrow>
   (node list \<times> (string, error) gomap) outcome" where
  "handler_loop mtch pd [] sched failed = Done (sched, failed)"
| "handler_loop mtch pd (nd # nds) sched failed =
     (case pd of
        None \<Rightarrow> Panic
      | Some q \<Rightarrow>
          (case mtch q nd of
             Inl err \<Rightarrow> handler_loop mtch pd nds sched (gput (node_name nd) err failed)
           | Inr result \<Rightarrow>
               if result then handler_loop mtch pd nds (sched @ [nd]) failed
               else handler_loop mtch pd nds sched failed))"

definition Predicate_Handler :: "(pod \<Rightarrow> node \<Rightarrow> error + bool) \<Rightarrow> extender_args \<Rightarrow> filter_result outcome" where
  "Predicate_Handler mtch args =
     (case ea_nodes args of
        None \<Rightarrow> Panic
      | Some items \<Rightarrow>
          (case handler_loop mtch (ea_pod args) items [] [] of
             Panic \<Rightarrow> Panic
           | Done (sched, failed) \<Rightarrow>
               Done \<lparr>fr_nodes = Some sched, fr_failed = Some failed, fr_error = None\<rparr>))"

text \<open>
  The route: \<open>decode\<close> is the JSON decoder of the request, \<open>encode\<close> the encoder of the answer
  (an error there panics).
\<close>

definition predicateRoute ::
  "(string \<Rightarrow> error + extender_args) \<Rightarrow> (filter_result \<Rightarrow> error + 'b) \<Rightarrow>
   (pod \<Rightarrow> node \<Rightarrow> error + bool) \<Rightarrow> string option \<Rightarrow> 'b http_result" where
  "predicateRoute decode encode mtch body =
     (case body of
        None \<Rightarrow> BadRequest ''Please send a request body''
      | Some text \<Rightarrow>
          (case (case decode text of
                   Inl err \<Rightarrow> Done \<lparr>fr_nodes = None, fr_failed = None, fr_error = Some err\<rparr>
                 | Inr args \<Rightarrow> Predicate_Handler mtch args) of
             Panic \<Rightarrow> Crashed
           | Done res \<Rightarrow>
               (case encode res of Inl err \<Rightarrow> Crashed | Inr resultBody \<Rightarrow> Ok200 resultBody)))"

section \<open>Facts about the handler\<close>

definition passes :: "(pod \<Rightarrow> node \<Rightarrow> error + bool) \<Rightarrow> pod \<Rightarrow> node \<Rightarrow> bool" where
  "passes mtch q nd \<longleftrightarrow> mtch q nd = Inr True"

lemma handler_loop_Some:
  "handler_loop mtch (Some q) nds sched failed =
     Done (sched @ filter (passes mtch q) nds,
           fold (\<lambda>nd m. case mtch q nd of Inl err \<Rightarrow> gput (node_name nd) err m | Inr _ \<Rightarrow> m) nds failed)"
  by (induction nds arbitrary: sched failed) (auto simp: passes_def split: sum.splits)

lemma failed_keys:
  "gget (fold (\<lambda>nd m. case mtch q nd of Inl err \<Rightarrow> gput (node_name nd) err m | Inr _ \<Rightarrow> m) nds failed) k
     \<noteq> None \<longleftrightarrow> gget failed k \<noteq> None \<or> (\<exists>nd \<in> set nds. node_name nd = k \<and> (\<exists>e. mtch q nd = Inl e))"
  by (induction nds arbitrary: failed) (auto simp: update_conv' split: sum.splits)

lemma failed_reason:
  "gget (fold (\<lambda>nd m. case mtch q nd of Inl err \<Rightarrow> gput (node_name nd) err m | Inr _ \<Rightarrow> m) nds failed) k
     = Some e \<Longrightarrow> gget failed k = Some e \<or> (\<exists>nd \<in> set nds. node_name nd = k \<and> mtch q nd = Inl e)"
  by (induction nds arbitrary: failed) (fastforce simp: update_conv' split: sum.splits if_splits)+

lemma Predicate_Handler_Some:
  "Predicate_Handler mtch \<lparr>ea_pod = Some q, ea_nodes = Some nds\<rparr> =
     Done \<lparr>fr_nodes = Some (filter (passes mtch q) nds),
       fr_failed = Some (fold (\<lambda>nd m. case mtch q nd of Inl err \<Rightarrow> gput (node_name nd) err m
                                                      | Inr _ \<Rightarrow> m) nds []),
       fr_error = None\<rparr>"
  by (simp add: Predicate_Handler_def handler_loop_Some)

section \<open>Predicates about claimed volumes\<close>

text \<open>
  The contract of the hostpath predicates: a pod none of whose volumes is a claim fits every
  node.  The handler then returns all nodes and no failure.
\<close>

definition no_claims :: "pod \<Rightarrow> bool" where
  "no_claims q \<longleftrightarrow> (\<forall>v \<in> set (pod_volumes q). vol_claim v = None)"

locale volume_predicate =
  fixes mtch :: "pod \<Rightarrow> node \<Rightarrow> error + bool"
  assumes no_claims_fit: "no_claims q \<Longrightarrow> mtch q nd = Inr True"
begin

lemma handler_no_claims:
  assumes "no_claims q"
  shows "Predicate_Handler mtch \<lparr>ea_pod = Some q, ea_nodes = Some nds\<rparr> =
    Done \<lparr>fr_nodes = Some nds, fr_failed = Some [], fr_error = None\<rparr>"
proof -
  have "filter (passes mtch q) nds = nds"
    using assms by (simp add: passes_def no_claims_fit filter_id_conv)
  moreover have "fold (\<lambda>nd m. case mtch q nd of Inl err \<Rightarrow> gput (node_name nd) err m | Inr _ \<Rightarrow> m) nds []
      = ([] :: (string, error) gomap)"
    using assms by (induction nds) (simp_all add: no_claims_fit)
  ultimately show ?thesis by (simp add: Predicate_Handler_Some)
qed

end

end
