(* ===== verification/PodInfo.thy ===== *)
theory PodInfo
  imports ApiTypes
begin

text \<open>
  \<^verbatim>\<open>pkg/algorithm/common.go\<close>: the pod queries over the pod cache.  The interface
  \<^verbatim>\<open>PodInfo\<close> is a locale (what a query may return, and that it fails only when the cache
  does), proved for \<^verbatim>\<open>CachedPodInfo\<close>; the facts the hostpath code needs are proved once in it.
\<close>

section \<open>Pods\<close>

definition isPodReady :: "pod \<Rightarrow> bool" where
  "isPodReady p \<longleftrightarrow> PodSucceeded \<noteq> pod_phase p \<and> PodFailed \<noteq> pod_phase p \<and> \<not> pod_deletion p"

fun uses_claim :: "volume list \<Rightarrow> string \<Rightarrow> bool" where
  "uses_claim [] pvcName = False"
| "uses_claim (v # vs) pvcName =
     (case vol_claim v of
        None \<Rightarrow> uses_claim vs pvcName
      | Some claim \<Rightarrow> if claim = pvcName then True else uses_claim vs pvcName)"

definition isPodUsePVC :: "pod \<Rightarrow> string \<Rightarrow> string \<Rightarrow> bool" where
  "isPodUsePVC p pvcNamespace pvcName =
     (if pod_namespace p \<noteq> pvcNamespace then False else uses_claim (pod_volumes p) pvcName)"

lemma uses_claim_iff: "uses_claim vs c \<longleftrightarrow> (\<exists>v \<in> set vs. vol_claim v = Some c)"
  by (induction vs) (auto split: option.splits)

lemma isPodUsePVC_iff:
  "isPodUsePVC p ns nm \<longleftrightarrow> pod_namespace p = ns \<and> (\<exists>v \<in> set (pod_volumes p). vol_claim v = Some nm)"
  by (simp add: isPodUsePVC_def uses_claim_iff)

section \<open>CachedPodInfo\<close>

text \<open>\<^verbatim>\<open>list(filter)\<close>; a nil filter keeps every pod.\<close>

definition cpi_list :: "pod_lister \<Rightarrow> (pod \<Rightarrow> bool) option \<Rightarrow> error + pod list" where
  "cpi_list c flt =
     (case pl_list c of
        Inl e \<Rightarrow> Inl e
      | Inr ret \<Rightarrow> Inr (filter (\<lambda>pod. case flt of None \<Rightarrow> True | Some f \<Rightarrow> f pod) ret))"

definition PodGet :: "pod_lister \<Rightarrow> string \<Rightarrow> string \<Rightarrow> error + pod option" where
  "PodGet c namespace name = pl_get c namespace name"

definition FilterByNodeAndPVC ::
  "pod_lister \<Rightarrow> string \<Rightarrow> string \<Rightarrow> string \<Rightarrow> bool \<Rightarrow> error + pod list" where
  "FilterByNodeAndPVC c nodeName pvcNamespace pvcName all =
     cpi_list c (Some (\<lambda>p.
       if (nodeName = [] \<or> pod_node p = nodeName) \<and> isPodUsePVC p pvcNamespace pvcName
       then (if all then True else isPodReady p)
       else False))"

definition FilterByNode :: "pod_lister \<Rightarrow> string \<Rightarrow> bool \<Rightarrow> error + pod list" where
  "FilterByNode c nodeName all =
     cpi_list c (Some (\<lambda>p.
       if pod_node p = nodeName then (if all then True else isPodReady p) else False))"

definition PodList :: "pod_lister \<Rightarrow> bool \<Rightarrow> error + pod list" where
  "PodList c all = (if all then cpi_list c None else cpi_list c (Some isPodReady))"

section \<open>The interface PodInfo\<close>

text \<open>
  A query for all pods returns the cache; every other query returns a selection of it, in
  its order, and fails exactly when the cache fails.
\<close>

locale pod_info =
  fixes list_pods :: "'c \<Rightarrow> bool \<Rightarrow> error + pod list"
    and by_node :: "'c \<Rightarrow> string \<Rightarrow> bool \<Rightarrow> error + pod list"
    and by_node_pvc :: "'c \<Rightarrow> string \<Rightarrow> string \<Rightarrow> string \<Rightarrow> bool \<Rightarrow> error + pod list"
  assumes list_ready:
      "list_pods c False = map_sum id (filter isPodReady) (list_pods c True)"
    and by_node_sel:
      "by_node c n a = map_sum id (filter (\<lambda>p. pod_node p = n)) (list_pods c a)"
    and by_node_pvc_sel:
      "by_node_pvc c n ns nm a =
         map_sum id (filter (\<lambda>p. (n = [] \<or> pod_node p = n) \<and> isPodUsePVC p ns nm)) (list_pods c a)"
begin

lemma by_node_pvc_cases:
  assumes "by_node_pvc c n ns nm a = Inr ps"
  obtains all where "list_pods c True = Inr all"
    and "ps = filter (\<lambda>p. (n = [] \<or> pod_node p = n) \<and> isPodUsePVC p ns nm \<and> (a \<or> isPodReady p)) all"
proof (cases "list_pods c True")
  case (Inl e)
  with assms show ?thesis
    by (cases a) (simp_all add: by_node_pvc_sel list_ready)
next
  case (Inr all)
  then have "ps = filter (\<lambda>p. (n = [] \<or> pod_node p = n) \<and> isPodUsePVC p ns nm \<and> (a \<or> isPodReady p)) all"
    using assms by (cases a) (simp_all add: by_node_pvc_sel list_ready conj_ac)
  with Inr show ?thesis by (rule that)
qed

lemma by_node_pvc_member:
  assumes "by_node_pvc c n ns nm a = Inr ps" and "p \<in> set ps"
  shows "isPodUsePVC p ns nm \<and> (n = [] \<or> pod_node p = n) \<and> (a \<or> isPodReady p)"
  using assms by (elim by_node_pvc_cases) auto

text \<open>Narrowing the query to one node keeps exactly the pods of that node.\<close>

lemma by_node_pvc_narrow:
  assumes "n \<noteq> []" and "by_node_pvc c [] ns nm a = Inr ps"
  shows "by_node_pvc c n ns nm a = Inr (filter (\<lambda>p. pod_node p = n) ps)"
proof (cases "list_pods c a")
  case (Inl e)
  with assms show ?thesis by (simp add: by_node_pvc_sel)
next
  case (Inr qs)
  with assms show ?thesis by (auto simp: by_node_pvc_sel conj_commute)
qed

lemma by_node_pvc_error:
  "by_node_pvc c n ns nm a = Inl e \<longleftrightarrow> list_pods c True = Inl e"
  by (cases "list_pods c True"; cases a) (simp_all add: by_node_pvc_sel list_ready)

end

interpretation cpi: pod_info PodList FilterByNode FilterByNodeAndPVC
proof unfold_locales
  fix c :: pod_lister and n ns nm :: string and a :: bool
  show "PodList c False = map_sum id (filter isPodReady) (PodList c True)"
    by (simp add: PodList_def cpi_list_def split: sum.split)
  show "FilterByNode c n a = map_sum id (filter (\<lambda>p. pod_node p = n)) (PodList c a)"
    by (auto simp: FilterByNode_def PodList_def cpi_list_def split: sum.split intro!: filter_cong)
  show "FilterByNodeAndPVC c n ns nm a =
      map_sum id (filter (\<lambda>p. (n = [] \<or> pod_node p = n) \<and> isPodUsePVC p ns nm)) (PodList c a)"
    by (auto simp: FilterByNodeAndPVC_def PodList_def cpi_list_def split: sum.split intro!: filter_cong)
qed

lemma FilterByNodeAndPVC_ok:
  "pl_list c = Inr all \<Longrightarrow>
   FilterByNodeAndPVC c n ns nm False =
     Inr (filter (\<lambda>p. (n = [] \<or> pod_node p = n) \<and> isPodUsePVC p ns nm \<and> isPodReady p) all)"
  by (auto simp: FilterByNodeAndPVC_def cpi_list_def intro!: filter_cong)

end
