(* ===== verification/HostPathPV.thy ===== *)
theory HostPathPV
  imports PodInfo
begin

text \<open>
  \<^verbatim>\<open>pkg/algorithm/hostpathpv.go\<close>: what kind of hostpath volume a persistent volume is, which
  nodes and pods use it, whether a node holds a free directory of it, which directories of a
  node are in use with which quota, and the capacity of a volume.
\<close>

section \<open>Kinds of volumes\<close>

text \<open>\<^verbatim>\<open>m[key]\<close> on an annotation map that may be nil.\<close>

definition ann_get :: "(string, string) gomap option \<Rightarrow> string \<Rightarrow> string" where
  "ann_get anns key = (case anns of None \<Rightarrow> [] | Some m \<Rightarrow> gget_str m key)"

definition IsHostPathPV :: "pv option \<Rightarrow> bool" where
  "IsHostPathPV p = (case p of None \<Rightarrow> False | Some v \<Rightarrow> pv_host_path v \<noteq> None)"

definition IsCSIHostPathPV :: "pv option \<Rightarrow> bool" where
  "IsCSIHostPathPV p =
     (case p of None \<Rightarrow> False
      | Some v \<Rightarrow> (case pv_csi_driver v of None \<Rightarrow> False
                   | Some driver \<Rightarrow> contains (to_lower driver) ''hostpath''))"

definition IsCommonHostPathPV :: "pv option \<Rightarrow> bool" where
  "IsCommonHostPathPV p \<longleftrightarrow> IsHostPathPV p \<or> IsCSIHostPathPV p"

definition hasAnnotation :: "(string, string) gomap option \<Rightarrow> string \<Rightarrow> string \<Rightarrow> bool" where
  "hasAnnotation anns key val =
     (case anns of None \<Rightarrow> False
      | Some m \<Rightarrow> (case gget m key of None \<Rightarrow> False | Some v \<Rightarrow> v = val))"

definition pv_anns :: "pv option \<Rightarrow> (string, string) gomap option" where
  "pv_anns p = (case p of None \<Rightarrow> None | Some v \<Rightarrow> pv_annotations v)"

definition IsSharedHostPathPV :: "pv option \<Rightarrow> bool" where
  "IsSharedHostPathPV p =
     (if IsCommonHostPathPV p \<and> hasAnnotation (pv_anns p) PVHostPathQuotaForOnePod ''false''
      then True else False)"

definition IsKeepHostPathPV :: "pv option \<Rightarrow> bool" where
  "IsKeepHostPathPV p =
     (if IsCommonHostPathPV p
      then (if hasAnnotation (pv_anns p) PVHostPathMountPolicyAnn PVHostPathNone then False else True)
      else False)"

section \<open>Users of a volume\<close>

fun used_nodes_loop ::
  "(string \<Rightarrow> string \<Rightarrow> error + pod) \<Rightarrow> pod list \<Rightarrow> (string, bool) gomap \<Rightarrow> error + (string, bool) gomap"
where
  "used_nodes_loop api [] ret = Inr ret"
| "used_nodes_loop api (pd # pods) ret =
     (if pod_node pd \<noteq> [] then used_nodes_loop api pods (gput (pod_node pd) True ret)
      else (case api (pod_namespace pd) (pod_name pd) of
              Inl err \<Rightarrow> Inl (GetPodFailed (pod_namespace pd) (pod_name pd) err)
            | Inr curPod \<Rightarrow>
                if pod_node curPod \<noteq> [] then used_nodes_loop api pods (gput (pod_node curPod) True ret)
                else used_nodes_loop api pods ret))"

text \<open>\<open>api\<close> is \<^verbatim>\<open>clientset.Core().Pods(ns).Get(name)\<close>.\<close>

definition GetHostPathPVUsedNodeMap ::
  "(string \<Rightarrow> string \<Rightarrow> error + pod) \<Rightarrow> pv \<Rightarrow> pod_lister \<Rightarrow> error + (string, bool) gomap" where
  "GetHostPathPVUsedNodeMap api v c =
     (case pv_claim_ref v of
        None \<Rightarrow> Inl (PvNotBound (pv_name v))
      | Some r \<Rightarrow>
          (case FilterByNodeAndPVC c [] (ref_namespace r) (ref_name r) False of
             Inl err \<Rightarrow> Inl (FilterPodsFailed (ref_namespace r) (ref_name r) err)
           | Inr pods \<Rightarrow> used_nodes_loop api pods []))"

definition pod_key :: "pod \<Rightarrow> string" where
  "pod_key pd = pod_namespace pd @ '':'' @ pod_name pd"

definition GetHostPathPVUsedPodMap ::
  "pv \<Rightarrow> pod_lister \<Rightarrow> string \<Rightarrow> error + (string, bool) gomap" where
  "GetHostPathPVUsedPodMap v c nodeName =
     (case pv_claim_ref v of
        None \<Rightarrow> Inl (PvNotBound (pv_name v))
      | Some r \<Rightarrow>
          (case FilterByNodeAndPVC c nodeName (ref_namespace r) (ref_name r) False of
             Inl err \<Rightarrow> Inl (FilterPodsFailed (ref_namespace r) (ref_name r) err)
           | Inr pods \<Rightarrow> Inr (fold (\<lambda>pd. gput (pod_key pd) True) pods [])))"

section \<open>Mount records of a volume\<close>

definition GetHostPathPVMountInfoList :: "codec \<Rightarrow> pv \<Rightarrow> error + hp_mount_info list" where
  "GetHostPathPVMountInfoList cd v =
     (if IsCommonHostPathPV (Some v) \<and> pv_annotations v \<noteq> None \<and>
         ann_get (pv_annotations v) PVVolumeHostPathMountNode \<noteq> []
      then (case un_mounts cd (ann_get (pv_annotations v) PVVolumeHostPathMountNode) of
              Inl errUmarshal \<Rightarrow> Inl errUmarshal
            | Inr mountList \<Rightarrow> Inr mountList)
      else Inr [])"

text \<open>The first record of a node, where the loops over a mount list stop.\<close>

fun find_node :: "hp_mount_info list \<Rightarrow> string \<Rightarrow> hp_mount_info option" where
  "find_node [] nodeName = None"
| "find_node (i # is) nodeName = (if hm_node i = nodeName then Some i else find_node is nodeName)"

definition IsHostPathPVMountOnNode :: "codec \<Rightarrow> pv \<Rightarrow> string \<Rightarrow> bool" where
  "IsHostPathPVMountOnNode cd v nodeName =
     (case GetHostPathPVMountInfoList cd v of
        Inl err \<Rightarrow> False
      | Inr mountList \<Rightarrow> find_node mountList nodeName \<noteq> None)"

definition IsHostPathPVHasEmptyItemForNode ::
  "codec \<Rightarrow> pv \<Rightarrow> string \<Rightarrow> pod_lister \<Rightarrow> error + bool" where
  "IsHostPathPVHasEmptyItemForNode cd v nodeName c =
     (if IsCommonHostPathPV (Some v) then
        if IsSharedHostPathPV (Some v) then Inr (IsHostPathPVMountOnNode cd v nodeName)
        else if IsKeepHostPathPV (Some v) = False then Inr False
        else (case GetHostPathPVMountInfoList cd v of
                Inl err \<Rightarrow> Inl err
              | Inr mountInfos \<Rightarrow>
                  if length mountInfos = 0 then Inr False
                  else (case pv_claim_ref v of
                          None \<Rightarrow> Inl (PvNotBound (pv_name v))
                        | Some r \<Rightarrow>
                            (case find_node mountInfos nodeName of
                               None \<Rightarrow> Inr False
                             | Some info \<Rightarrow>
                                 (case FilterByNodeAndPVC c nodeName (ref_namespace r) (ref_name r) False of
                                    Inl err \<Rightarrow> Inl (FilterByNodeAndPvcFailed err)
                                  | Inr ret \<Rightarrow>
                                      Inr (length (hm_mounts info) > 0 \<and>
                                           length ret < length (hm_mounts info))))))
      else Inl (NotAHostPathPv (pv_name v)))"

text \<open>
  The volume behind a pod's volume; nil when it is not a claim.  A failed lookup of the
  persistent volume is reported with the function's own result \<^verbatim>\<open>err\<close>, which is nil there, so
  the cause \<^verbatim>\<open>errPv\<close> is lost.
\<close>

definition GetPodVolumePV :: "pod \<Rightarrow> volume \<Rightarrow> pv_info \<Rightarrow> pvc_info \<Rightarrow> error + pv option" where
  "GetPodVolumePV pd vol pvI pvcI =
     (case vol_claim vol of
        None \<Rightarrow> Inr None
      | Some claimName \<Rightarrow>
          (case pvcI (pod_namespace pd) claimName of
             Inl errPvc \<Rightarrow> Inl (GetPvcFailed claimName (Some errPvc))
           | Inr None \<Rightarrow> Inl (GetPvcFailed claimName None)
           | Inr (Some claim) \<Rightarrow>
               if pvc_phase claim \<noteq> ClaimBound \<or> pvc_volume claim = [] then Inl (PvcNotBound claimName)
               else (case pvi_get pvI (pvc_volume claim) of
                       Inl errPv \<Rightarrow> Inl (FetchPvFailed (pvc_volume claim))
                     | Inr None \<Rightarrow> Inl (FetchPvFailed (pvc_volume claim))
                     | Inr (Some v) \<Rightarrow> Inr (Some v))))"

definition GetNodeDiskInfo :: "codec \<Rightarrow> node \<Rightarrow> error + disk_quota_info list" where
  "GetNodeDiskInfo cd nd =
     (if node_annotations nd \<noteq> None \<and> ann_get (node_annotations nd) NodeDiskQuotaInfoAnn \<noteq> []
      then (case un_disks cd (ann_get (node_annotations nd) NodeDiskQuotaInfoAnn) of
              Inl err \<Rightarrow> Inl (NodeDiskInfoUnmarshal err)
            | Inr infos \<Rightarrow> Inr infos)
      else Inr [])"

section \<open>Capacity\<close>

definition GetHostPathPVCapacity :: "pv \<Rightarrow> error + int64" where
  "GetHostPathPVCapacity v =
     (if IsCommonHostPathPV (Some v) then
        let ok = (gget (pv_capacity v) ResourceStorage \<noteq> None);
            capacity = (case gget (pv_capacity v) ResourceStorage of None \<Rightarrow> 0 | Some q \<Rightarrow> q)
        in if pv_annotations v \<noteq> None \<and> ann_get (pv_annotations v) PVHostPathCapacityAnn \<noteq> [] then
             (case parse_int (ann_get (pv_annotations v) PVHostPathCapacityAnn) of
                None \<Rightarrow> Inr capacity
              | Some capacityAnn \<Rightarrow> Inr capacityAnn)
           else if ok = False then Inl (CapacityNotDefined (pv_name v))
           else Inr capacity
      else Inr 0)"

text \<open>The capacity where the caller drops the error, which comes with the value 0.\<close>

definition capacity_or_zero :: "pv \<Rightarrow> int64" where
  "capacity_or_zero v = (case GetHostPathPVCapacity v of Inl _ \<Rightarrow> 0 | Inr q \<Rightarrow> q)"

definition SetHostpathPVCapacity :: "pv \<Rightarrow> int64 \<Rightarrow> error + pv" where
  "SetHostpathPVCapacity v size64 =
     (if size64 <s 10 then Inl PvSizeTooSmall
      else if IsCommonHostPathPV (Some v) then
        let anns = (case pv_annotations v of None \<Rightarrow> [] | Some m \<Rightarrow> m)
        in Inr (v\<lparr>pv_annotations := Some (gput PVHostPathCapacityAnn (format_int size64) anns)\<rparr>)
      else Inl (PvIsNotHostPath (pv_name v)))"

section \<open>Facts about kinds of volumes\<close>

lemmas kind_defs = IsCommonHostPathPV_def IsHostPathPV_def IsCSIHostPathPV_def
  IsSharedHostPathPV_def IsKeepHostPathPV_def

lemma IsCommonHostPathPV_nil [simp]: "\<not> IsCommonHostPathPV None"
  by (simp add: kind_defs)

lemma shared_is_common: "IsSharedHostPathPV p \<Longrightarrow> IsCommonHostPathPV p"
  by (simp add: IsSharedHostPathPV_def split: if_splits)

lemma keep_is_common: "IsKeepHostPathPV p \<Longrightarrow> IsCommonHostPathPV p"
  by (simp add: IsKeepHostPathPV_def split: if_splits)

text \<open>The kind depends on the source, the driver and two annotations only.\<close>

lemma hasAnnotation_put_other:
  "k \<noteq> j \<Longrightarrow> hasAnnotation (Some (gput k x (case m of None \<Rightarrow> [] | Some a \<Rightarrow> a))) j val = hasAnnotation m j val"
  by (cases m) (simp_all add: hasAnnotation_def update_conv')

lemma ann_get_put:
  "ann_get (Some (gput k x m)) j = (if j = k then x else ann_get (Some m) j)"
  by (simp add: ann_get_def gget_str_def update_conv')

lemma ann_get_put_nil:
  "ann_get (Some (gput k x (case m of None \<Rightarrow> [] | Some a \<Rightarrow> a))) j = (if j = k then x else ann_get m j)"
  by (cases m) (simp_all add: ann_get_def gget_str_def update_conv')

section \<open>Facts about mount records\<close>

lemma find_node_Some: "find_node ms n = Some i \<Longrightarrow> i \<in> set ms \<and> hm_node i = n"
  by (induction ms) (auto split: if_splits)

lemma find_node_None: "find_node ms n = None \<longleftrightarrow> (\<forall>i \<in> set ms. hm_node i \<noteq> n)"
  by (induction ms) auto

lemma find_node_exists: "(\<exists>i. find_node ms n = Some i) \<longleftrightarrow> n \<in> hm_node ` set ms"
  using find_node_None [of ms n] by (cases "find_node ms n") auto

text \<open>
  The used-pod map has one entry per pod name: all its pods are in the claim's namespace, so
  the key \<open>namespace:name\<close> tells them apart by name.
\<close>

lemma used_pods_length:
  assumes "pv_claim_ref v = Some r"
    and "FilterByNodeAndPVC c n (ref_namespace r) (ref_name r) False = Inr pods"
    and "GetHostPathPVUsedPodMap v c n = Inr m"
  shows "length m = card (pod_name ` set pods)"
proof -
  have ns: "\<forall>p \<in> set pods. pod_namespace p = ref_namespace r"
    using cpi.by_node_pvc_member [OF assms(2)] by (meson isPodUsePVC_iff)
  have "length m = card (pod_key ` set pods)"
    using assms gm.length_put_all [of pod_key True pods]
    by (simp add: GetHostPathPVUsedPodMap_def length_gkeys)
  also have "pod_key ` set pods = (\<lambda>x. ref_namespace r @ '':'' @ x) ` pod_name ` set pods"
    using ns by (auto simp: pod_key_def image_iff)
  also have "card \<dots> = card (pod_name ` set pods)"
    by (rule card_image) (simp add: inj_on_def)
  finally show ?thesis .
qed

lemma used_pods_keys:
  assumes "GetHostPathPVUsedPodMap v c n = Inr m"
  obtains r pods where "pv_claim_ref v = Some r"
    and "FilterByNodeAndPVC c n (ref_namespace r) (ref_name r) False = Inr pods"
    and "set (gkeys m) = pod_key ` set pods"
  using assms gm.keys_put_all [of pod_key True]
  by (auto simp: GetHostPathPVUsedPodMap_def split: option.splits sum.splits)

text \<open>
  The used-node map when every pod of the volume is already placed: exactly their nodes.
\<close>

lemma used_nodes_loop_placed:
  "\<forall>p \<in> set pods. pod_node p \<noteq> [] \<Longrightarrow>
   used_nodes_loop api pods ret = Inr (fold (\<lambda>p. gput (pod_node p) True) pods ret)"
  by (induction pods arbitrary: ret) auto

text \<open>In general, the nodes the API server or the cache names for the users of the volume.\<close>

definition node_of_user :: "(string \<Rightarrow> string \<Rightarrow> error + pod) \<Rightarrow> pod \<Rightarrow> string" where
  "node_of_user api pd =
     (if pod_node pd \<noteq> [] then pod_node pd
      else (case api (pod_namespace pd) (pod_name pd) of Inl _ \<Rightarrow> [] | Inr q \<Rightarrow> pod_node q))"

lemma used_nodes_loop_keys:
  "used_nodes_loop api pods ret = Inr m \<Longrightarrow>
   set (gkeys m) = set (gkeys ret) \<union> (node_of_user api ` set pods - {[]})"
proof (induction pods arbitrary: ret)
  case (Cons p ps)
  have put: "set (gkeys (gput k True ret)) = insert k (set (gkeys ret))" for k
    by (simp add: gkeys_def dom_update)
  from Cons show ?case
    by (auto simp: put node_of_user_def split: if_splits sum.splits)
qed (simp add: gkeys_def)

lemma used_nodes_loop_values:
  "used_nodes_loop api pods ret = Inr m \<Longrightarrow> \<forall>k. gget ret k \<noteq> Some False \<Longrightarrow> gget m k \<noteq> Some False"
proof (induction pods arbitrary: ret)
  case (Cons p ps)
  have put: "\<forall>k. gget ret k \<noteq> Some False \<Longrightarrow> \<forall>k. gget (gput j True ret) k \<noteq> Some False" for j
    by (simp add: update_conv')
  from Cons show ?case
    by (auto dest: put split: if_splits sum.splits)
qed simp

section \<open>Facts about capacity\<close>

lemma word_sless_ival: "a <s b \<longleftrightarrow> ival a < ival b"
  by (simp add: word_sless_alt)

lemma word_sle_ival: "a \<le>s b \<longleftrightarrow> ival a \<le> ival b"
  by (simp add: word_sle_eq)

lemma set_capacity_kind:
  assumes "SetHostpathPVCapacity v n = Inr w"
  shows "IsCommonHostPathPV (Some w) \<and> IsSharedHostPathPV (Some w) = IsSharedHostPathPV (Some v) \<and>
    IsKeepHostPathPV (Some w) = IsKeepHostPathPV (Some v)"
proof -
  have v: "IsCommonHostPathPV (Some v)"
    and w: "w = v\<lparr>pv_annotations := Some (gput PVHostPathCapacityAnn (format_int n)
      (case pv_annotations v of None \<Rightarrow> [] | Some m \<Rightarrow> m))\<rparr>"
    using assms by (auto simp: SetHostpathPVCapacity_def Let_def split: if_splits)
  have "IsCommonHostPathPV (Some w)"
    using v by (simp add: w kind_defs)
  then show ?thesis
    using v by (simp add: w IsSharedHostPathPV_def IsKeepHostPathPV_def pv_anns_def
      hasAnnotation_put_other annotation_keys)
qed

end
