(* ===== verification/NodeMounts.thy ===== *)
theory NodeMounts
  imports HostPathPV
begin

text \<open>
  \<^verbatim>\<open>GetNodeHostPathPVMountInfo\<close> of \<^verbatim>\<open>pkg/algorithm/hostpathpv.go\<close>: which directories of a
  node are charged against its disks.  Every recorded directory is charged once, under its
  cleaned path; a running pod whose directory is not recorded yet is charged with the
  capacity of its volume under an empty path.  The loop invariant is \<open>charged\<close>.
\<close>

section \<open>The loops\<close>

text \<open>The record for a directory that has no path yet.\<close>

definition pending_mount :: "int64 \<Rightarrow> mount_info" where
  "pending_mount capacity = \<lparr>mi_host_path = [], mi_quota = capacity,
     mi_current_size = 0, mi_current_files = 0, mi_pod_info = None\<rparr>"

type_synonym charges = "(string, bool) gomap \<times> mount_info list"

text \<open>The inner loop over the mounts of one record: \<open>pathMap\<close> and the result's list.\<close>

fun record_mounts :: "mount_info list \<Rightarrow> charges \<Rightarrow> charges" where
  "record_mounts [] (pathMap, acc) = (pathMap, acc)"
| "record_mounts (m # ms) (pathMap, acc) =
     (let mp = path_clean (mi_host_path m)
      in case gget pathMap mp of
           None \<Rightarrow> record_mounts ms (gput mp True pathMap, acc @ [m])
         | Some _ \<Rightarrow> record_mounts ms (pathMap, acc))"

definition pending_mounts :: "pv \<Rightarrow> hp_mount_info \<Rightarrow> (string, bool) gomap \<Rightarrow> mount_info list" where
  "pending_mounts v info podMaps =
     (if IsSharedHostPathPV (Some v) then
        (if length (hm_mounts info) = 0 \<and> length podMaps > 0
         then [pending_mount (capacity_or_zero v)] else [])
      else if length podMaps > length (hm_mounts info)
        then replicate (length podMaps - length (hm_mounts info)) (pending_mount (capacity_or_zero v))
        else [])"

text \<open>The pods of the volume on the node, an error read as none.\<close>

definition used_pods_or_empty :: "pv \<Rightarrow> pod_lister \<Rightarrow> string \<Rightarrow> (string, bool) gomap" where
  "used_pods_or_empty v c nodeName =
     (case GetHostPathPVUsedPodMap v c nodeName of Inl _ \<Rightarrow> [] | Inr m \<Rightarrow> m)"

definition pv_charges :: "codec \<Rightarrow> string \<Rightarrow> pod_lister \<Rightarrow> pv \<Rightarrow> charges \<Rightarrow> error + charges" where
  "pv_charges cd nodeName c v st =
     (if IsCommonHostPathPV (Some v) then
        (case GetHostPathPVMountInfoList cd v of
           Inl err \<Rightarrow> Inl (PvMountInfoFailed (pv_name v) err)
         | Inr pvInfos \<Rightarrow>
             (case find_node pvInfos nodeName of
                None \<Rightarrow> Inr st
              | Some info \<Rightarrow>
                  (case record_mounts (hm_mounts info) st of
                     (pathMap, acc) \<Rightarrow>
                       Inr (pathMap, acc @ pending_mounts v info (used_pods_or_empty v c nodeName)))))
      else Inr st)"

fun pvs_charges :: "codec \<Rightarrow> string \<Rightarrow> pod_lister \<Rightarrow> pv list \<Rightarrow> charges \<Rightarrow> error + charges" where
  "pvs_charges cd nodeName c [] st = Inr st"
| "pvs_charges cd nodeName c (v # vs) st =
     (case pv_charges cd nodeName c v st of
        Inl err \<Rightarrow> Inl err
      | Inr st' \<Rightarrow> pvs_charges cd nodeName c vs st')"

definition GetNodeHostPathPVMountInfo ::
  "codec \<Rightarrow> string \<Rightarrow> pv_info \<Rightarrow> pod_lister \<Rightarrow> error + hp_mount_info" where
  "GetNodeHostPathPVMountInfo cd nodeName pvI c =
     (case pvi_list pvI of
        Inl err \<Rightarrow> Inl err
      | Inr pvs \<Rightarrow>
          (case pvs_charges cd nodeName c pvs ([], []) of
             Inl err \<Rightarrow> Inl err
           | Inr (pathMap, acc) \<Rightarrow> Inr \<lparr>hm_node = nodeName, hm_mounts = acc\<rparr>))"

text \<open>The record of a hostpath volume that a node's accounting reads.\<close>

definition node_record :: "codec \<Rightarrow> string \<Rightarrow> pv \<Rightarrow> hp_mount_info option" where
  "node_record cd n v =
     (if IsCommonHostPathPV (Some v)
      then (case GetHostPathPVMountInfoList cd v of Inl _ \<Rightarrow> None | Inr is \<Rightarrow> find_node is n)
      else None)"

lemma pv_charges_cases:
  assumes "pv_charges cd n c v st = Inr st'"
  obtains "node_record cd n v = None" and "st' = st"
  | info where "node_record cd n v = Some info"
    and "st' = (fst (record_mounts (hm_mounts info) st),
           snd (record_mounts (hm_mounts info) st) @
             pending_mounts v info (used_pods_or_empty v c n))"
  using assms
  by (auto simp: pv_charges_def node_record_def case_prod_beta
      split: if_splits sum.splits option.splits)

lemma pvs_charges_Cons:
  "pvs_charges cd n c (v # vs) st = Inr st' \<longleftrightarrow>
   (\<exists>st1. pv_charges cd n c v st = Inr st1 \<and> pvs_charges cd n c vs st1 = Inr st')"
  by (cases "pv_charges cd n c v st") auto

section \<open>The invariant\<close>

abbreviation mi_path :: "mount_info \<Rightarrow> string" where
  "mi_path m \<equiv> path_clean (mi_host_path m)"

abbreviation has_path :: "mount_info \<Rightarrow> bool" where
  "has_path m \<equiv> mi_host_path m \<noteq> []"

text \<open>
  The paths of the charged directories are distinct and are in \<open>pathMap\<close>, which holds
  nothing else than charged paths.
\<close>

definition charged :: "charges \<Rightarrow> bool" where
  "charged st \<longleftrightarrow>
     distinct (map mi_path (filter has_path (snd st))) \<and>
     (\<forall>m \<in> set (snd st). has_path m \<longrightarrow> mi_path m \<in> set (gkeys (fst st))) \<and>
     set (gkeys (fst st)) \<subseteq> mi_path ` set (snd st)"

lemma gkeys_put: "set (gkeys (gput k v m)) = insert k (set (gkeys m))"
  by (simp add: gkeys_def dom_update)

lemma gget_gkeys: "gget m k = None \<longleftrightarrow> k \<notin> set (gkeys m)"
  by (simp add: gkeys_def map_of_eq_None_iff)

lemma charged_empty: "charged ([], [])"
  by (simp add: charged_def gkeys_def)

lemma charged_add:
  assumes "charged (pm, acc)" and "gget pm (mi_path m) = None"
  shows "charged (gput (mi_path m) True pm, acc @ [m])"
  using assms by (fastforce simp: charged_def gkeys_put gget_gkeys)

lemma charged_pending:
  "charged (pm, acc) \<Longrightarrow> charged (pm, acc @ replicate n (pending_mount q))"
  by (auto simp: charged_def pending_mount_def)

lemma record_mounts_charged: "charged st \<Longrightarrow> charged (record_mounts ms st)"
  by (induction ms st rule: record_mounts.induct)
    (auto simp: Let_def charged_add split: option.splits)

lemma pending_mounts_replicate:
  "\<exists>n. pending_mounts v info pods = replicate n (pending_mount (capacity_or_zero v))"
  by (auto simp: pending_mounts_def intro: exI [of _ "Suc 0"] exI [of _ 0])

lemma pv_charges_charged:
  assumes "charged st" and "pv_charges cd n c v st = Inr st'"
  shows "charged st'"
  using assms(2)
proof (rule pv_charges_cases)
  fix info
  assume st': "st' = (fst (record_mounts (hm_mounts info) st),
      snd (record_mounts (hm_mounts info) st) @ pending_mounts v info (used_pods_or_empty v c n))"
  obtain k where "pending_mounts v info (used_pods_or_empty v c n) =
      replicate k (pending_mount (capacity_or_zero v))"
    using pending_mounts_replicate by metis
  with st' show ?thesis
    using record_mounts_charged [OF assms(1), of "hm_mounts info"]
    by (simp add: charged_pending)
qed (use assms in simp)

lemma pvs_charges_charged:
  "charged st \<Longrightarrow> pvs_charges cd n c vs st = Inr st' \<Longrightarrow> charged st'"
  by (induction vs arbitrary: st) (auto simp del: pvs_charges.simps(2) simp: pvs_charges_Cons
      dest: pv_charges_charged)

section \<open>What ends up charged\<close>

lemma record_mounts_grows:
  "set (snd st) \<subseteq> set (snd (record_mounts ms st)) \<and>
   set (gkeys (fst st)) \<subseteq> set (gkeys (fst (record_mounts ms st)))"
  by (induction ms st rule: record_mounts.induct)
    (auto simp: Let_def gkeys_put split: option.splits)

lemma record_mounts_covers:
  "m \<in> set ms \<Longrightarrow> mi_path m \<in> set (gkeys (fst (record_mounts ms st)))"
proof (induction ms st rule: record_mounts.induct)
  case (2 m' ms pathMap acc)
  show ?case
  proof (cases "m = m'")
    case True
    have "mi_path m \<in> set (gkeys (gput (mi_path m) True pathMap))"
      by (simp add: gkeys_put)
    then show ?thesis
      using True record_mounts_grows [of "(gput (mi_path m) True pathMap, acc @ [m])" ms]
        record_mounts_grows [of "(pathMap, acc)" ms] gget_gkeys [of pathMap "mi_path m"]
      by (auto simp: Let_def split: option.splits)
  next
    case False
    with 2 show ?thesis by (auto simp: Let_def split: option.splits)
  qed
qed simp

lemma record_mounts_sound:
  "set (snd (record_mounts ms st)) \<subseteq> set (snd st) \<union> set ms"
  by (induction ms st rule: record_mounts.induct) (auto simp: Let_def split: option.splits)

lemma pv_charges_grows:
  "pv_charges cd n c v st = Inr st' \<Longrightarrow>
   set (snd st) \<subseteq> set (snd st') \<and> set (gkeys (fst st)) \<subseteq> set (gkeys (fst st'))"
proof (erule pv_charges_cases)
  fix info
  assume "st' = (fst (record_mounts (hm_mounts info) st),
      snd (record_mounts (hm_mounts info) st) @ pending_mounts v info (used_pods_or_empty v c n))"
  then show ?thesis using record_mounts_grows [of st "hm_mounts info"] by auto
qed simp

lemma pvs_charges_grows:
  "pvs_charges cd n c vs st = Inr st' \<Longrightarrow>
   set (snd st) \<subseteq> set (snd st') \<and> set (gkeys (fst st)) \<subseteq> set (gkeys (fst st'))"
proof (induction vs arbitrary: st)
  case (Cons v vs)
  then obtain st1 where "pv_charges cd n c v st = Inr st1" and "pvs_charges cd n c vs st1 = Inr st'"
    by (auto simp only: pvs_charges_Cons)
  with Cons.IH [of st1] pv_charges_grows [of cd n c v st st1] show ?case by auto
qed simp

lemma pvs_charges_covers:
  assumes "pvs_charges cd n c vs st = Inr st'" and "v \<in> set vs"
    and "node_record cd n v = Some info" and "m \<in> set (hm_mounts info)"
  shows "mi_path m \<in> set (gkeys (fst st'))"
  using assms
proof (induction vs arbitrary: st)
  case (Cons w vs)
  from Cons.prems(1) obtain st1 where st1: "pv_charges cd n c w st = Inr st1"
    and rest: "pvs_charges cd n c vs st1 = Inr st'"
    by (auto simp only: pvs_charges_Cons)
  show ?case
  proof (cases "v = w")
    case True
    from st1 have "mi_path m \<in> set (gkeys (fst st1))"
      by (rule pv_charges_cases) (use True Cons.prems record_mounts_covers in auto)
    with pvs_charges_grows [OF rest] show ?thesis by blast
  next
    case False
    with Cons rest show ?thesis by simp
  qed
qed simp

lemma pvs_charges_pending:
  assumes "pvs_charges cd n c vs st = Inr st'" and "v \<in> set vs"
    and "node_record cd n v = Some info"
  shows "set (pending_mounts v info (used_pods_or_empty v c n)) \<subseteq> set (snd st')"
  using assms
proof (induction vs arbitrary: st)
  case (Cons w vs)
  from Cons.prems(1) obtain st1 where st1: "pv_charges cd n c w st = Inr st1"
    and rest: "pvs_charges cd n c vs st1 = Inr st'"
    by (auto simp only: pvs_charges_Cons)
  show ?case
  proof (cases "v = w")
    case True
    from st1 have "set (pending_mounts v info (used_pods_or_empty v c n)) \<subseteq> set (snd st1)"
      by (rule pv_charges_cases) (use True Cons.prems in auto)
    with pvs_charges_grows [OF rest] show ?thesis by blast
  next
    case False
    with Cons rest show ?thesis by simp
  qed
qed simp

lemma pvs_charges_sound:
  assumes "pvs_charges cd n c vs st = Inr st'" and "m \<in> set (snd st')"
  shows "m \<in> set (snd st) \<or> (\<exists>v \<in> set vs. \<exists>info. node_record cd n v = Some info \<and>
    (m \<in> set (hm_mounts info) \<or> m = pending_mount (capacity_or_zero v)))"
  using assms
proof (induction vs arbitrary: st)
  case (Cons w vs)
  from Cons.prems(1) obtain st1 where st1: "pv_charges cd n c w st = Inr st1"
    and rest: "pvs_charges cd n c vs st1 = Inr st'"
    by (auto simp only: pvs_charges_Cons)
  have "m \<in> set (snd st1) \<Longrightarrow> m \<in> set (snd st) \<or> (\<exists>info. node_record cd n w = Some info \<and>
      (m \<in> set (hm_mounts info) \<or> m = pending_mount (capacity_or_zero w)))"
  proof (rule pv_charges_cases [OF st1])
    fix info
    assume "m \<in> set (snd st1)" and "node_record cd n w = Some info"
      and "st1 = (fst (record_mounts (hm_mounts info) st), snd (record_mounts (hm_mounts info) st) @
        pending_mounts w info (used_pods_or_empty w c n))"
    moreover obtain k where "pending_mounts w info (used_pods_or_empty w c n) =
        replicate k (pending_mount (capacity_or_zero w))"
      using pending_mounts_replicate by metis
    ultimately show ?thesis
      using record_mounts_sound [of "hm_mounts info" st] by auto
  qed simp
  with Cons.IH [OF rest] Cons.prems(2) show ?case by auto
qed simp

end
