(* ===== verification/Samples.thy ===== *)
theory Samples
  imports NodeMounts
begin

text \<open>
  A small cluster on which the properties are evaluated: two nodes, one hostpath volume
  behind one claim, decoders for two kinds of annotation texts, and caches over lists.
\<close>

definition sample_mount :: "string \<Rightarrow> int64 \<Rightarrow> mount_info" where
  "sample_mount p q = \<lparr>mi_host_path = p, mi_quota = q, mi_current_size = 0,
     mi_current_files = 0, mi_pod_info = None\<rparr>"

definition sample_record :: "string \<Rightarrow> mount_info list \<Rightarrow> hp_mount_info" where
  "sample_record n ms = \<lparr>hm_node = n, hm_mounts = ms\<rparr>"

definition sample_disk :: "string \<Rightarrow> int64 \<Rightarrow> disk_quota_info" where
  "sample_disk p q = \<lparr>dq_mount_path = p, dq_allocable = q, dq_disabled = False\<rparr>"

definition sample_codec :: codec where
  "sample_codec = \<lparr>
     un_mounts = (\<lambda>s.
       if s = ''m1'' then Inr [sample_record ''n1'' [sample_mount ''/d1/a'' 4]]
       else if s = ''m2'' then Inr [sample_record ''n1'' [sample_mount ''/d1/a'' 4],
                                    sample_record ''n2'' [sample_mount ''/d1/a'' 4]]
       else Inl (External ''json'')),
     un_disks = (\<lambda>s.
       if s = ''k1'' then Inr [sample_disk ''/d1'' 10, sample_disk ''/d2'' 20]
       else Inl (External ''json''))\<rparr>"

definition sample_pv :: "(string, string) gomap \<Rightarrow> int64 \<Rightarrow> pv" where
  "sample_pv anns cap = \<lparr>pv_name = ''pv1'', pv_annotations = Some anns,
     pv_host_path = Some ''/data'', pv_csi_driver = None,
     pv_claim_ref = Some \<lparr>ref_namespace = ''ns'', ref_name = ''c1''\<rparr>,
     pv_capacity = [(''storage'', cap)]\<rparr>"

definition sample_vol :: volume where
  "sample_vol = \<lparr>vol_claim = Some ''c1''\<rparr>"

definition sample_pod :: "string \<Rightarrow> string \<Rightarrow> pod" where
  "sample_pod n host = \<lparr>pod_namespace = ''ns'', pod_name = n, pod_deletion = False,
     pod_phase = ''Running'', pod_node = host, pod_volumes = [sample_vol]\<rparr>"

definition sample_node :: "string \<Rightarrow> node" where
  "sample_node n = \<lparr>node_name = n, node_labels = [],
     node_annotations = Some [(NodeDiskQuotaInfoAnn, ''k1'')]\<rparr>"

definition sample_caches :: "pv \<Rightarrow> pod list \<Rightarrow> informers" where
  "sample_caches v pods = \<lparr>
     pvInfo = \<lparr>pvi_get = (\<lambda>n. if n = pv_name v then Inr (Some v) else Inl (External ''not found'')),
               pvi_list = Inr [v]\<rparr>,
     pvcInfo = (\<lambda>ns n. if ns = ''ns'' \<and> n = ''c1''
                       then Inr (Some \<lparr>pvc_phase = ''Bound'', pvc_volume = ''pv1''\<rparr>)
                       else Inl (External ''not found'')),
     podInfo = \<lparr>pl_list = Inr pods, pl_get = (\<lambda>_ _. Inl (External ''not found''))\<rparr>\<rparr>"

definition sample_api :: "string \<Rightarrow> string \<Rightarrow> error + pod" where
  "sample_api ns n = Inl (External ''not found'')"

lemma sample_node_name [simp]: "node_name (sample_node n) = n"
  by (simp add: sample_node_def)

lemmas sample_defs = sample_mount_def sample_record_def sample_disk_def sample_codec_def
  sample_pv_def sample_vol_def sample_pod_def sample_node_def sample_caches_def sample_api_def

lemmas eval_defs = sample_defs kind_defs annotation_keys hasAnnotation_def pv_anns_def
  ann_get_def gget_str_def GetHostPathPVMountInfoList_def GetPodVolumePV_def ClaimBound_def
  isPodReady_def PodSucceeded_def PodFailed_def ResourceStorage_def
  word_sless_ival word_sle_ival

end
