(* ===== verification/DiskPressure.thy ===== *)
theory DiskPressure
  imports PredicatePlugin Samples
begin

text \<open>
  \<^verbatim>\<open>pkg/algorithm/predicate/hostpathpv_disk_pressure.go\<close>: a node fits when the directories
  the pod would need there fit on its quota disks.  Sizes are int64 with wrap-around;
  sorting is Go's \<^verbatim>\<open>sort.Sort\<close>, an instance of the locale \<open>sorter\<close>.
\<close>

section \<open>Disks and sorting\<close>

record DiskInfo =
  di_path :: string
  di_size :: int64
  di_disabled :: bool

text \<open>\<^verbatim>\<open>DiskInfoList.Less\<close>\<close>

definition disk_less :: "DiskInfo \<Rightarrow> DiskInfo \<Rightarrow> bool" where
  "disk_less a b =
     (if di_size a \<noteq> di_size b then di_size a <s di_size b else di_path a < di_path b)"

definition disk_key :: "DiskInfo \<Rightarrow> int \<times> string" where
  "disk_key d = (ival (di_size d), di_path d)"

lemma disk_less_key: "disk_less a b \<longleftrightarrow> disk_key a < disk_key b"
proof (cases "di_size a = di_size b")
  case False
  then have "ival (di_size a) \<noteq> ival (di_size b)" by (simp add: ival_inject)
  with False show ?thesis by (auto simp: disk_less_def disk_key_def word_sless_ival)
qed (simp add: disk_less_def disk_key_def)

definition sort_disks :: "DiskInfo list \<Rightarrow> DiskInfo list" where
  "sort_disks ds = sort_key disk_key ds"

interpretation ds: sorter disk_less disk_key sort_disks
proof unfold_locales
  fix a b :: DiskInfo and xs :: "DiskInfo list"
  show "disk_less a b \<longleftrightarrow> disk_key a < disk_key b" by (rule disk_less_key)
  show "mset (sort_disks xs) = mset xs" by (simp add: sort_disks_def)
  have "sorted (map disk_key (sort_disks xs))" by (simp add: sort_disks_def)
  then show "sorted_wrt (\<lambda>a b. \<not> disk_less b a) (sort_disks xs)"
    by (simp add: disk_less_key not_less sorted_wrt_map)
qed

section \<open>The pod's request\<close>

definition pressureName :: string where
  "pressureName = ''hostpathpvdiskpressure''"

text \<open>The loop over the pod's volumes with \<^verbatim>\<open>totalSize\<close>, \<^verbatim>\<open>list\<close> and \<^verbatim>\<open>hasHostpathPV\<close>.\<close>

fun pod_disks_loop ::
  "codec \<Rightarrow> informers \<Rightarrow> pod \<Rightarrow> string \<Rightarrow> nat \<Rightarrow> volume list \<Rightarrow> int64 \<times> DiskInfo list \<times> bool \<Rightarrow>
   error + int64 \<times> DiskInfo list \<times> bool" where
  "pod_disks_loop cd ca pd nodename i [] st = Inr st"
| "pod_disks_loop cd ca pd nodename i (podVolume # vols) (totalSize, list, hasHostpathPV) =
     (case GetPodVolumePV pd podVolume (pvInfo ca) (pvcInfo ca) of
        Inl err \<Rightarrow> Inl (PodVolumeFailed (pod_namespace pd) (pod_name pd) i err)
      | Inr None \<Rightarrow> pod_disks_loop cd ca pd nodename (Suc i) vols (totalSize, list, hasHostpathPV)
      | Inr (Some v) \<Rightarrow>
          if IsCommonHostPathPV (Some v) = False
          then pod_disks_loop cd ca pd nodename (Suc i) vols (totalSize, list, hasHostpathPV)
          else (case IsHostPathPVHasEmptyItemForNode cd v nodename (podInfo ca) of
                  Inl err \<Rightarrow> Inl err
                | Inr ok \<Rightarrow>
                    if ok then pod_disks_loop cd ca pd nodename (Suc i) vols (totalSize, list, True)
                    else pod_disks_loop cd ca pd nodename (Suc i) vols
                      (totalSize + capacity_or_zero v,
                       list @ [\<lparr>di_path = [], di_size = capacity_or_zero v, di_disabled = False\<rparr>],
                       True)))"

definition getPodHostpathOfNodeDiskInfos ::
  "codec \<Rightarrow> informers \<Rightarrow> pod \<Rightarrow> string \<Rightarrow> error + int64 \<times> DiskInfo list \<times> bool" where
  "getPodHostpathOfNodeDiskInfos cd ca pd nodename =
     (case pod_disks_loop cd ca pd nodename 0 (pod_volumes pd) (0, [], False) of
        Inl err \<Rightarrow> Inl err
      | Inr (totalSize, list, hasHostpathPV) \<Rightarrow> Inr (totalSize, sort_disks list, hasHostpathPV))"

section \<open>The node's disks\<close>

text \<open>
  One mount record charged against the disks: the first disk whose path is a prefix of the
  directory's; a record without a path is charged against every disk it is compared with.
\<close>

fun charge_disks :: "mount_info \<Rightarrow> DiskInfo list \<Rightarrow> DiskInfo list" where
  "charge_disks mi [] = []"
| "charge_disks mi (d # ds) =
     (if has_prefix (mi_host_path mi) (di_path d) then d\<lparr>di_size := di_size d - mi_quota mi\<rparr> # ds
      else if mi_host_path mi = [] then d\<lparr>di_size := di_size d - mi_quota mi\<rparr> # charge_disks mi ds
      else d # charge_disks mi ds)"

definition clamp_disk :: "DiskInfo \<Rightarrow> DiskInfo" where
  "clamp_disk d = (if di_size d <s 0 then d\<lparr>di_size := 0\<rparr> else d)"

definition disk_of_info :: "disk_quota_info \<Rightarrow> DiskInfo" where
  "disk_of_info info = \<lparr>di_path = dq_mount_path info, di_size = dq_allocable info,
     di_disabled = dq_disabled info\<rparr>"

definition getNodeDiskInfos :: "codec \<Rightarrow> informers \<Rightarrow> node \<Rightarrow> error + int64 \<times> DiskInfo list" where
  "getNodeDiskInfos cd ca nd =
     (case GetNodeDiskInfo cd nd of
        Inl err \<Rightarrow> Inl err
      | Inr diskInfos \<Rightarrow>
          if length diskInfos = 0 then Inr (0, [])
          else (case GetNodeHostPathPVMountInfo cd (node_name nd) (pvInfo ca) (podInfo ca) of
                  Inl err \<Rightarrow> Inl err
                | Inr nodeMountInfo \<Rightarrow>
                    (let ret = map disk_of_info diskInfos;
                         ret = fold charge_disks (hm_mounts nodeMountInfo) ret;
                         ret = map clamp_disk ret;
                         allocableSize = fold (\<lambda>d a. a + di_size d) ret 0
                     in Inr (allocableSize, sort_disks ret))))"

section \<open>Matching requests with disks\<close>

text \<open>
  The loop with the two indices \<open>ir\<close> and \<open>ih\<close>: the lists are what is left of the request and
  of the disks.  The second result is \<open>haveNow\<close> as the loop leaves it.
\<close>

function canRequestMatch :: "DiskInfo list \<Rightarrow> DiskInfo list \<Rightarrow> bool \<times> DiskInfo list" where
  "canRequestMatch [] haveNow = (True, haveNow)"
| "canRequestMatch (r # rs) [] = (False, [])"
| "canRequestMatch (r # rs) (h # hs) =
     (if di_size r \<le>s di_size h
      then canRequestMatch rs (h\<lparr>di_size := di_size h - di_size r\<rparr> # hs)
      else (case canRequestMatch (r # rs) hs of (b, hs') \<Rightarrow> (b, h # hs')))"
  by pat_completeness auto
termination
  by (relation "measure (\<lambda>(rs, hs). length rs + length hs)") auto

definition disk_text :: "DiskInfo \<Rightarrow> string \<times> int64 \<times> bool" where
  "disk_text d = (di_path d, di_size d, di_disabled d)"

definition pressure_PodMatchNode :: "codec \<Rightarrow> informers \<Rightarrow> pod \<Rightarrow> node \<Rightarrow> error + bool" where
  "pressure_PodMatchNode cd ca pd nd =
     (case getPodHostpathOfNodeDiskInfos cd ca pd (node_name nd) of
        Inl errPod \<Rightarrow> Inl (newPredicateError pressureName (NodePodDiskInfos (node_name nd) errPod))
      | Inr (podRequestSize, podRequestList, hasHostpathPV) \<Rightarrow>
          if hasHostpathPV = False then Inr True
          else if podRequestSize = 0 \<or> length podRequestList = 0 then Inr True
          else (case getNodeDiskInfos cd ca nd of
                  Inl errNode \<Rightarrow> Inl (newPredicateError pressureName (NodeDiskInfos (node_name nd) errNode))
                | Inr (nodeAllocableSize, diskInfo) \<Rightarrow>
                    if nodeAllocableSize <s podRequestSize then
                      if nodeAllocableSize \<le>s 0 then Inr False
                      else Inl (newPredicateError pressureName
                             (NodeRequestTooBig (node_name nd) podRequestSize nodeAllocableSize))
                    else (case canRequestMatch podRequestList diskInfo of
                            (ok, haveNow) \<Rightarrow>
                              if ok = False then
                                Inl (newPredicateError pressureName
                                  (NodeRequestNotMatched (node_name nd) (map disk_text podRequestList)
                                    (map disk_text haveNow)))
                              else Inr True)))"

section \<open>What a match means\<close>

text \<open>
  An assignment of the requests to disks by index, and the load it puts on a disk.  The
  requests fit when some assignment loads no disk beyond its size.
\<close>

fun disk_load :: "nat list \<Rightarrow> int list \<Rightarrow> nat \<Rightarrow> int" where
  "disk_load (a # as) (r # rs) j = (if a = j then r else 0) + disk_load as rs j"
| "disk_load _ _ j = 0"

definition assignment_ok :: "nat list \<Rightarrow> int list \<Rightarrow> int list \<Rightarrow> bool" where
  "assignment_ok as rs hs \<longleftrightarrow>
     length as = length rs \<and> (\<forall>a \<in> set as. a < length hs) \<and>
     (\<forall>j < length hs. disk_load as rs j \<le> hs ! j)"

definition fits :: "int list \<Rightarrow> int list \<Rightarrow> bool" where
  "fits rs hs \<longleftrightarrow> (\<exists>as. assignment_ok as rs hs)"

definition sizes :: "DiskInfo list \<Rightarrow> int list" where
  "sizes ds = map (\<lambda>d. ival (di_size d)) ds"

lemma sizes_simps [simp]:
  "sizes [] = []" "sizes (d # ds) = ival (di_size d) # sizes ds" "length (sizes ds) = length ds"
  by (simp_all add: sizes_def)

lemma disk_load_shift: "disk_load (map Suc as) rs (Suc j) = disk_load as rs j"
  by (induction as rs j rule: disk_load.induct) auto

lemma disk_load_shift_0: "disk_load (map Suc as) rs 0 = 0"
  by (induction as rs "0 :: nat" rule: disk_load.induct) auto

lemma fits_Nil: "\<forall>h \<in> set hs. 0 \<le> h \<Longrightarrow> fits [] hs"
  by (auto simp: fits_def assignment_ok_def intro: exI [of _ "[]"])

lemma fits_here:
  assumes "fits rs ((h - r) # hs)"
  shows "fits (r # rs) (h # hs)"
proof -
  from assms obtain as where as: "assignment_ok as rs ((h - r) # hs)"
    by (auto simp: fits_def)
  have "disk_load (0 # as) (r # rs) j \<le> (h # hs) ! j" if "j < length (h # hs)" for j
    using as that by (cases j) (auto simp: assignment_ok_def)
  with as show ?thesis
    unfolding fits_def by (intro exI [of _ "0 # as"]) (auto simp: assignment_ok_def)
qed

lemma fits_later:
  assumes "fits rs hs" and "0 \<le> h"
  shows "fits rs (h # hs)"
proof -
  from assms obtain as where as: "assignment_ok as rs hs" by (auto simp: fits_def)
  have "disk_load (map Suc as) rs j \<le> (h # hs) ! j" if "j < length (h # hs)" for j
    using as that assms(2)
    by (cases j) (auto simp: assignment_ok_def disk_load_shift disk_load_shift_0)
  with as show ?thesis
    unfolding fits_def by (intro exI [of _ "map Suc as"]) (auto simp: assignment_ok_def)
qed

text \<open>A request that is taken from a disk leaves a size that is the integer difference.\<close>

lemma ival_take:
  assumes "0 \<le> ival r" and "ival r \<le> ival h"
  shows "ival (h - r) = ival h - ival r"
  using assms ival_upper [of h] by (intro ival_diff) linarith+

lemma canRequestMatch_sound:
  "fst (canRequestMatch rs hs) \<Longrightarrow> \<forall>x \<in> set (sizes rs @ sizes hs). 0 \<le> x \<Longrightarrow>
   fits (sizes rs) (sizes hs)"
proof (induction rs hs rule: canRequestMatch.induct)
  case (1 hs)
  then show ?case by (simp add: fits_Nil)
next
  case (3 r rs h hs)
  show ?case
  proof (cases "di_size r \<le>s di_size h")
    case True
    then have take: "ival (di_size h - di_size r) = ival (di_size h) - ival (di_size r)"
      using 3 by (simp add: word_sle_ival ival_take)
    with True 3 have "fits (sizes rs) (sizes (h\<lparr>di_size := di_size h - di_size r\<rparr> # hs))"
      by (simp add: word_sle_ival)
    with take show ?thesis by (simp add: fits_here)
  next
    case False
    with 3 have "fits (sizes (r # rs)) (sizes hs)"
      by (auto split: prod.splits)
    with 3 show ?thesis by (simp add: fits_later)
  qed
qed simp

text \<open>An assignment never places more than there is room in total.\<close>

lemma sum_disk_load:
  "length as = length rs \<Longrightarrow> \<forall>a \<in> set as. a < n \<Longrightarrow> (\<Sum>j<n. disk_load as rs j) = sum_list rs"
proof (induction as arbitrary: rs)
  case (Cons a as)
  then obtain r rs' where rs: "rs = r # rs'" and len: "length as = length rs'"
    by (cases rs) auto
  have "(\<Sum>j<n. disk_load (a # as) rs j) = (\<Sum>j<n. if a = j then r else 0) + (\<Sum>j<n. disk_load as rs' j)"
    by (simp add: rs sum.distrib)
  also have "(\<Sum>j<n. if a = j then r else 0) = r"
    using Cons.prems(2) by simp
  finally show ?case using Cons.IH [OF len] Cons.prems(2) by (simp add: rs)
qed simp

lemma fits_total: "fits rs hs \<Longrightarrow> sum_list rs \<le> sum_list hs"
proof -
  assume "fits rs hs"
  then obtain as where as: "assignment_ok as rs hs" by (auto simp: fits_def)
  then have "sum_list rs = (\<Sum>j<length hs. disk_load as rs j)"
    by (simp add: assignment_ok_def sum_disk_load)
  also have "\<dots> \<le> (\<Sum>j<length hs. hs ! j)"
    using as by (intro sum_mono) (simp add: assignment_ok_def)
  also have "\<dots> = sum_list hs"
    by (simp add: sum_list_sum_nth atLeast0LessThan)
  finally show ?thesis .
qed

lemma canRequestMatch_single:
  "fst (canRequestMatch [r] hs) \<longleftrightarrow> (\<exists>h \<in> set hs. ival (di_size r) \<le> ival (di_size h))"
  by (induction hs) (auto simp: word_sle_ival split: prod.splits)

lemma canRequestMatch_one_disk:
  "\<forall>x \<in> set (sizes rs). 0 \<le> x \<Longrightarrow> 0 \<le> ival (di_size h) \<Longrightarrow>
   fst (canRequestMatch rs [h]) \<longleftrightarrow> sum_list (sizes rs) \<le> ival (di_size h)"
proof (induction rs arbitrary: h)
  case (Cons r rs)
  have tail: "0 \<le> sum_list (sizes rs)"
    using Cons.prems(1) by (intro sum_list_nonneg) simp
  show ?case
  proof (cases "di_size r \<le>s di_size h")
    case True
    then have "ival (di_size h - di_size r) = ival (di_size h) - ival (di_size r)"
      using Cons.prems by (simp add: word_sle_ival ival_take)
    with True Cons.IH [of "h\<lparr>di_size := di_size h - di_size r\<rparr>"] Cons.prems show ?thesis
      by (auto simp: word_sle_ival)
  next
    case False
    with tail show ?thesis by (auto simp: word_sle_ival)
  qed
qed simp

section \<open>Only the sizes count\<close>

lemma canRequestMatch_sizes:
  "map di_size rs = map di_size rs' \<Longrightarrow> map di_size hs = map di_size hs' \<Longrightarrow>
   fst (canRequestMatch rs hs) = fst (canRequestMatch rs' hs')"
proof (induction rs hs arbitrary: rs' hs' rule: canRequestMatch.induct)
  case (3 r rs h hs)
  from "3.prems"(1) obtain r' rr where rs': "rs' = r' # rr" "di_size r' = di_size r"
    "map di_size rs = map di_size rr"
    by (cases rs') auto
  from "3.prems"(2) obtain h' hh where hs': "hs' = h' # hh" "di_size h' = di_size h"
    "map di_size hs = map di_size hh"
    by (cases hs') auto
  show ?case
  proof (cases "di_size r \<le>s di_size h")
    case True
    with "3.IH"(1) [OF True, of rr "h'\<lparr>di_size := di_size h' - di_size r'\<rparr> # hh"] rs' hs'
    show ?thesis by simp
  next
    case False
    with "3.IH"(2) [OF False, of "r' # rr" hh] rs' hs' show ?thesis
      by (simp add: case_prod_beta)
  qed
qed (auto simp: Cons_eq_map_conv)

section \<open>Accounting\<close>

text \<open>
  Which disk (by index into the disks' paths) a mount record is charged to: every disk up to
  one with an empty path when the record has no path, else the first whose path is a prefix.
\<close>

definition hits :: "mount_info \<Rightarrow> string list \<Rightarrow> nat \<Rightarrow> bool" where
  "hits mi ps i \<longleftrightarrow>
     (if mi_host_path mi = [] then (\<forall>j < i. ps ! j \<noteq> [])
      else has_prefix (mi_host_path mi) (ps ! i) \<and> (\<forall>j < i. \<not> has_prefix (mi_host_path mi) (ps ! j)))"

lemma has_prefix_Nil: "has_prefix [] p \<longleftrightarrow> p = []"
  by (cases p) simp_all

lemma hits_0 [simp]:
  "hits mi (p # ps) 0 \<longleftrightarrow> mi_host_path mi = [] \<or> has_prefix (mi_host_path mi) p"
  by (simp add: hits_def)

lemma hits_Suc [simp]:
  "hits mi (p # ps) (Suc i) \<longleftrightarrow> \<not> has_prefix (mi_host_path mi) p \<and> hits mi ps i"
  by (auto simp: hits_def has_prefix_Nil less_Suc_eq_0_disj nth_Cons')

lemma charge_disks_paths [simp]: "map di_path (charge_disks mi ds) = map di_path ds"
  by (induction mi ds rule: charge_disks.induct) auto

lemma charge_disks_length [simp]: "length (charge_disks mi ds) = length ds"
  by (induction mi ds rule: charge_disks.induct) auto

lemma charge_disks_nth:
  "i < length ds \<Longrightarrow> di_size (charge_disks mi ds ! i) =
     (if hits mi (map di_path ds) i then di_size (ds ! i) - mi_quota mi else di_size (ds ! i))"
  by (induction mi ds arbitrary: i rule: charge_disks.induct)
    (auto simp: nth_Cons' less_Suc_eq_0_disj)

lemma fold_charge_length [simp]: "length (fold charge_disks ms ds) = length ds"
  by (induction ms arbitrary: ds) auto

lemma fold_charge_paths [simp]: "map di_path (fold charge_disks ms ds) = map di_path ds"
  by (induction ms arbitrary: ds) auto

lemma fold_charge_nth:
  "i < length ds \<Longrightarrow> di_size (fold charge_disks ms ds ! i) =
     di_size (ds ! i) - wsum (map mi_quota (filter (\<lambda>m. hits m (map di_path ds) i) ms))"
proof (induction ms arbitrary: ds)
  case (Cons m ms)
  then show ?case
    using Cons.IH [of "charge_disks m ds"] by (simp add: charge_disks_nth)
qed simp

text \<open>A record with a path is charged to one disk at most.\<close>

lemma hits_unique: "mi_host_path m \<noteq> [] \<Longrightarrow> hits m ps i \<Longrightarrow> hits m ps j \<Longrightarrow> i = j"
  by (metis hits_def linorder_neqE_nat)

lemma clamp_disk_nonneg: "0 \<le> ival (di_size (clamp_disk d))"
  by (auto simp: clamp_disk_def word_sless_ival)

lemma sizes_sort: "mset (sizes (sort_disks ds)) = mset (sizes ds)"
  by (simp add: sizes_def ds.srt_perm)

lemma sizes_set_sort: "set (sizes (sort_disks ds)) = set (sizes ds)"
  using sizes_sort [of ds] by (metis set_mset_mset)

lemma getNodeDiskInfos_cases:
  assumes "getNodeDiskInfos cd ca nd = Inr (alloc, ds)"
  obtains "GetNodeDiskInfo cd nd = Inr []" and "alloc = 0" and "ds = []"
  | infos nmi ret where "GetNodeDiskInfo cd nd = Inr infos" and "infos \<noteq> []"
    and "GetNodeHostPathPVMountInfo cd (node_name nd) (pvInfo ca) (podInfo ca) = Inr nmi"
    and "ret = map clamp_disk (fold charge_disks (hm_mounts nmi) (map disk_of_info infos))"
    and "alloc = wsum (map di_size ret)" and "ds = sort_disks ret"
  using assms
  by (auto simp: getNodeDiskInfos_def Let_def fold_plus_wsum split: sum.splits if_splits)

lemma node_disks_nonneg:
  "getNodeDiskInfos cd ca nd = Inr (alloc, ds) \<Longrightarrow> \<forall>x \<in> set (sizes ds). 0 \<le> x"
  by (erule getNodeDiskInfos_cases) (auto simp: sizes_def ds.srt_set clamp_disk_nonneg)

text \<open>The pod's request is the machine sum of its list.\<close>

lemma wsum_append: "wsum (xs @ ys) = wsum xs + wsum ys"
  by (induction xs) (simp_all add: algebra_simps)

lemma pod_disks_loop_sum:
  "pod_disks_loop cd ca pd n i vs st = Inr (t, l, h) \<Longrightarrow> fst st = wsum (map di_size (fst (snd st))) \<Longrightarrow>
   t = wsum (map di_size l)"
proof (induction cd ca pd n i vs st rule: pod_disks_loop.induct)
  case (2 cd ca pd n i v vs tot list has)
  then show ?case
    by (auto simp: wsum_append split: sum.splits option.splits if_splits)
qed auto

lemma wsum_mset: "mset xs = mset ys \<Longrightarrow> wsum xs = wsum ys"
proof -
  have "wsum zs = sum_mset (mset zs)" for zs
    by (induction zs) simp_all
  then show "mset xs = mset ys \<Longrightarrow> wsum xs = wsum ys" by simp
qed

lemma pod_request_sum:
  assumes "getPodHostpathOfNodeDiskInfos cd ca pd n = Inr (tot, req, has)"
  shows "tot = wsum (map di_size req)"
proof -
  from assms obtain l where l: "pod_disks_loop cd ca pd n 0 (pod_volumes pd) (0, [], False) = Inr (tot, l, has)"
    and req: "req = sort_disks l"
    by (auto simp: getPodHostpathOfNodeDiskInfos_def split: sum.splits)
  have "tot = wsum (map di_size l)"
    using pod_disks_loop_sum [OF l] by simp
  also have "\<dots> = wsum (map di_size req)"
    by (rule wsum_mset) (simp add: req ds.srt_perm)
  finally show ?thesis .
qed

lemma ival_wsum_sizes:
  assumes "\<forall>x \<in> set (sizes ds). 0 \<le> x" and "sum_list (sizes ds) < 2 ^ 63"
  shows "ival (wsum (map di_size ds)) = sum_list (sizes ds)"
  using ival_wsum [of "map di_size ds"] assms by (simp add: sizes_def comp_def)

lemma node_alloc_sum:
  assumes "getNodeDiskInfos cd ca nd = Inr (alloc, ds)"
  shows "alloc = wsum (map di_size ds)"
  using assms
proof (rule getNodeDiskInfos_cases)
  fix ret
  assume "alloc = wsum (map di_size ret)" and "ds = sort_disks ret"
  moreover have "wsum (map di_size ret) = wsum (map di_size (sort_disks ret))"
    by (rule wsum_mset) (simp add: ds.srt_perm)
  ultimately show ?thesis by simp
qed simp

lemma pod_disks_loop_flag:
  "pod_disks_loop cd ca pd n i vs st = Inr (t, l, h) \<Longrightarrow> snd (snd st) \<or> fst (snd st) = [] \<Longrightarrow> h \<or> l = []"
  by (induction cd ca pd n i vs st rule: pod_disks_loop.induct)
    (auto split: sum.splits option.splits if_splits)

lemma pod_request_flag:
  assumes "getPodHostpathOfNodeDiskInfos cd ca pd n = Inr (tot, req, has)"
  shows "has \<or> req = []"
  using assms pod_disks_loop_flag [of cd ca pd n 0 "pod_volumes pd" "(0, [], False)"]
  by (auto simp: getPodHostpathOfNodeDiskInfos_def sort_disks_def split: sum.splits)

lemma sum_sizes_nonneg: "\<forall>x \<in> set (sizes ds). 0 \<le> x \<Longrightarrow> 0 \<le> sum_list (sizes ds)"
  by (intro sum_list_nonneg) simp

text \<open>
  Under a request without overflow the verdict is the greedy match, after the comparison of
  the totals.
\<close>

lemma pressure_verdict:
  assumes "getPodHostpathOfNodeDiskInfos cd ca pd (node_name nd) = Inr (tot, req, has)"
    and "getNodeDiskInfos cd ca nd = Inr (alloc, disks)"
    and "\<forall>x \<in> set (sizes req). 0 \<le> x" and "0 < sum_list (sizes req)"
    and "sum_list (sizes req) < 2 ^ 63"
  shows "pressure_PodMatchNode cd ca pd nd = Inr True \<longleftrightarrow>
    \<not> alloc <s tot \<and> fst (canRequestMatch req disks)"
proof -
  have tot: "ival tot = sum_list (sizes req)"
    using pod_request_sum [OF assms(1)] ival_wsum_sizes assms(3,5) by simp
  with assms(4) have "tot \<noteq> 0" and "req \<noteq> []" by auto
  with pod_request_flag [OF assms(1)] have "has" by simp
  with \<open>tot \<noteq> 0\<close> \<open>req \<noteq> []\<close> show ?thesis
    using assms(1,2) by (auto simp: pressure_PodMatchNode_def split: prod.splits)
qed

lemma pod_disks_loop_no_claims:
  "\<forall>v \<in> set vs. vol_claim v = None \<Longrightarrow> pod_disks_loop cd ca pd n i vs st = Inr st"
  by (induction cd ca pd n i vs st rule: pod_disks_loop.induct) (auto simp: GetPodVolumePV_def)

interpretation pressure: volume_predicate "pressure_PodMatchNode cd ca" for cd ca
proof unfold_locales
  fix q :: pod and nd :: node
  assume "no_claims q"
  then show "pressure_PodMatchNode cd ca q nd = Inr True"
    by (simp add: pressure_PodMatchNode_def getPodHostpathOfNodeDiskInfos_def no_claims_def
        pod_disks_loop_no_claims)
qed

section \<open>The disabled flag\<close>

text \<open>The same decoder with other values of \<open>Disabled\<close>.\<close>

definition relabel :: "(disk_quota_info \<Rightarrow> bool) \<Rightarrow> codec \<Rightarrow> codec" where
  "relabel f cd = cd\<lparr>un_disks := \<lambda>t. map_sum id (map (\<lambda>d. d\<lparr>dq_disabled := f d\<rparr>)) (un_disks cd t)\<rparr>"

lemma relabel_mounts [simp]: "un_mounts (relabel f cd) = un_mounts cd"
  by (simp add: relabel_def)

lemma relabel_mount_list [simp]: "GetHostPathPVMountInfoList (relabel f cd) = GetHostPathPVMountInfoList cd"
proof
  fix v show "GetHostPathPVMountInfoList (relabel f cd) v = GetHostPathPVMountInfoList cd v"
    unfolding GetHostPathPVMountInfoList_def relabel_mounts ..
qed

lemma relabel_empty_item [simp]:
  "IsHostPathPVHasEmptyItemForNode (relabel f cd) = IsHostPathPVHasEmptyItemForNode cd"
  unfolding IsHostPathPVHasEmptyItemForNode_def IsHostPathPVMountOnNode_def relabel_mount_list ..

lemma relabel_pod_loop [simp]:
  "pod_disks_loop (relabel f cd) ca pd n i vs st = pod_disks_loop cd ca pd n i vs st"
proof (induction vs arbitrary: i st)
  case (Cons v vs)
  then show ?case by (cases st) (simp split: sum.split option.split)
qed simp

lemma relabel_pod [simp]:
  "getPodHostpathOfNodeDiskInfos (relabel f cd) = getPodHostpathOfNodeDiskInfos cd"
  unfolding getPodHostpathOfNodeDiskInfos_def relabel_pod_loop ..

lemma relabel_charges [simp]: "pvs_charges (relabel f cd) n c vs st = pvs_charges cd n c vs st"
  by (induction vs arbitrary: st) (simp_all add: pv_charges_def cong: sum.case_cong)

lemma relabel_node_mounts [simp]:
  "GetNodeHostPathPVMountInfo (relabel f cd) = GetNodeHostPathPVMountInfo cd"
  unfolding GetNodeHostPathPVMountInfo_def relabel_charges ..

lemma relabel_disk_info:
  "GetNodeDiskInfo (relabel f cd) nd =
     map_sum id (map (\<lambda>d. d\<lparr>dq_disabled := f d\<rparr>)) (GetNodeDiskInfo cd nd)"
  by (simp add: GetNodeDiskInfo_def relabel_def split: sum.split)

lemma charge_disks_keys:
  "map disk_key ds = map disk_key ds' \<Longrightarrow>
   map disk_key (charge_disks m ds) = map disk_key (charge_disks m ds')"
proof (induction m ds arbitrary: ds' rule: charge_disks.induct)
  case (2 mi d ds)
  then obtain d' dr where ds': "ds' = d' # dr" and d': "disk_key d = disk_key d'"
    and tl: "map disk_key ds = map disk_key dr"
    by (cases ds') auto
  from d' have "di_path d = di_path d'" and "di_size d = di_size d'"
    by (simp_all add: disk_key_def ival_inject)
  with 2 tl d' show ?case by (simp add: ds') (simp add: disk_key_def)
qed simp

lemma fold_charge_keys:
  "map disk_key ds = map disk_key ds' \<Longrightarrow>
   map disk_key (fold charge_disks ms ds) = map disk_key (fold charge_disks ms ds')"
proof (induction ms arbitrary: ds ds')
  case (Cons m ms)
  show ?case unfolding fold_simps(2) by (rule Cons.IH) (rule charge_disks_keys [OF Cons.prems])
qed simp

lemma clamp_keys:
  assumes "map disk_key ds = map disk_key ds'"
  shows "map disk_key (map clamp_disk ds) = map disk_key (map clamp_disk ds')"
proof -
  have "disk_key (clamp_disk d) = (if fst (disk_key d) < 0 then (0, snd (disk_key d)) else disk_key d)" for d
    by (simp add: disk_key_def clamp_disk_def word_sless_ival)
  then have clamp: "map disk_key (map clamp_disk xs) =
      map (\<lambda>k. if fst k < 0 then (0, snd k) else k) (map disk_key xs)" for xs
    by simp
  show ?thesis unfolding clamp assms ..
qed

lemma size_of_key: "map di_size xs = map (\<lambda>k. word_of_int (fst k)) (map disk_key xs)"
  by (simp add: disk_key_def)

lemma keys_sizes: "map disk_key ds = map disk_key ds' \<Longrightarrow> map di_size ds = map di_size ds'"
  by (simp only: size_of_key)

lemma sort_keys: "map disk_key ds = map disk_key ds' \<Longrightarrow>
    map disk_key (sort_disks ds) = map disk_key (sort_disks ds')"
  by (simp add: ds.srt_keys)

lemma relabel_node_disks:
  "(\<exists>e. getNodeDiskInfos cd ca nd = Inl e \<and> getNodeDiskInfos (relabel f cd) ca nd = Inl e) \<or>
   (\<exists>alloc ds ds'. getNodeDiskInfos cd ca nd = Inr (alloc, ds) \<and>
      getNodeDiskInfos (relabel f cd) ca nd = Inr (alloc, ds') \<and> map di_size ds = map di_size ds')"
proof -
  let ?rl = "\<lambda>infos. map (\<lambda>d. d\<lparr>dq_disabled := f d\<rparr>) infos"
  have same: "map disk_key (map clamp_disk (fold charge_disks ms (map disk_of_info (?rl infos)))) =
      map disk_key (map clamp_disk (fold charge_disks ms (map disk_of_info infos)))" for ms infos
    by (intro clamp_keys fold_charge_keys) (simp add: disk_key_def disk_of_info_def)
  note sz = keys_sizes [OF same] keys_sizes [OF sort_keys [OF same]]
  show ?thesis
  proof (cases "GetNodeDiskInfo cd nd")
    case (Inl e)
    then show ?thesis by (simp add: getNodeDiskInfos_def relabel_disk_info)
  next
    case infos: (Inr infos)
    show ?thesis
    proof (cases "GetNodeHostPathPVMountInfo cd (node_name nd) (pvInfo ca) (podInfo ca)")
      case (Inl e)
      with infos show ?thesis by (simp add: getNodeDiskInfos_def relabel_disk_info)
    next
      case (Inr nmi)
      have "length (?rl infos) = length infos" by simp
      with infos Inr sz [of "hm_mounts nmi" infos] show ?thesis
        by (simp add: getNodeDiskInfos_def relabel_disk_info Let_def fold_plus_wsum del: map_map)
    qed
  qed
qed

text \<open>What a passed node can hold.\<close>

lemma pressure_sound_disks:
  assumes "pressure_PodMatchNode cd ca pd nd = Inr True"
    and "getPodHostpathOfNodeDiskInfos cd ca pd (node_name nd) = Inr (tot, req, has)"
    and "\<forall>x \<in> set (sizes req). 0 \<le> x" and "0 < sum_list (sizes req)"
    and "sum_list (sizes req) < 2 ^ 63"
  shows "\<exists>alloc disks. getNodeDiskInfos cd ca nd = Inr (alloc, disks) \<and> fits (sizes req) (sizes disks)"
proof -
  have tot: "ival tot = sum_list (sizes req)"
    using pod_request_sum [OF assms(2)] ival_wsum_sizes assms(3,5) by simp
  with assms(4) have "tot \<noteq> 0" and "req \<noteq> []" by auto
  with pod_request_flag [OF assms(2)] have "has" by simp
  with \<open>tot \<noteq> 0\<close> \<open>req \<noteq> []\<close> assms(1,2) obtain alloc disks
    where disks: "getNodeDiskInfos cd ca nd = Inr (alloc, disks)"
    by (auto simp: pressure_PodMatchNode_def split: sum.splits)
  then have "fst (canRequestMatch req disks)"
    using assms(1) pressure_verdict [OF assms(2) disks assms(3-5)] by simp
  then have "fits (sizes req) (sizes disks)"
    by (rule canRequestMatch_sound) (use assms(3) node_disks_nonneg [OF disks] in auto)
  with disks show ?thesis by blast
qed

section \<open>Properties\<close>

text \<open>
  The predicate is sound: when it passes a node for a pod that needs new
  directories there (sizes that are not negative, a total between 1 and the largest int64),
  the node's disks were read and the directories can be placed on them, each on one disk,
  without loading a disk beyond what its quota leaves.
\<close>

theorem pressure_sound:
  assumes "pressure_PodMatchNode cd ca pd nd = Inr True"
    and "getPodHostpathOfNodeDiskInfos cd ca pd (node_name nd) = Inr (tot, req, has)"
    and "\<forall>x \<in> set (sizes req). 0 \<le> x" and "0 < sum_list (sizes req)"
    and "sum_list (sizes req) < 2 ^ 63"
  shows "\<exists>alloc disks. getNodeDiskInfos cd ca nd = Inr (alloc, disks) \<and> fits (sizes req) (sizes disks)"
  by (rule pressure_sound_disks [OF assms])

lemma sample_request:
  "getPodHostpathOfNodeDiskInfos sample_codec (sample_caches (sample_pv [] 6) []) (sample_pod ''p1'' []) ''n1''
     = Inr (6, [\<lparr>di_path = [], di_size = 6, di_disabled = False\<rparr>], True)"
  by (simp add: getPodHostpathOfNodeDiskInfos_def eval_defs IsHostPathPVHasEmptyItemForNode_def
      capacity_or_zero_def GetHostPathPVCapacity_def sort_disks_def)

lemma sample_disks:
  "getNodeDiskInfos sample_codec (sample_caches (sample_pv [] c) []) (sample_node ''n1'')
     = Inr (30, [\<lparr>di_path = ''/d1'', di_size = 10, di_disabled = False\<rparr>,
                 \<lparr>di_path = ''/d2'', di_size = 20, di_disabled = False\<rparr>])"
  by (simp add: getNodeDiskInfos_def eval_defs GetNodeDiskInfo_def GetNodeHostPathPVMountInfo_def
      pv_charges_def disk_of_info_def clamp_disk_def sort_disks_def disk_key_def)

lemma sample_passes:
  "pressure_PodMatchNode sample_codec (sample_caches (sample_pv [] 6) []) (sample_pod ''p1'' [])
     (sample_node ''n1'') = Inr True"
  by (simp add: pressure_PodMatchNode_def sample_request sample_disks word_sless_ival word_sle_ival)

theorem pressure_sound_witness:
  "\<exists>alloc disks. getNodeDiskInfos sample_codec (sample_caches (sample_pv [] 6) []) (sample_node ''n1'')
      = Inr (alloc, disks) \<and>
    fits (sizes [\<lparr>di_path = [], di_size = 6, di_disabled = False\<rparr>]) (sizes disks)"
  by (rule pressure_sound [OF sample_passes, where tot = 6 and has = True])
    (simp_all add: sample_request)

text \<open>
  C28 (safety).  A rejection for the total is justified: when the predicate answers that the
  node is full or that the request is bigger than what the node can allocate, no placement
  of the directories on the node's disks exists (sizes not negative, totals below the
  largest int64).
\<close>

theorem pressure_total_rejection:
  assumes "getPodHostpathOfNodeDiskInfos cd ca pd (node_name nd) = Inr (tot, req, has)"
    and "getNodeDiskInfos cd ca nd = Inr (alloc, disks)"
    and "\<forall>x \<in> set (sizes req). 0 \<le> x"
    and "sum_list (sizes req) < 2 ^ 63" and "sum_list (sizes disks) < 2 ^ 63"
    and "pressure_PodMatchNode cd ca pd nd \<in>
      {Inr False, Inl (newPredicateError pressureName (NodeRequestTooBig (node_name nd) tot alloc))}"
  shows "\<not> fits (sizes req) (sizes disks)"
proof
  assume "fits (sizes req) (sizes disks)"
  then have "sum_list (sizes req) \<le> sum_list (sizes disks)" by (rule fits_total)
  moreover have "ival tot = sum_list (sizes req)"
    using pod_request_sum [OF assms(1)] ival_wsum_sizes assms(3,4) by simp
  moreover have "ival alloc = sum_list (sizes disks)"
    using node_alloc_sum [OF assms(2)] ival_wsum_sizes node_disks_nonneg [OF assms(2)] assms(5) by simp
  ultimately have "\<not> alloc <s tot" by (simp add: word_sless_ival)
  with assms(1,2,6) show False
    by (auto simp: pressure_PodMatchNode_def newPredicateError_def split: prod.splits if_splits)
qed

lemma sample_big_request:
  "getPodHostpathOfNodeDiskInfos sample_codec (sample_caches (sample_pv [] 40) []) (sample_pod ''p1'' []) ''n1''
     = Inr (40, [\<lparr>di_path = [], di_size = 40, di_disabled = False\<rparr>], True)"
  by (simp add: getPodHostpathOfNodeDiskInfos_def eval_defs IsHostPathPVHasEmptyItemForNode_def
      capacity_or_zero_def GetHostPathPVCapacity_def sort_disks_def)

theorem pressure_total_rejection_witness:
  "\<not> fits (sizes [\<lparr>di_path = [], di_size = 40, di_disabled = False\<rparr>])
     (sizes [\<lparr>di_path = ''/d1'', di_size = 10, di_disabled = False\<rparr>,
             \<lparr>di_path = ''/d2'', di_size = 20, di_disabled = False\<rparr>])"
  by (rule pressure_total_rejection [where nd = "sample_node ''n1''" and tot = 40 and alloc = 30
        and cd = sample_codec and ca = "sample_caches (sample_pv [] 40) []"
        and pd = "sample_pod ''p1'' []" and has = True])
    (simp_all add: sample_big_request sample_disks pressure_PodMatchNode_def word_sless_ival word_sle_ival)

text \<open>
  For one new directory the predicate is exact: it passes the node if and
  only if some disk has room for the directory.
\<close>

theorem pressure_single_exact:
  assumes "getPodHostpathOfNodeDiskInfos cd ca pd (node_name nd) = Inr (tot, [r], has)"
    and "getNodeDiskInfos cd ca nd = Inr (alloc, disks)"
    and "0 < ival (di_size r)" and "sum_list (sizes disks) < 2 ^ 63"
  shows "pressure_PodMatchNode cd ca pd nd = Inr True \<longleftrightarrow>
    (\<exists>d \<in> set disks. ival (di_size r) \<le> ival (di_size d))"
proof -
  have tot: "tot = di_size r"
    using pod_request_sum [OF assms(1)] by simp
  have alloc: "ival alloc = sum_list (sizes disks)"
    using node_alloc_sum [OF assms(2)] ival_wsum_sizes node_disks_nonneg [OF assms(2)] assms(4) by simp
  have "pressure_PodMatchNode cd ca pd nd = Inr True \<longleftrightarrow>
      \<not> alloc <s tot \<and> fst (canRequestMatch [r] disks)"
    by (rule pressure_verdict [OF assms(1,2)]) (use assms(3) ival_upper [of "di_size r"] in auto)
  moreover have "\<not> alloc <s tot" if "d \<in> set disks" and "ival (di_size r) \<le> ival (di_size d)" for d
  proof -
    have "ival (di_size d) \<le> sum_list (sizes disks)"
      using node_disks_nonneg [OF assms(2)] that(1)
      by (intro member_le_sum_list) (auto simp: sizes_def)
    with that(2) show ?thesis by (simp add: tot alloc word_sless_ival)
  qed
  ultimately show ?thesis by (auto simp: canRequestMatch_single)
qed

theorem pressure_single_exact_witness:
  "pressure_PodMatchNode sample_codec (sample_caches (sample_pv [] 6) []) (sample_pod ''p1'' [])
     (sample_node ''n1'') = Inr True \<longleftrightarrow>
   (\<exists>d \<in> set [\<lparr>di_path = ''/d1'', di_size = 10, di_disabled = False\<rparr>,
              \<lparr>di_path = ''/d2'', di_size = 20, di_disabled = False\<rparr>].
     ival (di_size \<lparr>di_path = [], di_size = 6, di_disabled = False\<rparr>) \<le> ival (di_size d))"
  by (rule pressure_single_exact [where tot = 6 and alloc = 30 and has = True])
    (simp_all add: sample_request sample_disks)

text \<open>
  Greedy matching is not complete: requests of 1, 2 and 2 fit on disks of 2
  and 3, the lists are sorted as the code sorts them, and the match fails.
\<close>

theorem greedy_match_incomplete:
  "fits (sizes (map (\<lambda>s. \<lparr>di_path = [], di_size = s, di_disabled = False\<rparr>) [1, 2, 2]))
        (sizes (map (\<lambda>s. \<lparr>di_path = [], di_size = s, di_disabled = False\<rparr>) [2, 3])) \<and>
   \<not> fst (canRequestMatch
           (sort_disks (map (\<lambda>s. \<lparr>di_path = [], di_size = s, di_disabled = False\<rparr>) [1, 2, 2]))
           (sort_disks (map (\<lambda>s. \<lparr>di_path = [], di_size = s, di_disabled = False\<rparr>) [2, 3])))"
proof
  show "fits (sizes (map (\<lambda>s. \<lparr>di_path = [], di_size = s, di_disabled = False\<rparr>) [1, 2, 2]))
      (sizes (map (\<lambda>s. \<lparr>di_path = [], di_size = s, di_disabled = False\<rparr>) [2, 3]))"
    unfolding fits_def
    by (rule exI [of _ "[1, 0, 1]"]) (auto simp: assignment_ok_def less_Suc_eq)
qed (simp add: sort_disks_def disk_key_def word_sle_ival)

text \<open>
  The verdict of the match does not depend on which order the unstable
  \<^verbatim>\<open>sort.Sort\<close> picks: any two lists it may return for the requests and the disks give the
  verdict of the model's sort.
\<close>

theorem match_sort_independent:
  assumes "mset rs' = mset rs" and "sorted_wrt (\<lambda>a b. \<not> disk_less b a) rs'"
    and "mset hs' = mset hs" and "sorted_wrt (\<lambda>a b. \<not> disk_less b a) hs'"
  shows "fst (canRequestMatch rs' hs') = fst (canRequestMatch (sort_disks rs) (sort_disks hs))"
proof (rule canRequestMatch_sizes)
  show "map di_size rs' = map di_size (sort_disks rs)"
    by (simp only: size_of_key ds.srt_unique [OF assms(1,2)])
  show "map di_size hs' = map di_size (sort_disks hs)"
    by (simp only: size_of_key ds.srt_unique [OF assms(3,4)])
qed

theorem match_sort_independent_witness:
  "fst (canRequestMatch [] [\<lparr>di_path = ''/d'', di_size = 3, di_disabled = True\<rparr>,
      \<lparr>di_path = ''/d'', di_size = 3, di_disabled = False\<rparr>]) =
   fst (canRequestMatch (sort_disks []) (sort_disks
     [\<lparr>di_path = ''/d'', di_size = 3, di_disabled = False\<rparr>,
      \<lparr>di_path = ''/d'', di_size = 3, di_disabled = True\<rparr>]))"
  by (rule match_sort_independent) (simp_all add: disk_less_def)

text \<open>
  What is left of a disk: its allocable size less the quotas of the records
  charged to it, never below zero; the total the predicate compares with is the machine
  sum over the disks.
\<close>

theorem node_disk_accounting:
  assumes "getNodeDiskInfos cd ca nd = Inr (alloc, ds)"
    and "GetNodeDiskInfo cd nd = Inr infos" and "infos \<noteq> []"
    and "GetNodeHostPathPVMountInfo cd (node_name nd) (pvInfo ca) (podInfo ca) = Inr nmi"
  shows "alloc = wsum (map di_size ds) \<and>
    mset (map (\<lambda>d. (di_path d, di_size d)) ds) =
    mset (map (\<lambda>i. (dq_mount_path (infos ! i),
      let left = dq_allocable (infos ! i) -
        wsum (map mi_quota (filter (\<lambda>m. hits m (map dq_mount_path infos) i) (hm_mounts nmi)))
      in if left <s 0 then 0 else left)) [0..<length infos])"
proof
  show "alloc = wsum (map di_size ds)" by (rule node_alloc_sum [OF assms(1)])
  define raw where "raw = map disk_of_info infos"
  define ret where "ret = map clamp_disk (fold charge_disks (hm_mounts nmi) raw)"
  have ds: "ds = sort_disks ret"
    using assms by (simp add: getNodeDiskInfos_def Let_def ret_def raw_def)
  have paths: "map di_path raw = map dq_mount_path infos"
    by (simp add: raw_def disk_of_info_def)
  have path: "di_path (clamp_disk d) = di_path d" for d
    by (simp add: clamp_disk_def)
  have "map (\<lambda>d. (di_path d, di_size d)) ret =
      map (\<lambda>i. (dq_mount_path (infos ! i),
        let left = dq_allocable (infos ! i) -
          wsum (map mi_quota (filter (\<lambda>m. hits m (map dq_mount_path infos) i) (hm_mounts nmi)))
        in if left <s 0 then 0 else left)) [0..<length infos]"
  proof (rule nth_equalityI)
    fix i assume "i < length (map (\<lambda>d. (di_path d, di_size d)) ret)"
    then have i: "i < length infos" "i < length raw" by (simp_all add: ret_def raw_def)
    have "di_path (fold charge_disks (hm_mounts nmi) raw ! i) = dq_mount_path (infos ! i)"
      using i fold_charge_paths [of "hm_mounts nmi" raw] paths by (metis fold_charge_length nth_map)
    moreover have "di_size (fold charge_disks (hm_mounts nmi) raw ! i) = dq_allocable (infos ! i) -
        wsum (map mi_quota (filter (\<lambda>m. hits m (map dq_mount_path infos) i) (hm_mounts nmi)))"
      using i fold_charge_nth [of i raw "hm_mounts nmi"] by (simp add: paths) (simp add: raw_def disk_of_info_def)
    ultimately show "map (\<lambda>d. (di_path d, di_size d)) ret ! i = map (\<lambda>i. (dq_mount_path (infos ! i),
        let left = dq_allocable (infos ! i) -
          wsum (map mi_quota (filter (\<lambda>m. hits m (map dq_mount_path infos) i) (hm_mounts nmi)))
        in if left <s 0 then 0 else left)) [0..<length infos] ! i"
      using i by (simp add: ret_def path) (simp add: clamp_disk_def Let_def)
  qed (simp add: ret_def raw_def)
  then show "mset (map (\<lambda>d. (di_path d, di_size d)) ds) =
    mset (map (\<lambda>i. (dq_mount_path (infos ! i),
      let left = dq_allocable (infos ! i) -
        wsum (map mi_quota (filter (\<lambda>m. hits m (map dq_mount_path infos) i) (hm_mounts nmi)))
      in if left <s 0 then 0 else left)) [0..<length infos])"
    by (simp only: ds mset_map ds.srt_perm flip: mset_map) (simp only: mset_map ds.srt_perm flip: \<open>map _ ret = _\<close>)
qed

theorem node_disk_accounting_witness:
  "(30 :: int64) = wsum (map di_size [\<lparr>di_path = ''/d1'', di_size = 10, di_disabled = False\<rparr>,
       \<lparr>di_path = ''/d2'', di_size = 20, di_disabled = False\<rparr>]) \<and>
    mset (map (\<lambda>d. (di_path d, di_size d)) [\<lparr>di_path = ''/d1'', di_size = 10, di_disabled = False\<rparr>,
       \<lparr>di_path = ''/d2'', di_size = 20, di_disabled = False\<rparr>]) =
    mset (map (\<lambda>i. (dq_mount_path ([sample_disk ''/d1'' 10, sample_disk ''/d2'' 20] ! i),
      let left = dq_allocable ([sample_disk ''/d1'' 10, sample_disk ''/d2'' 20] ! i) -
        wsum (map mi_quota (filter (\<lambda>m. hits m (map dq_mount_path
          [sample_disk ''/d1'' 10, sample_disk ''/d2'' 20]) i) (hm_mounts \<lparr>hm_node = ''n1'', hm_mounts = []\<rparr>)))
      in if left <s 0 then 0 else left)) [0..<length [sample_disk ''/d1'' 10, sample_disk ''/d2'' 20]])"
  by (rule node_disk_accounting [OF sample_disks [of 6]])
    (simp_all add: eval_defs GetNodeDiskInfo_def GetNodeHostPathPVMountInfo_def pv_charges_def)

text \<open>
  Prefixes are compared as strings, not as paths: a disk whose mount path
  extends that of an earlier disk (\<open>/d10\<close> after \<open>/d1\<close>) is never charged for its own
  directories; they go to an earlier disk.
\<close>

theorem string_prefix_shadows:
  assumes "j < i" and "ps ! i = ps ! j @ t" and "mi_host_path m = ps ! i @ rest" and "ps ! j \<noteq> []"
  shows "\<not> hits m ps i \<and> (\<exists>k \<le> j. hits m ps k)"
proof
  have j: "has_prefix (mi_host_path m) (ps ! j)"
    using assms(2,3) by (auto simp: has_prefix_iff)
  have m: "mi_host_path m \<noteq> []" using assms(2-4) by simp
  with assms(1) j show "\<not> hits m ps i" by (auto simp: hits_def)
  define k where "k = (LEAST k. has_prefix (mi_host_path m) (ps ! k))"
  have "has_prefix (mi_host_path m) (ps ! k)" and "k \<le> j"
    unfolding k_def using j by (auto intro: LeastI Least_le)
  moreover have "\<not> has_prefix (mi_host_path m) (ps ! l)" if "l < k" for l
    using not_less_Least that unfolding k_def by blast
  ultimately show "\<exists>k \<le> j. hits m ps k" using m by (auto simp: hits_def)
qed

theorem string_prefix_shadows_witness:
  "charge_disks (sample_mount ''/d10/a'' 4)
     [\<lparr>di_path = ''/d1'', di_size = 10, di_disabled = False\<rparr>,
      \<lparr>di_path = ''/d10'', di_size = 20, di_disabled = False\<rparr>] =
     [\<lparr>di_path = ''/d1'', di_size = 6, di_disabled = False\<rparr>,
      \<lparr>di_path = ''/d10'', di_size = 20, di_disabled = False\<rparr>] \<and>
   \<not> hits (sample_mount ''/d10/a'' 4) [''/d1'', ''/d10''] 1"
proof
  have "\<not> hits (sample_mount ''/d10/a'' 4) [''/d1'', ''/d10''] 1 \<and>
      (\<exists>k \<le> 0. hits (sample_mount ''/d10/a'' 4) [''/d1'', ''/d10''] k)"
    by (rule string_prefix_shadows [where t = "''0''" and rest = "''/a''"])
      (simp_all add: sample_mount_def)
  then show "\<not> hits (sample_mount ''/d10/a'' 4) [''/d1'', ''/d10''] 1" by blast
qed (simp add: sample_mount_def)

text \<open>
  The flag \<open>Disabled\<close> of a disk is copied and never read: with any other
  values of the flags in the node's annotation the predicate passes the same pods, so the
  room of a disabled disk counts.
\<close>

theorem disabled_flag_ignored:
  "pressure_PodMatchNode (relabel f cd) ca pd nd = Inr True \<longleftrightarrow>
   pressure_PodMatchNode cd ca pd nd = Inr True"
proof (cases "getPodHostpathOfNodeDiskInfos cd ca pd (node_name nd)")
  case (Inl e)
  then show ?thesis by (simp add: pressure_PodMatchNode_def)
next
  case (Inr r)
  obtain tot req has where r: "r = (tot, req, has)" by (cases r)
  from relabel_node_disks [of cd ca nd f] show ?thesis
  proof (elim disjE exE conjE)
    fix e assume "getNodeDiskInfos cd ca nd = Inl e" "getNodeDiskInfos (relabel f cd) ca nd = Inl e"
    with Inr show ?thesis by (simp add: pressure_PodMatchNode_def r)
  next
    fix alloc ds ds'
    assume ds: "getNodeDiskInfos cd ca nd = Inr (alloc, ds)"
      "getNodeDiskInfos (relabel f cd) ca nd = Inr (alloc, ds')" and "map di_size ds = map di_size ds'"
    then have "fst (canRequestMatch req ds) = fst (canRequestMatch req ds')"
      by (intro canRequestMatch_sizes refl)
    with Inr ds show ?thesis by (simp add: pressure_PodMatchNode_def r case_prod_beta)
  qed
qed

text \<open>
  The pod's total is an int64 sum that wraps: four volumes of 2^62 bytes add up to
  0 and the predicate passes a node with 30 bytes of room, on which they do not fit.
\<close>

theorem request_total_wraps:
  "\<exists>req alloc disks.
     getPodHostpathOfNodeDiskInfos sample_codec (sample_caches (sample_pv [] (2 ^ 62)) [])
       (sample_pod ''p1'' []\<lparr>pod_volumes := [sample_vol, sample_vol, sample_vol, sample_vol]\<rparr>) ''n1'' = Inr (0, req, True) \<and>
     sizes req = [2 ^ 62, 2 ^ 62, 2 ^ 62, 2 ^ 62] \<and>
     getNodeDiskInfos sample_codec (sample_caches (sample_pv [] (2 ^ 62)) []) (sample_node ''n1'') =
       Inr (alloc, disks) \<and>
     \<not> fits (sizes req) (sizes disks) \<and>
     pressure_PodMatchNode sample_codec (sample_caches (sample_pv [] (2 ^ 62)) [])
       (sample_pod ''p1'' []\<lparr>pod_volumes := [sample_vol, sample_vol, sample_vol, sample_vol]\<rparr>) (sample_node ''n1'') = Inr True"
proof -
  let ?r = "\<lparr>di_path = [], di_size = 2 ^ 62, di_disabled = False\<rparr> :: DiskInfo"
  let ?ca = "sample_caches (sample_pv [] (2 ^ 62)) []"
  let ?pd = "sample_pod ''p1'' []\<lparr>pod_volumes := [sample_vol, sample_vol, sample_vol, sample_vol]\<rparr>"
  have req: "getPodHostpathOfNodeDiskInfos sample_codec ?ca ?pd ''n1'' = Inr (0, [?r, ?r, ?r, ?r], True)"
    by (simp add: getPodHostpathOfNodeDiskInfos_def eval_defs IsHostPathPVHasEmptyItemForNode_def
        capacity_or_zero_def GetHostPathPVCapacity_def sort_disks_def)
  have "\<not> fits (sizes [?r, ?r, ?r, ?r]) (sizes [\<lparr>di_path = ''/d1'', di_size = 10, di_disabled = False\<rparr>,
      \<lparr>di_path = ''/d2'', di_size = 20, di_disabled = False\<rparr>])"
    by (rule notI, drule fits_total) simp
  then show ?thesis
    using req by (intro exI [of _ "[?r, ?r, ?r, ?r]"])
      (simp add: sample_disks pressure_PodMatchNode_def)
qed

end
