(* ===== verification/Accounting.thy ===== *)
theory Accounting
  imports Samples
begin

text \<open>
  What \<^verbatim>\<open>pkg/algorithm/hostpathpv.go\<close> and \<^verbatim>\<open>common.go\<close> promise to the plug-ins: which pods
  and nodes use a volume, which directories of a node are charged and with what, and how a
  volume's capacity is stored and read back.  The loops over the mount records refine a
  two-phase specification: the recorded directories without repetitions, then the
  reservations.
\<close>

section \<open>The reference accounting\<close>

text \<open>The mounts whose cleaned path is not in \<open>S\<close> and did not occur before.\<close>

fun fresh_mounts :: "string set \<Rightarrow> mount_info list \<Rightarrow> mount_info list" where
  "fresh_mounts S [] = []"
| "fresh_mounts S (m # ms) =
     (if mi_path m \<in> S then fresh_mounts S ms else m # fresh_mounts (insert (mi_path m) S) ms)"

definition recorded :: "codec \<Rightarrow> string \<Rightarrow> pv \<Rightarrow> mount_info list" where
  "recorded cd n v = (case node_record cd n v of None \<Rightarrow> [] | Some info \<Rightarrow> hm_mounts info)"

definition reserved :: "codec \<Rightarrow> string \<Rightarrow> pod_lister \<Rightarrow> pv \<Rightarrow> mount_info list" where
  "reserved cd n c v =
     (case node_record cd n v of None \<Rightarrow> []
      | Some info \<Rightarrow> pending_mounts v info (used_pods_or_empty v c n))"

lemma fresh_mounts_append:
  "fresh_mounts S (xs @ ys) = fresh_mounts S xs @ fresh_mounts (S \<union> mi_path ` set xs) ys"
  by (induction S xs rule: fresh_mounts.induct) (auto simp: insert_absorb)

lemma record_mounts_fresh:
  "snd (record_mounts ms (pm, acc)) = acc @ fresh_mounts (set (gkeys pm)) ms \<and>
   set (gkeys (fst (record_mounts ms (pm, acc)))) = set (gkeys pm) \<union> mi_path ` set ms"
proof (induction ms arbitrary: pm acc)
  case (Cons m ms)
  show ?case
  proof (cases "gget pm (mi_path m)")
    case None
    then have new: "mi_path m \<notin> set (gkeys pm)"
      using gget_gkeys [of pm "mi_path m"] by simp
    show ?thesis
      using None new Cons [of "gput (mi_path m) True pm" "acc @ [m]"] by (simp add: gkeys_put)
  next
    case (Some b)
    then have "mi_path m \<in> set (gkeys pm)"
      using gget_gkeys [of pm "mi_path m"] by auto
    with Some Cons [of pm acc] show ?thesis by auto
  qed
qed simp

lemma pv_charges_step:
  assumes "pv_charges cd n c v (pm, acc) = Inr st'"
  shows "set (gkeys (fst st')) = set (gkeys pm) \<union> mi_path ` set (recorded cd n v) \<and>
    snd st' = acc @ fresh_mounts (set (gkeys pm)) (recorded cd n v) @ reserved cd n c v"
  using assms
  by (rule pv_charges_cases)
    (simp_all add: recorded_def reserved_def record_mounts_fresh)

lemma pvs_charges_spec:
  assumes "pvs_charges cd n c vs (pm, acc) = Inr st'"
  shows "mset (snd st') = mset acc + mset (fresh_mounts (set (gkeys pm)) (concat (map (recorded cd n) vs))) +
    mset (concat (map (reserved cd n c) vs))"
  using assms
proof (induction vs arbitrary: pm acc)
  case (Cons v vs)
  from Cons.prems obtain pm1 acc1 where one: "pv_charges cd n c v (pm, acc) = Inr (pm1, acc1)"
    and rest: "pvs_charges cd n c vs (pm1, acc1) = Inr st'"
    by (auto simp only: pvs_charges_Cons)
  from pv_charges_step [OF one] Cons.IH [OF rest] show ?case
    by (simp add: fresh_mounts_append)
qed auto

lemma pvs_charges_skip:
  "node_record cd n v = None \<Longrightarrow> pv_charges cd n c v st = Inr st' \<Longrightarrow> st' = st"
  by (erule pv_charges_cases) simp_all

lemma pvs_charges_append:
  "pvs_charges cd n c (xs @ ys) st =
     (case pvs_charges cd n c xs st of Inl e \<Rightarrow> Inl e | Inr st' \<Rightarrow> pvs_charges cd n c ys st')"
  by (induction xs arbitrary: st) (simp_all split: sum.split)

lemma node_charges_mset:
  assumes "GetNodeHostPathPVMountInfo cd n pvI c = Inr nmi" and "pvi_list pvI = Inr pvs"
  shows "hm_node nmi = n"
    and "mset (hm_mounts nmi) = mset (fresh_mounts {} (concat (map (recorded cd n) pvs))) +
      mset (concat (map (reserved cd n c) pvs))"
  using assms pvs_charges_spec [of cd n c pvs "[]" "[]"]
  by (auto simp: GetNodeHostPathPVMountInfo_def gkeys_def split: sum.splits)

section \<open>Properties of the accounting\<close>

text \<open>
  C5 (refinement).  The charges of a node are, up to order, the directories its records
  name, each cleaned path once (its first record wins), and one reservation for every
  running pod whose directory is not recorded.
\<close>

theorem node_charges_spec:
  assumes "GetNodeHostPathPVMountInfo cd n pvI c = Inr nmi" and "pvi_list pvI = Inr pvs"
  shows "hm_node nmi = n \<and>
    mset (hm_mounts nmi) = mset (fresh_mounts {} (concat (map (recorded cd n) pvs))) +
      mset (concat (map (reserved cd n c) pvs))"
  using node_charges_mset [OF assms] by simp

theorem node_charges_spec_witness:
  "hm_node \<lparr>hm_node = ''n1'', hm_mounts = [sample_mount ''/d1/a'' 4, pending_mount 6]\<rparr> = ''n1'' \<and>
   mset (hm_mounts \<lparr>hm_node = ''n1'', hm_mounts = [sample_mount ''/d1/a'' 4, pending_mount 6]\<rparr>) =
     mset (fresh_mounts {} (concat (map (recorded sample_codec ''n1'')
       [sample_pv [(PVVolumeHostPathMountNode, ''m1'')] 6]))) +
     mset (concat (map (reserved sample_codec ''n1'' \<lparr>pl_list = Inr [sample_pod ''p1'' ''n1'', sample_pod ''p2'' ''n1''],
         pl_get = (\<lambda>_ _. Inl (External ''not found''))\<rparr>)
       [sample_pv [(PVVolumeHostPathMountNode, ''m1'')] 6]))"
  by (rule node_charges_spec [where pvI = "pvInfo (sample_caches (sample_pv [(PVVolumeHostPathMountNode, ''m1'')] 6) [])"])
    (simp_all add: eval_defs GetNodeHostPathPVMountInfo_def pv_charges_def pending_mounts_def pending_mount_def
      used_pods_or_empty_def GetHostPathPVUsedPodMap_def FilterByNodeAndPVC_ok isPodUsePVC_def pod_key_def
      capacity_or_zero_def GetHostPathPVCapacity_def)

text \<open>
  C27 (invariant).  No directory is charged twice and none is missed: the charged paths are
  distinct after cleaning, and every directory recorded for the node is among them.
\<close>

theorem directories_charged_once:
  assumes "GetNodeHostPathPVMountInfo cd n pvI c = Inr nmi" and "pvi_list pvI = Inr pvs"
  shows "distinct (map mi_path (filter has_path (hm_mounts nmi))) \<and>
    (\<forall>v \<in> set pvs. mi_path ` set (recorded cd n v) \<subseteq> mi_path ` set (hm_mounts nmi))"
proof -
  from assms obtain pm where run: "pvs_charges cd n c pvs ([], []) = Inr (pm, hm_mounts nmi)"
    by (auto simp: GetNodeHostPathPVMountInfo_def split: sum.splits)
  from pvs_charges_charged [OF charged_empty run] have inv: "charged (pm, hm_mounts nmi)" .
  have "mi_path m \<in> mi_path ` set (hm_mounts nmi)" if "v \<in> set pvs" and "m \<in> set (recorded cd n v)" for v m
  proof -
    from that(2) obtain info where "node_record cd n v = Some info" and "m \<in> set (hm_mounts info)"
      by (cases "node_record cd n v") (simp_all add: recorded_def)
    with pvs_charges_covers [OF run that(1)] have "mi_path m \<in> set (gkeys pm)" by simp
    with inv show ?thesis unfolding charged_def by auto
  qed
  with inv show ?thesis by (auto simp: charged_def)
qed

theorem directories_charged_once_witness:
  "mi_path ` set (recorded sample_codec ''n1'' (sample_pv [(PVVolumeHostPathMountNode, ''m1'')] 6)) \<subseteq> {''/d1/a''}"
proof -
  let ?v = "sample_pv [(PVVolumeHostPathMountNode, ''m1'')] 6"
  have "distinct (map mi_path (filter has_path (hm_mounts \<lparr>hm_node = ''n1'', hm_mounts = [sample_mount ''/d1/a'' 4]\<rparr>))) \<and>
     (\<forall>v \<in> set [?v]. mi_path ` set (recorded sample_codec ''n1'' v) \<subseteq>
        mi_path ` set (hm_mounts \<lparr>hm_node = ''n1'', hm_mounts = [sample_mount ''/d1/a'' 4]\<rparr>))"
    by (rule directories_charged_once [where pvI = "pvInfo (sample_caches ?v [])" and c = "podInfo (sample_caches ?v [])"])
      (simp_all add: eval_defs GetNodeHostPathPVMountInfo_def pv_charges_def pending_mounts_def
        used_pods_or_empty_def GetHostPathPVUsedPodMap_def FilterByNodeAndPVC_ok)
  moreover have "path_clean ''/d1/a'' = ''/d1/a''"
    by (simp add: path_clean_def clean_step.simps)
  ultimately show ?thesis by (simp add: sample_mount_def)
qed

text \<open>
  How much is reserved for a volume recorded on the node: for a shared
  volume one directory when nothing is recorded and a pod runs there; otherwise one for
  every running pod beyond the recorded directories.
\<close>

theorem reservations_exact:
  assumes "node_record cd n v = Some info" and "pv_claim_ref v = Some r"
    and "FilterByNodeAndPVC c n (ref_namespace r) (ref_name r) False = Inr pods"
  shows "reserved cd n c v =
    replicate (if IsSharedHostPathPV (Some v)
               then (if hm_mounts info = [] \<and> pods \<noteq> [] then 1 else 0)
               else card (pod_name ` set pods) - length (hm_mounts info))
      (pending_mount (capacity_or_zero v))"
proof -
  obtain m where m: "GetHostPathPVUsedPodMap v c n = Inr m"
    using assms(2,3) by (simp add: GetHostPathPVUsedPodMap_def)
  then have "length m = card (pod_name ` set pods)"
    by (rule used_pods_length [OF assms(2,3)])
  moreover have "card (pod_name ` set pods) > 0 \<longleftrightarrow> pods \<noteq> []"
    by (simp add: card_gt_0_iff)
  ultimately show ?thesis
    using assms(1) m by (simp add: reserved_def used_pods_or_empty_def pending_mounts_def del: length_greater_0_conv)
qed

theorem reservations_exact_witness:
  "reserved sample_codec ''n1'' (podInfo (sample_caches (sample_pv [] 6) [sample_pod ''p1'' ''n1'', sample_pod ''p2'' ''n1'']))
     (sample_pv [(PVVolumeHostPathMountNode, ''m1'')] 6) =
   replicate (if IsSharedHostPathPV (Some (sample_pv [(PVVolumeHostPathMountNode, ''m1'')] 6))
      then (if hm_mounts (sample_record ''n1'' [sample_mount ''/d1/a'' 4]) = [] \<and>
               [sample_pod ''p1'' ''n1'', sample_pod ''p2'' ''n1''] \<noteq> [] then 1 else 0)
      else card (pod_name ` set [sample_pod ''p1'' ''n1'', sample_pod ''p2'' ''n1'']) -
        length (hm_mounts (sample_record ''n1'' [sample_mount ''/d1/a'' 4])))
     (pending_mount (capacity_or_zero (sample_pv [(PVVolumeHostPathMountNode, ''m1'')] 6)))"
  by (rule reservations_exact [where r = "\<lparr>ref_namespace = ''ns'', ref_name = ''c1''\<rparr>"])
    (simp_all add: eval_defs node_record_def FilterByNodeAndPVC_ok isPodUsePVC_def)

text \<open>
  A volume without a record on the node is charged nothing, whatever pods of
  it run there: leaving it out of the list changes nothing.  A pod that was just bound to the
  node is therefore not accounted for until its first directory is recorded.
\<close>

theorem unrecorded_volume_not_charged:
  assumes "node_record cd n v = None" and "pv_charges cd n c v ([], []) = Inr st"
    and "pvi_list pvI = Inr (xs @ v # ys)" and "pvi_list pvI' = Inr (xs @ ys)"
  shows "GetNodeHostPathPVMountInfo cd n pvI c = GetNodeHostPathPVMountInfo cd n pvI' c"
proof -
  have "pv_charges cd n c v st' = Inr st'" for st'
    using assms(1,2)
    by (auto simp: pv_charges_def node_record_def split: if_splits sum.splits option.splits prod.splits)
  then show ?thesis
    using assms(3,4) by (simp add: GetNodeHostPathPVMountInfo_def pvs_charges_append split: sum.split)
qed

theorem unrecorded_volume_not_charged_witness:
  "GetNodeHostPathPVMountInfo sample_codec ''n1''
     (pvInfo (sample_caches (sample_pv [] 6) [])) (podInfo (sample_caches (sample_pv [] 6) [sample_pod ''p1'' ''n1''])) =
   GetNodeHostPathPVMountInfo sample_codec ''n1''
     \<lparr>pvi_get = (\<lambda>_. Inr None), pvi_list = Inr []\<rparr> (podInfo (sample_caches (sample_pv [] 6) [sample_pod ''p1'' ''n1'']))"
  by (rule unrecorded_volume_not_charged [where v = "sample_pv [] 6" and xs = "[]" and ys = "[]" and st = "([], [])"])
    (simp_all add: eval_defs node_record_def pv_charges_def)

section \<open>Properties of the queries\<close>

text \<open>
  The node map of a bound volume holds exactly the nodes on which its
  unfinished pods run, a pod that the cache has not placed yet being looked up in the API
  server.
\<close>

theorem used_node_map_spec:
  assumes "GetHostPathPVUsedNodeMap api v c = Inr m" and "pl_list c = Inr all"
    and "pv_claim_ref v = Some r"
  shows "set (gkeys m) =
    node_of_user api ` {p \<in> set all. isPodReady p \<and> pod_namespace p = ref_namespace r \<and>
      (\<exists>w \<in> set (pod_volumes p). vol_claim w = Some (ref_name r))} - {[]}"
proof -
  let ?pods = "filter (\<lambda>p. isPodUsePVC p (ref_namespace r) (ref_name r) \<and> isPodReady p) all"
  from assms have "used_nodes_loop api ?pods [] = Inr m"
    by (simp add: GetHostPathPVUsedNodeMap_def FilterByNodeAndPVC_ok)
  from used_nodes_loop_keys [OF this] have "set (gkeys m) = node_of_user api ` set ?pods - {[]}"
    by (simp add: gkeys_def)
  moreover have "set ?pods = {p \<in> set all. isPodReady p \<and> pod_namespace p = ref_namespace r \<and>
      (\<exists>w \<in> set (pod_volumes p). vol_claim w = Some (ref_name r))}"
    by (auto simp: isPodUsePVC_iff)
  ultimately show ?thesis by simp
qed

theorem used_node_map_spec_witness:
  "set (gkeys [(''n1'', True)]) =
    node_of_user sample_api ` {p \<in> set [sample_pod ''p1'' ''n1'']. isPodReady p \<and>
      pod_namespace p = ref_namespace \<lparr>ref_namespace = ''ns'', ref_name = ''c1''\<rparr> \<and>
      (\<exists>w \<in> set (pod_volumes p). vol_claim w = Some (ref_name \<lparr>ref_namespace = ''ns'', ref_name = ''c1''\<rparr>))} - {[]}"
  by (rule used_node_map_spec [where v = "sample_pv [] 6"
        and c = "podInfo (sample_caches (sample_pv [] 6) [sample_pod ''p1'' ''n1''])"])
    (simp_all add: eval_defs GetHostPathPVUsedNodeMap_def FilterByNodeAndPVC_ok isPodUsePVC_def)

section \<open>Properties of the capacity\<close>

text \<open>
  C30 (roundtrip).  A capacity that is set is what is read back: the written decimal parses to
  the same int64 and takes precedence over the declared storage; of the volume, one annotation changes and
  nothing else does, neither another annotation nor another field, and so it keeps its kind, its sharing and its policy.
\<close>

theorem capacity_roundtrip:
  assumes "SetHostpathPVCapacity v size64 = Inr w"
  shows "GetHostPathPVCapacity w = Inr size64 \<and>
    (\<exists>m. w = v\<lparr>pv_annotations := Some m\<rparr> \<and>
       (\<forall>k. k \<noteq> PVHostPathCapacityAnn \<longrightarrow> gget m k = (case pv_annotations v of None \<Rightarrow> None | Some old \<Rightarrow> gget old k))) \<and>
    IsCommonHostPathPV (Some w) = IsCommonHostPathPV (Some v) \<and>
    IsSharedHostPathPV (Some w) = IsSharedHostPathPV (Some v) \<and>
    IsKeepHostPathPV (Some w) = IsKeepHostPathPV (Some v)"
proof -
  let ?m = "gput PVHostPathCapacityAnn (format_int size64) (case pv_annotations v of None \<Rightarrow> [] | Some m \<Rightarrow> m)"
  have w: "w = v\<lparr>pv_annotations := Some ?m\<rparr>" and v: "IsCommonHostPathPV (Some v)"
    using assms by (auto simp: SetHostpathPVCapacity_def Let_def split: if_splits)
  then have kind: "IsCommonHostPathPV (Some w)" using set_capacity_kind [OF assms] by simp
  have "ann_get (pv_annotations w) PVHostPathCapacityAnn = format_int size64" "pv_annotations w \<noteq> None"
    by (simp_all add: w ann_get_put_nil)
  with kind have "GetHostPathPVCapacity w = Inr size64"
    by (simp add: GetHostPathPVCapacity_def parse_format_int Let_def)
  moreover have "\<forall>k. k \<noteq> PVHostPathCapacityAnn \<longrightarrow> gget ?m k = (case pv_annotations v of None \<Rightarrow> None | Some old \<Rightarrow> gget old k)"
    by (simp add: gm.get_put split: option.split)
  ultimately show ?thesis using v set_capacity_kind [OF assms] by (intro conjI exI [of _ ?m] w) simp_all
qed

theorem capacity_roundtrip_witness:
  "GetHostPathPVCapacity (sample_pv [(PVHostPathCapacityAnn, ''25'')] 6) = Inr 25 \<and>
    IsKeepHostPathPV (Some (sample_pv [(PVHostPathCapacityAnn, ''25'')] 6)) = IsKeepHostPathPV (Some (sample_pv [] 6))"
proof -
  have "SetHostpathPVCapacity (sample_pv [] 6) 25 = Inr (sample_pv [(PVHostPathCapacityAnn, ''25'')] 6)"
    by (simp add: SetHostpathPVCapacity_def eval_defs format_int_def dec_digits.simps digit_char_def char_of_def bit_0)
  from capacity_roundtrip [OF this] show ?thesis by blast
qed

text \<open>
  Setting a capacity succeeds exactly for sizes of at least 10 and hostpath volumes; reading it fails exactly for a hostpath
  volume without the annotation and without declared storage.
\<close>

theorem capacity_errors:
  "((\<exists>w. SetHostpathPVCapacity v size64 = Inr w) \<longleftrightarrow> 10 \<le> ival size64 \<and> IsCommonHostPathPV (Some v)) \<and>
   ((\<exists>e. GetHostPathPVCapacity v = Inl e) \<longleftrightarrow> IsCommonHostPathPV (Some v) \<and>
     ann_get (pv_annotations v) PVHostPathCapacityAnn = [] \<and> gget (pv_capacity v) ResourceStorage = None)"
proof -
  have "pv_annotations v = None \<Longrightarrow> ann_get (pv_annotations v) k = []" for k
    by (simp add: ann_get_def)
  then show ?thesis
    by (auto simp: SetHostpathPVCapacity_def GetHostPathPVCapacity_def word_sless_ival Let_def
        split: option.splits)
qed

end
