(* ===== verification/Placement.thy ===== *)
theory Placement
  imports DiskPressure Accounting
begin

text \<open>
  The disk-pressure predicate from the annotations of the volumes to the disks: what it passes
  can be placed on the node's disks beside everything that is recorded or reserved there.
\<close>

section \<open>Placements up to the order of the disks\<close>

lemma fits_none: "fits [] hs \<longleftrightarrow> (\<forall>h \<in> set hs. 0 \<le> h)"
  by (auto simp: fits_def assignment_ok_def all_set_conv_all_nth)

lemma fits_first: "fits (r # rs) hs \<longleftrightarrow> (\<exists>j < length hs. fits rs (hs[j := hs ! j - r]))"
proof
  assume "fits (r # rs) hs"
  then obtain as where as: "assignment_ok as (r # rs) hs" by (auto simp: fits_def)
  then obtain a as' where c: "as = a # as'" by (cases as) (auto simp: assignment_ok_def)
  have "disk_load as' rs i \<le> hs[a := hs ! a - r] ! i" if "i < length hs" for i
    using as that by (cases "a = i") (auto simp: c assignment_ok_def)
  with as c have "a < length hs" "assignment_ok as' rs (hs[a := hs ! a - r])" by (auto simp: assignment_ok_def)
  then show "\<exists>j < length hs. fits rs (hs[j := hs ! j - r])" by (auto simp: fits_def)
next
  assume "\<exists>j < length hs. fits rs (hs[j := hs ! j - r])"
  then obtain j as where j: "j < length hs" "assignment_ok as rs (hs[j := hs ! j - r])" by (auto simp: fits_def)
  then have "disk_load (j # as) (r # rs) i \<le> hs ! i" if "i < length hs" for i
    using that by (auto simp: assignment_ok_def nth_list_update split: if_splits)
  with j have "assignment_ok (j # as) (r # rs) hs" by (auto simp: assignment_ok_def)
  then show "fits (r # rs) hs" by (auto simp: fits_def)
qed

lemma fits_perm:
  assumes "fits rs hs" and "mset hs = mset hs'"
  shows "fits rs hs'"
  using assms
proof (induction rs arbitrary: hs hs')
  case Nil
  then show ?case by (metis fits_none set_mset_mset)
next
  case (Cons r rs)
  then obtain j where j: "j < length hs" "fits rs (hs[j := hs ! j - r])" by (auto simp: fits_first)
  have "hs ! j \<in> set hs'" using j(1) Cons.prems(2) by (metis nth_mem set_mset_mset)
  then obtain j' where j': "j' < length hs'" "hs' ! j' = hs ! j" by (auto simp: in_set_conv_nth)
  have "mset (hs[j := hs ! j - r]) = mset (hs'[j' := hs' ! j' - r])"
    using j(1) j' Cons.prems(2) by (simp add: mset_update)
  from Cons.IH [OF j(2) this] j'(1) show ?case by (auto simp: fits_first)
qed

lemma disk_load_nonneg: "\<forall>r \<in> set rs. 0 \<le> r \<Longrightarrow> 0 \<le> disk_load as rs i"
  by (induction as rs i rule: disk_load.induct) auto

section \<open>What is claimed on a node\<close>

text \<open>
  The directories recorded for the node by the volumes, each path once, and the reservations;
  and the part of them that is charged to a disk.
\<close>

definition node_claims :: "codec \<Rightarrow> informers \<Rightarrow> string \<Rightarrow> pv list \<Rightarrow> mount_info list" where
  "node_claims cd ca n pvs =
     fresh_mounts {} (concat (map (recorded cd n) pvs)) @ concat (map (reserved cd n (podInfo ca)) pvs)"

definition quota_sum :: "mount_info list \<Rightarrow> int" where
  "quota_sum ms = sum_list (map (\<lambda>m. ival (mi_quota m)) ms)"

definition disk_claims :: "mount_info list \<Rightarrow> disk_quota_info list \<Rightarrow> nat \<Rightarrow> int" where
  "disk_claims ms infos i = quota_sum (filter (\<lambda>m. hits m (map dq_mount_path infos) i) ms)"

lemma quota_sum_mset: "mset ms = mset ms' \<Longrightarrow> quota_sum ms = quota_sum ms'"
  unfolding quota_sum_def by (metis mset_map sum_mset_sum_list)

lemma disk_claims_mset: "mset ms = mset ms' \<Longrightarrow> disk_claims ms infos i = disk_claims ms' infos i"
  unfolding disk_claims_def by (rule quota_sum_mset) simp

lemma quota_sum_filter:
  "\<forall>m \<in> set ms. 0 \<le> ival (mi_quota m) \<Longrightarrow> 0 \<le> quota_sum (filter P ms) \<and> quota_sum (filter P ms) \<le> quota_sum ms"
  by (induction ms) (auto simp: quota_sum_def)

text \<open>Without overflow, what is left of a disk in integers.\<close>

lemma disk_left:
  assumes "\<forall>m \<in> set ms. 0 \<le> ival (mi_quota m)" and "quota_sum ms < 2 ^ 63" and "i < length infos"
    and "0 \<le> ival (dq_allocable (infos ! i))"
  shows "ival (di_size (map clamp_disk (fold charge_disks ms (map disk_of_info infos)) ! i)) =
    max 0 (ival (dq_allocable (infos ! i)) - disk_claims ms infos i)"
proof -
  let ?ms = "filter (\<lambda>m. hits m (map dq_mount_path infos) i) ms"
  have paths: "map di_path (map disk_of_info infos) = map dq_mount_path infos"
    by (simp add: disk_of_info_def)
  have sum: "ival (wsum (map mi_quota ?ms)) = disk_claims ms infos i"
    using assms(1,2) quota_sum_filter [OF assms(1)] ival_wsum [of "map mi_quota ?ms"]
    by (auto simp: disk_claims_def quota_sum_def comp_def intro: le_less_trans)
  have raw: "di_size (fold charge_disks ms (map disk_of_info infos) ! i) =
      dq_allocable (infos ! i) - wsum (map mi_quota ?ms)"
    using assms(3) fold_charge_nth [of i "map disk_of_info infos" ms] unfolding paths
    by (simp add: disk_of_info_def)
  have "ival (dq_allocable (infos ! i) - wsum (map mi_quota ?ms)) =
      ival (dq_allocable (infos ! i)) - disk_claims ms infos i"
    using assms(2,4) quota_sum_filter [OF assms(1), of "\<lambda>m. hits m (map dq_mount_path infos) i"] ival_upper [of "dq_allocable (infos ! i)"]
    by (subst ival_diff) (simp_all add: sum, simp_all add: disk_claims_def)
  with assms(3) raw show ?thesis by (simp add: clamp_disk_def word_sless_ival)
qed

section \<open>No overcommitment\<close>

text \<open>
  C1 (safety). The predicate does not overcommit a disk: when it passes a node for a pod with
  new directories, they can be placed on the node's disks, each on one disk, such that on every
  disk that gets one the quotas of all directories recorded there by any volume (each path
  once), the reservations and the new directories together are within what the disk can
  allocate. The sizes, quotas and allocable sizes are not negative and their sums below \<open>2^63\<close>.
\<close>

theorem pressure_never_overcommits:
  assumes "pressure_PodMatchNode cd ca pd nd = Inr True"
    and "getPodHostpathOfNodeDiskInfos cd ca pd (node_name nd) = Inr (tot, req, has)"
    and "\<forall>x \<in> set (sizes req). 0 \<le> x" and "0 < sum_list (sizes req)" and "sum_list (sizes req) < 2 ^ 63"
    and "pvi_list (pvInfo ca) = Inr pvs" and "GetNodeDiskInfo cd nd = Inr infos"
    and "\<forall>d \<in> set infos. 0 \<le> ival (dq_allocable d)"
    and "\<forall>m \<in> set (node_claims cd ca (node_name nd) pvs). 0 \<le> ival (mi_quota m)"
    and "quota_sum (node_claims cd ca (node_name nd) pvs) < 2 ^ 63"
  shows "\<exists>as. length as = length req \<and> (\<forall>a \<in> set as. a < length infos) \<and>
    (\<forall>i < length infos. disk_load as (sizes req) i = 0 \<or>
       disk_claims (node_claims cd ca (node_name nd) pvs) infos i + disk_load as (sizes req) i
         \<le> ival (dq_allocable (infos ! i)))"
proof -
  obtain alloc disks where disks: "getNodeDiskInfos cd ca nd = Inr (alloc, disks)" and fit: "fits (sizes req) (sizes disks)"
    using pressure_sound_disks [OF assms(1-5)] by blast
  show ?thesis
  proof (rule getNodeDiskInfos_cases [OF disks])
    assume "disks = []"
    with fits_total [OF fit] assms(4) show ?thesis by (simp add: sizes_def)
  next
    fix infos' nmi ret
    assume i': "GetNodeDiskInfo cd nd = Inr infos'"
      and nmi: "GetNodeHostPathPVMountInfo cd (node_name nd) (pvInfo ca) (podInfo ca) = Inr nmi"
      and ret: "ret = map clamp_disk (fold charge_disks (hm_mounts nmi) (map disk_of_info infos'))"
      and ds: "disks = sort_disks ret"
    from i' assms(7) have infos': "infos' = infos" by simp
    have same: "mset (hm_mounts nmi) = mset (node_claims cd ca (node_name nd) pvs)"
      using node_charges_mset(2) [OF nmi assms(6)] by (simp add: node_claims_def)
    then have set: "set (hm_mounts nmi) = set (node_claims cd ca (node_name nd) pvs)" by (metis set_mset_mset)
    have "fits (sizes req) (sizes ret)"
      using fit by (rule fits_perm) (simp add: ds sizes_sort)
    then obtain as where as: "length as = length req" "\<forall>a \<in> set as. a < length ret"
      "\<forall>i < length ret. disk_load as (sizes req) i \<le> ival (di_size (ret ! i))"
      by (auto simp: fits_def assignment_ok_def sizes_def)
    have len: "length ret = length infos" by (simp add: ret infos')
    have left: "ival (di_size (ret ! i)) = max 0 (ival (dq_allocable (infos ! i)) -
        disk_claims (node_claims cd ca (node_name nd) pvs) infos i)" if "i < length infos" for i
      using disk_left [of "hm_mounts nmi" i infos] that assms(8-10) same set
      by (simp add: ret infos' quota_sum_mset [OF same] disk_claims_mset [OF same])
    have "disk_load as (sizes req) i = 0 \<or>
       disk_claims (node_claims cd ca (node_name nd) pvs) infos i + disk_load as (sizes req) i
         \<le> ival (dq_allocable (infos ! i))" if "i < length infos" for i
      using as(3) that left [OF that] disk_load_nonneg [OF assms(3), of as i] len by force
    with as len show ?thesis by auto
  qed
qed

text \<open>A second pod on a node where the first one holds a directory of the volume.\<close>

definition sample_busy :: informers where
  "sample_busy = sample_caches (sample_pv [(PVVolumeHostPathMountNode, ''m1'')] 6) [sample_pod ''p1'' ''n1'']"

lemma sample_busy_facts:
  "pressure_PodMatchNode sample_codec sample_busy (sample_pod ''p2'' []) (sample_node ''n1'') = Inr True"
  "getPodHostpathOfNodeDiskInfos sample_codec sample_busy (sample_pod ''p2'' []) (node_name (sample_node ''n1'')) =
     Inr (6, [\<lparr>di_path = [], di_size = 6, di_disabled = False\<rparr>], True)"
  "pvi_list (pvInfo sample_busy) = Inr [sample_pv [(PVVolumeHostPathMountNode, ''m1'')] 6]"
  "GetNodeDiskInfo sample_codec (sample_node ''n1'') = Inr [sample_disk ''/d1'' 10, sample_disk ''/d2'' 20]"
  "node_claims sample_codec sample_busy (node_name (sample_node ''n1'')) [sample_pv [(PVVolumeHostPathMountNode, ''m1'')] 6] =
     [sample_mount ''/d1/a'' 4]"
  by code_simp+

lemma pressure_never_overcommits_witness:
  "\<exists>as. length as = 1 \<and> (\<forall>a \<in> set as. a < 2) \<and>
    (disk_load as [6] 0 = 0 \<or> 4 + disk_load as [6] 0 \<le> 10) \<and> (disk_load as [6] 1 = 0 \<or> disk_load as [6] 1 \<le> 20)"
proof -
  let ?infos = "[sample_disk ''/d1'' 10, sample_disk ''/d2'' 20]"
  have claims: "disk_claims [sample_mount ''/d1/a'' 4] ?infos 0 = 4" "disk_claims [sample_mount ''/d1/a'' 4] ?infos 1 = 0"
    by (simp_all add: disk_claims_def quota_sum_def sample_mount_def sample_disk_def hits_def)
  have "\<exists>as. length as = length [\<lparr>di_path = [], di_size = 6 :: int64, di_disabled = False\<rparr>] \<and>
    (\<forall>a \<in> set as. a < length ?infos) \<and>
    (\<forall>i < length ?infos. disk_load as (sizes [\<lparr>di_path = [], di_size = 6, di_disabled = False\<rparr>]) i = 0 \<or>
       disk_claims [sample_mount ''/d1/a'' 4] ?infos i + disk_load as (sizes [\<lparr>di_path = [], di_size = 6, di_disabled = False\<rparr>]) i
         \<le> ival (dq_allocable (?infos ! i)))"
    using pressure_never_overcommits [OF sample_busy_facts(1,2) _ _ _ sample_busy_facts(3,4)]
    unfolding sample_busy_facts(5)
    by (simp add: quota_sum_def sample_mount_def sample_disk_def)
  then obtain as where as: "length as = 1" "\<forall>a \<in> set as. a < 2"
    "\<forall>i < 2. disk_load as [6] i = 0 \<or> disk_claims [sample_mount ''/d1/a'' 4] ?infos i + disk_load as [6] i \<le> ival (dq_allocable (?infos ! i))"
    by (auto simp: numeral_2_eq_2)
  from as(3) have "disk_load as [6] 0 = 0 \<or> 4 + disk_load as [6] 0 \<le> 10" "disk_load as [6] 1 = 0 \<or> disk_load as [6] 1 \<le> 20"
    using claims by (auto simp: sample_disk_def dest: spec [of _ 0] spec [of _ 1])
  with as(1,2) show ?thesis by blast
qed

end
