(* ===== verification/Packing.thy ===== *)
theory Packing
  imports Placement
begin

text \<open>
  Placements of directories on disks (\<open>fits\<close>) as a packing: the order of the requests does not
  matter, fewer requests fit as well, and requests that fit beside a load charged to every disk
  fit together with that load.
\<close>

lemma fits_swap:
  assumes "fits (r # s # rs) hs"
  shows "fits (s # r # rs) hs"
proof -
  from assms obtain i j where i: "i < length hs" and j: "j < length hs"
    and rest: "fits rs (hs[i := hs ! i - r, j := hs[i := hs ! i - r] ! j - s])"
    by (auto simp: fits_first)
  have "hs[i := hs ! i - r, j := hs[i := hs ! i - r] ! j - s] =
      hs[j := hs ! j - s, i := hs[j := hs ! j - s] ! i - r]"
    using i j by (cases "i = j") (simp_all add: list_update_swap algebra_simps)
  with i j rest show ?thesis by (auto simp: fits_first)
qed

lemma fits_to_front: "fits (as @ r # bs) hs \<Longrightarrow> fits (r # as @ bs) hs"
proof (induction as arbitrary: hs)
  case (Cons a as)
  from Cons.prems obtain j where "j < length hs" "fits (r # as @ bs) (hs[j := hs ! j - a])"
    by (auto simp: fits_first [of a] dest: Cons.IH)
  then have "fits (a # r # as @ bs) hs" by (auto simp only: fits_first [of a])
  from fits_swap [OF this] show ?case by simp
qed simp

lemma fits_reorder:
  assumes "fits rs hs" and "mset rs = mset rs'"
  shows "fits rs' hs"
  using assms
proof (induction rs' arbitrary: rs hs)
  case (Cons r rs')
  then have "r \<in> set rs" by (metis list.set_intros(1) set_mset_mset)
  then obtain as bs where rs: "rs = as @ r # bs" by (auto dest: split_list)
  with Cons.prems have "fits (r # as @ bs) hs" "mset (as @ bs) = mset rs'" by (auto intro: fits_to_front)
  with Cons.IH show ?case by (auto simp: fits_first)
qed simp

lemma fits_room: "fits rs hs \<Longrightarrow> \<forall>r \<in> set rs. 0 \<le> r \<Longrightarrow> \<forall>h \<in> set hs. 0 \<le> h"
proof -
  assume "fits rs hs" and pos: "\<forall>r \<in> set rs. 0 \<le> r"
  then obtain as where "assignment_ok as rs hs" by (auto simp: fits_def)
  then have "0 \<le> hs ! j" if "j < length hs" for j
    using that disk_load_nonneg [OF pos, of as j] by (auto simp: assignment_ok_def intro: order_trans)
  then show ?thesis by (auto simp: in_set_conv_nth)
qed

lemma fits_more_room: "fits rs hs \<Longrightarrow> length hs = length hs' \<Longrightarrow> \<forall>i < length hs. hs ! i \<le> hs' ! i \<Longrightarrow> fits rs hs'"
  unfolding fits_def assignment_ok_def by (metis order_trans)

lemma fits_drop: "fits (r # rs) hs \<Longrightarrow> 0 \<le> r \<Longrightarrow> fits rs hs"
proof -
  assume "fits (r # rs) hs" and r: "0 \<le> r"
  then obtain j where "j < length hs" "fits rs (hs[j := hs ! j - r])" by (auto simp: fits_first)
  moreover have "hs[j := hs ! j - r] ! i \<le> hs ! i" if "i < length hs" for i
    using r that by (cases "i = j") simp_all
  ultimately show ?thesis using fits_more_room [of rs "hs[j := hs ! j - r]" hs] by simp
qed

lemma fits_fewer:
  assumes "fits rs hs" and "mset rs' \<subseteq># mset rs" and "\<forall>r \<in> set rs. 0 \<le> r"
  shows "fits rs' hs"
proof -
  obtain zs where zs: "mset zs = mset rs - mset rs'" using ex_mset by blast
  with assms(2) have perm: "mset rs = mset (zs @ rs')" by simp
  have "set zs \<subseteq> set rs" using perm by (metis Un_upper1 set_append set_mset_mset)
  with assms(3) have "\<forall>z \<in> set zs. 0 \<le> z" by auto
  moreover from fits_reorder [OF assms(1) perm] have "fits (zs @ rs') hs" .
  ultimately show ?thesis by (induction zs) (auto dest: fits_drop)
qed

text \<open>Loads under longer assignments.\<close>

lemma disk_load_append:
  "length as = length rs \<Longrightarrow> disk_load (as @ bs) (rs @ ss) j = disk_load as rs j + disk_load bs ss j"
  by (induction as rs rule: list_induct2) auto

lemma disk_load_same: "disk_load (replicate (length rs) a) rs j = (if a = j then sum_list rs else 0)"
  by (induction rs) auto

lemma disk_load_member:
  assumes "length as = length rs" and "a \<in> set as" and "\<forall>r \<in> set rs. 0 < r"
  shows "0 < disk_load as rs a"
  using assms
proof (induction as rs rule: list_induct2)
  case (Cons x xs y ys)
  then have "\<forall>r \<in> set ys. 0 \<le> r" by auto
  from disk_load_nonneg [OF this, of xs a] Cons show ?case by fastforce
qed simp

lemma fits_beside:
  assumes "fits rs (map (\<lambda>h. max 0 (h - sum_list os)) hs)" and "rs \<noteq> []" and "\<forall>r \<in> set rs. 0 < r"
    and "\<forall>h \<in> set hs. 0 \<le> h" and "\<forall>r \<in> set os. 0 \<le> r"
  shows "fits (rs @ os) hs"
proof -
  from assms(1) obtain as where as: "length as = length rs" "\<forall>a \<in> set as. a < length hs"
    "\<forall>j < length hs. disk_load as rs j \<le> max 0 (hs ! j - sum_list os)"
    by (auto simp: fits_def assignment_ok_def)
  with assms(2) obtain a as' where a: "as = a # as'" by (cases as) auto
  have "disk_load (as @ replicate (length os) a) (rs @ os) j \<le> hs ! j" if j: "j < length hs" for j
  proof (cases "a = j")
    case True
    have "0 < disk_load as rs j" using disk_load_member [OF as(1) _ assms(3), of j] True a by simp
    moreover have "disk_load as rs j \<le> max 0 (hs ! j - sum_list os)" using as(3) j by blast
    ultimately show ?thesis by (simp add: disk_load_append [OF as(1)] disk_load_same True)
  next
    case False
    have "max 0 (hs ! j - sum_list os) \<le> hs ! j"
      using assms(4) j sum_list_nonneg [of os] assms(5) by (auto simp: max_def)
    then have "disk_load as rs j \<le> hs ! j" using as(3) j by (blast intro: order_trans)
    then show ?thesis using False by (simp add: disk_load_append [OF as(1)] disk_load_same)
  qed
  with as a have "assignment_ok (as @ replicate (length os) a) (rs @ os) hs" by (auto simp: assignment_ok_def)
  then show ?thesis by (auto simp: fits_def)
qed

end
