(* ===== verification/Binding.thy ===== *)
theory Binding
  imports Packing
begin

text \<open>
  The disk-pressure predicate over time: pods are bound to a node one after the other, each when the
  predicate passed it with the pods bound before in the cache, and leave again.  How many
  directories the pods of the node still lack is counted here without the code's reservations.
\<close>

section \<open>Pods and the directories they lack\<close>

definition with_pods :: "informers \<Rightarrow> pod list \<Rightarrow> informers" where
  "with_pods ca pods = ca\<lparr>podInfo := (podInfo ca)\<lparr>pl_list := Inr pods\<rparr>\<rparr>"

lemma with_pods_simps [simp]:
  "pvInfo (with_pods ca pods) = pvInfo ca" "pvcInfo (with_pods ca pods) = pvcInfo ca"
  "pl_list (podInfo (with_pods ca pods)) = Inr pods"
  by (simp_all add: with_pods_def)

definition uses_pv :: "pod \<Rightarrow> pv \<Rightarrow> bool" where
  "uses_pv p v \<longleftrightarrow> (case pv_claim_ref v of None \<Rightarrow> False | Some r \<Rightarrow> isPodUsePVC p (ref_namespace r) (ref_name r))"

definition users :: "string \<Rightarrow> pv \<Rightarrow> pod list \<Rightarrow> pod list" where
  "users n v pods = filter (\<lambda>p. pod_node p = n \<and> uses_pv p v \<and> isPodReady p) pods"

text \<open>
  A volume for one pod lacks a directory for each user beyond the recorded ones; a shared volume
  lacks its one directory when it has users and none is recorded.
\<close>

definition lacking :: "codec \<Rightarrow> string \<Rightarrow> pod list \<Rightarrow> pv \<Rightarrow> nat" where
  "lacking cd n pods v =
     (if \<not> IsCommonHostPathPV (Some v) then 0
      else if IsSharedHostPathPV (Some v) then (if recorded cd n v = [] \<and> users n v pods \<noteq> [] then 1 else 0)
      else length (users n v pods) - length (recorded cd n v))"

definition owed :: "codec \<Rightarrow> string \<Rightarrow> pv list \<Rightarrow> pod list \<Rightarrow> int list" where
  "owed cd n pvs pods = concat (map (\<lambda>v. replicate (lacking cd n pods v) (ival (capacity_or_zero v))) pvs)"

text \<open>What the recorded directories leave of the disks.\<close>

definition room :: "codec \<Rightarrow> string \<Rightarrow> pv list \<Rightarrow> disk_quota_info list \<Rightarrow> int list" where
  "room cd n pvs infos =
     map (\<lambda>i. ival (dq_allocable (infos ! i)) - disk_claims (fresh_mounts {} (concat (map (recorded cd n) pvs))) infos i)
       [0..<length infos]"

text \<open>
  The node and the volumes between two updates of the records: every claimed volume is the one its
  claim is bound to, and sizes are sensible.
\<close>

definition cluster_ok :: "codec \<Rightarrow> informers \<Rightarrow> node \<Rightarrow> pv list \<Rightarrow> disk_quota_info list \<Rightarrow> bool" where
  "cluster_ok cd ca nd pvs infos \<longleftrightarrow>
     pvi_list (pvInfo ca) = Inr pvs \<and> distinct pvs \<and> GetNodeDiskInfo cd nd = Inr infos \<and> node_name nd \<noteq> [] \<and>
     (\<forall>d \<in> set infos. dq_mount_path d \<noteq> [] \<and> 0 \<le> ival (dq_allocable d)) \<and>
     (\<forall>x v. pvi_get (pvInfo ca) x = Inr (Some v) \<longrightarrow> v \<in> set pvs) \<and>
     (\<forall>v \<in> set pvs. (\<forall>m \<in> set (recorded cd (node_name nd) v). 0 \<le> ival (mi_quota m)) \<and>
       (IsCommonHostPathPV (Some v) \<longrightarrow> 0 < ival (capacity_or_zero v) \<and>
         (\<forall>r. pv_claim_ref v = Some r \<longrightarrow>
           (\<exists>claim. pvcInfo ca (ref_namespace r) (ref_name r) = Inr (Some claim) \<and> pvc_phase claim = ClaimBound \<and>
             pvc_volume claim \<noteq> [] \<and> pvi_get (pvInfo ca) (pvc_volume claim) = Inr (Some v)))))"

text \<open>
  What the code needs to see the users of a volume: a record of the node and, when the volume is
  shared, a directory in it.  In the states below no other volume has users on the node.
\<close>

definition on_record :: "codec \<Rightarrow> string \<Rightarrow> pv \<Rightarrow> bool" where
  "on_record cd n v \<longleftrightarrow> (if IsSharedHostPathPV (Some v) then recorded cd n v \<noteq> [] else node_record cd n v \<noteq> None)"

definition users_on_record :: "codec \<Rightarrow> string \<Rightarrow> pv list \<Rightarrow> pod list \<Rightarrow> bool" where
  "users_on_record cd n pvs pods \<longleftrightarrow>
     (\<forall>v \<in> set pvs. IsCommonHostPathPV (Some v) \<longrightarrow> users n v pods \<noteq> [] \<longrightarrow> on_record cd n v)"

definition asks_on_record :: "codec \<Rightarrow> string \<Rightarrow> pv list \<Rightarrow> pod \<Rightarrow> bool" where
  "asks_on_record cd n pvs q \<longleftrightarrow>
     (\<forall>v \<in> set pvs. IsCommonHostPathPV (Some v) \<longrightarrow> uses_pv q v \<longrightarrow> on_record cd n v)"

definition pod_id :: "pod \<Rightarrow> string \<times> string" where
  "pod_id p = (pod_namespace p, pod_name p)"

lemma users_filter:
  assumes "pl_list c = Inr pods" and "pv_claim_ref v = Some r" and "n \<noteq> []"
  shows "FilterByNodeAndPVC c n (ref_namespace r) (ref_name r) False = Inr (users n v pods)"
  using assms by (simp add: FilterByNodeAndPVC_ok users_def uses_pv_def)

lemma users_distinct:
  assumes "distinct (map pod_id pods)" and "pv_claim_ref v = Some r"
  shows "card (pod_name ` set (users n v pods)) = length (users n v pods)"
proof -
  have ns: "\<forall>p \<in> set (users n v pods). pod_namespace p = ref_namespace r"
    using assms(2) by (auto simp: users_def uses_pv_def isPodUsePVC_iff)
  have "distinct (map pod_id (users n v pods))"
    using assms(1) unfolding users_def by (rule distinct_map_filter)
  then have "distinct (map pod_name (users n v pods))"
    using ns by (auto simp: distinct_map inj_on_def pod_id_def)
  then show ?thesis by (metis distinct_card length_map set_map)
qed

text \<open>Here the code's reservations are the directories that the pods lack.\<close>

lemma reserved_lacking:
  assumes "cluster_ok cd ca nd pvs infos" and "v \<in> set pvs" and "distinct (map pod_id pods)"
    and "users_on_record cd (node_name nd) pvs pods"
  shows "reserved cd (node_name nd) (podInfo (with_pods ca pods)) v =
    replicate (lacking cd (node_name nd) pods v) (pending_mount (capacity_or_zero v))"
proof (cases "node_record cd (node_name nd) v")
  case None
  then have "\<not> on_record cd (node_name nd) v" by (simp add: on_record_def recorded_def)
  with assms(2,4) have "IsCommonHostPathPV (Some v) \<Longrightarrow> users (node_name nd) v pods = []"
    unfolding users_on_record_def by blast
  with None show ?thesis by (simp add: reserved_def lacking_def)
next
  case (Some info)
  then have common: "IsCommonHostPathPV (Some v)" by (simp add: node_record_def split: if_splits)
  have rec: "recorded cd (node_name nd) v = hm_mounts info" by (simp add: recorded_def Some)
  show ?thesis
  proof (cases "pv_claim_ref v")
    case None
    then have "used_pods_or_empty v (podInfo (with_pods ca pods)) (node_name nd) = []" "users (node_name nd) v pods = []"
      by (simp_all add: used_pods_or_empty_def GetHostPathPVUsedPodMap_def users_def uses_pv_def)
    with Some show ?thesis by (simp add: reserved_def pending_mounts_def lacking_def)
  next
    case r: (Some r)
    have n: "node_name nd \<noteq> []" using assms(1) by (simp add: cluster_ok_def)
    obtain m where m: "GetHostPathPVUsedPodMap v (podInfo (with_pods ca pods)) (node_name nd) = Inr m"
      using r users_filter [OF _ r n, of "podInfo (with_pods ca pods)" pods] by (simp add: GetHostPathPVUsedPodMap_def)
    have len: "length m = length (users (node_name nd) v pods)"
      using used_pods_length [OF r users_filter [OF _ r n] m] users_distinct [OF assms(3) r] by simp
    then have "m = [] \<longleftrightarrow> users (node_name nd) v pods = []" by (metis length_0_conv)
    with len show ?thesis
      by (simp add: reserved_def used_pods_or_empty_def pending_mounts_def lacking_def Some common rec m)
  qed
qed

text \<open>So the claims on a disk are the recorded directories and all directories that are lacking.\<close>

lemma disk_claims_append: "disk_claims (ms @ ms') infos i = disk_claims ms infos i + disk_claims ms' infos i"
  by (simp add: disk_claims_def quota_sum_def)

lemma pending_hits:
  assumes "\<forall>d \<in> set infos. dq_mount_path d \<noteq> []" and "i < length infos"
  shows "hits (pending_mount c) (map dq_mount_path infos) i"
  using assms by (simp add: hits_def pending_mount_def)

lemma fresh_subset: "set (fresh_mounts S ms) \<subseteq> set ms"
  by (induction S ms rule: fresh_mounts.induct) auto

lemma claims_owed:
  assumes "cluster_ok cd ca nd pvs infos" and "distinct (map pod_id pods)" and "users_on_record cd (node_name nd) pvs pods"
  shows "i < length infos \<Longrightarrow> disk_claims (node_claims cd (with_pods ca pods) (node_name nd) pvs) infos i =
      disk_claims (fresh_mounts {} (concat (map (recorded cd (node_name nd)) pvs))) infos i + sum_list (owed cd (node_name nd) pvs pods)"
    and "\<forall>m \<in> set (node_claims cd (with_pods ca pods) (node_name nd) pvs). 0 \<le> ival (mi_quota m)"
proof -
  let ?n = "node_name nd" and ?r = "reserved cd (node_name nd) (podInfo (with_pods ca pods))"
  have res: "map ?r vs = map (\<lambda>v. replicate (lacking cd ?n pods v) (pending_mount (capacity_or_zero v))) vs"
    if "set vs \<subseteq> set pvs" for vs
    using reserved_lacking [OF assms(1) _ assms(2,3)] that by auto
  have paths: "\<forall>d \<in> set infos. dq_mount_path d \<noteq> []" using assms(1) by (simp add: cluster_ok_def)
  have sum: "disk_claims (concat (map ?r vs)) infos i = sum_list (owed cd ?n vs pods)"
    if "set vs \<subseteq> set pvs" "i < length infos" for vs i
    unfolding res [OF that(1)] using pending_hits [OF paths that(2)]
    by (induction vs) (simp_all add: owed_def disk_claims_def quota_sum_def filter_replicate sum_list_replicate pending_mount_def)
  then show "i < length infos \<Longrightarrow> disk_claims (node_claims cd (with_pods ca pods) ?n pvs) infos i =
      disk_claims (fresh_mounts {} (concat (map (recorded cd ?n) pvs))) infos i + sum_list (owed cd ?n pvs pods)"
    by (simp add: node_claims_def disk_claims_append)
  have "0 \<le> ival (mi_quota m)" if "m \<in> set (concat (map ?r pvs))" for m
    using that assms(1) unfolding res [OF subset_refl]
    by (auto simp: pending_mount_def lacking_def cluster_ok_def split: if_splits)
  moreover have "0 \<le> ival (mi_quota m)" if "m \<in> set (fresh_mounts {} (concat (map (recorded cd ?n) pvs)))" for m
    using that assms(1) fresh_subset [of "{}" "concat (map (recorded cd ?n) pvs)"] by (auto simp: cluster_ok_def)
  ultimately show "\<forall>m \<in> set (node_claims cd (with_pods ca pods) ?n pvs). 0 \<le> ival (mi_quota m)"
    by (auto simp: node_claims_def)
qed

section \<open>The request of a pod\<close>

lemma requested_volumes:
  "pod_disks_loop cd ca pd n i vols st = Inr (t, l, h) \<Longrightarrow>
   \<exists>L. map di_size l = map di_size (fst (snd st)) @ map capacity_or_zero L \<and>
     (\<forall>v \<in> set L. IsCommonHostPathPV (Some v) \<and> (\<exists>vol \<in> set vols. GetPodVolumePV pd vol (pvInfo ca) (pvcInfo ca) = Inr (Some v))) \<and>
     (\<forall>vol \<in> set vols. \<forall>v. GetPodVolumePV pd vol (pvInfo ca) (pvcInfo ca) = Inr (Some v) \<longrightarrow> IsCommonHostPathPV (Some v) \<longrightarrow>
       IsHostPathPVHasEmptyItemForNode cd v n (podInfo ca) = Inr False \<longrightarrow> v \<in> set L)"
proof (induction cd ca pd n i vols st rule: pod_disks_loop.induct)
  case (1 cd ca pd n i st)
  then show ?case by (intro exI [of _ "[]"]) auto
next
  case (2 cd ca pd n i vol vols tot list has)
  let ?pv = "GetPodVolumePV pd vol (pvInfo ca) (pvcInfo ca)"
  show ?case
  proof (cases "\<exists>v. ?pv = Inr (Some v) \<and> IsCommonHostPathPV (Some v) \<and> IsHostPathPVHasEmptyItemForNode cd v n (podInfo ca) = Inr False")
    case True
    then obtain v where v: "?pv = Inr (Some v)" "IsCommonHostPathPV (Some v)"
      "IsHostPathPVHasEmptyItemForNode cd v n (podInfo ca) = Inr False" by blast
    with 2(4) [OF v(1) refl _ v(3)] 2(5) obtain L where
      "map di_size l = map di_size list @ capacity_or_zero v # map capacity_or_zero L"
      "\<forall>v \<in> set L. IsCommonHostPathPV (Some v) \<and> (\<exists>vol \<in> set vols. GetPodVolumePV pd vol (pvInfo ca) (pvcInfo ca) = Inr (Some v))"
      "\<forall>vol \<in> set vols. \<forall>v. GetPodVolumePV pd vol (pvInfo ca) (pvcInfo ca) = Inr (Some v) \<longrightarrow> IsCommonHostPathPV (Some v) \<longrightarrow>
         IsHostPathPVHasEmptyItemForNode cd v n (podInfo ca) = Inr False \<longrightarrow> v \<in> set L"
      by auto
    with v show ?thesis by (intro exI [of _ "v # L"]) auto
  next
    case False
    then have "\<exists>h'. pod_disks_loop cd ca pd n (Suc i) vols (tot, list, h') = Inr (t, l, h)"
      using 2(5) by (auto split: sum.splits option.splits if_splits)
    moreover have "\<exists>L. map di_size l = map di_size list @ map capacity_or_zero L \<and>
       (\<forall>v \<in> set L. IsCommonHostPathPV (Some v) \<and> (\<exists>vol \<in> set vols. GetPodVolumePV pd vol (pvInfo ca) (pvcInfo ca) = Inr (Some v))) \<and>
       (\<forall>vol \<in> set vols. \<forall>v. GetPodVolumePV pd vol (pvInfo ca) (pvcInfo ca) = Inr (Some v) \<longrightarrow> IsCommonHostPathPV (Some v) \<longrightarrow>
         IsHostPathPVHasEmptyItemForNode cd v n (podInfo ca) = Inr False \<longrightarrow> v \<in> set L)"
      using 2(1-3,5) False by (fastforce split: sum.splits option.splits if_splits)
    ultimately show ?thesis using False by (elim exE conjE) (intro exI conjI; auto)
  qed
qed

lemma volume_of_cache: "GetPodVolumePV pd vol pvI pvcI = Inr (Some v) \<Longrightarrow> \<exists>x. pvi_get pvI x = Inr (Some v)"
  by (auto simp: GetPodVolumePV_def split: option.splits sum.splits if_splits)

lemma cluster_volume:
  "cluster_ok cd ca nd pvs infos \<Longrightarrow> GetPodVolumePV pd vol (pvInfo ca) (pvcInfo ca) = Inr (Some v) \<Longrightarrow> v \<in> set pvs"
  unfolding cluster_ok_def by (blast dest: volume_of_cache)

section \<open>Binding\<close>

text \<open>The volumes for which a pod, once it runs on the node, lacks a directory more than before.\<close>

definition newly_lacking :: "codec \<Rightarrow> string \<Rightarrow> pod list \<Rightarrow> pod \<Rightarrow> pv \<Rightarrow> bool" where
  "newly_lacking cd n pods q v \<longleftrightarrow> IsCommonHostPathPV (Some v) \<and> uses_pv q v \<and> isPodReady q \<and>
     (if IsSharedHostPathPV (Some v) then recorded cd n v = [] \<and> users n v pods = []
      else length (recorded cd n v) \<le> length (users n v pods))"

lemma bound_pod [simp]:
  "uses_pv (q\<lparr>pod_node := n\<rparr>) v = uses_pv q v" "isPodReady (q\<lparr>pod_node := n\<rparr>) = isPodReady q"
  by (simp_all add: uses_pv_def isPodUsePVC_def isPodReady_def cong: option.case_cong)

lemma users_bound:
  assumes "pod_node q = []" and "n \<noteq> []"
  shows "length (users n v (xs @ q\<lparr>pod_node := n\<rparr> # ys)) =
    length (users n v (xs @ q # ys)) + (if uses_pv q v \<and> isPodReady q then 1 else 0)"
  using assms by (simp add: users_def)

lemma lacking_bound:
  assumes "pod_node q = []" and "n \<noteq> []"
  shows "lacking cd n (xs @ q\<lparr>pod_node := n\<rparr> # ys) v =
    lacking cd n (xs @ q # ys) v + (if newly_lacking cd n (xs @ q # ys) q v then 1 else 0)"
proof (cases "IsSharedHostPathPV (Some v)")
  case True
  have "users n v (xs @ q\<lparr>pod_node := n\<rparr> # ys) = [] \<longleftrightarrow> users n v (xs @ q # ys) = [] \<and> \<not> (uses_pv q v \<and> isPodReady q)"
    using assms by (auto simp: users_def)
  with True show ?thesis unfolding lacking_def newly_lacking_def by simp blast
next
  case False
  then show ?thesis by (auto simp: lacking_def newly_lacking_def users_bound [OF assms] Suc_diff_le)
qed

lemma owed_bound:
  assumes "pod_node q = []" and "n \<noteq> []"
  shows "mset (owed cd n pvs (xs @ q\<lparr>pod_node := n\<rparr> # ys)) = mset (owed cd n pvs (xs @ q # ys)) +
    mset (map (\<lambda>v. ival (capacity_or_zero v)) (filter (newly_lacking cd n (xs @ q # ys) q) pvs))"
  by (induction pvs) (simp_all add: owed_def lacking_bound [OF assms])

text \<open>The predicate requests a directory for each of them.\<close>

lemma newly_lacking_requested:
  assumes "cluster_ok cd ca nd pvs infos" and "v \<in> set pvs" and "newly_lacking cd (node_name nd) pods q v"
    and "asks_on_record cd (node_name nd) pvs q"
  shows "\<exists>vol \<in> set (pod_volumes q). GetPodVolumePV q vol (pvInfo ca) (pvcInfo ca) = Inr (Some v)"
    and "IsHostPathPVHasEmptyItemForNode cd v (node_name nd) (podInfo (with_pods ca pods)) = Inr False"
proof -
  obtain r where r: "pv_claim_ref v = Some r" and use: "isPodUsePVC q (ref_namespace r) (ref_name r)"
    using assms(3) by (auto simp: newly_lacking_def uses_pv_def split: option.splits)
  then obtain vol where vol: "vol \<in> set (pod_volumes q)" "vol_claim vol = Some (ref_name r)" "pod_namespace q = ref_namespace r"
    by (auto simp: isPodUsePVC_iff)
  have rec: "on_record cd (node_name nd) v"
    using assms(2-4) by (auto simp: newly_lacking_def asks_on_record_def)
  then have common: "IsCommonHostPathPV (Some v)" "\<not> IsSharedHostPathPV (Some v)" "node_record cd (node_name nd) v \<noteq> None"
    using assms(3) by (auto simp: newly_lacking_def on_record_def split: if_splits)
  then obtain claim where "pvcInfo ca (ref_namespace r) (ref_name r) = Inr (Some claim)" "pvc_phase claim = ClaimBound"
    "pvc_volume claim \<noteq> []" "pvi_get (pvInfo ca) (pvc_volume claim) = Inr (Some v)"
    using assms(1,2) r unfolding cluster_ok_def by blast
  with vol show "\<exists>vol \<in> set (pod_volumes q). GetPodVolumePV q vol (pvInfo ca) (pvcInfo ca) = Inr (Some v)"
    by (intro bexI [of _ vol]) (simp_all add: GetPodVolumePV_def)
  have n: "node_name nd \<noteq> []" using assms(1) by (simp add: cluster_ok_def)
  obtain info where info: "node_record cd (node_name nd) v = Some info" using common(3) by blast
  then obtain "is" where ms: "GetHostPathPVMountInfoList cd v = Inr is" "find_node is (node_name nd) = Some info"
    using common by (auto simp: node_record_def split: sum.splits)
  have "hm_mounts info = recorded cd (node_name nd) v" by (simp add: recorded_def info)
  with assms(3) common ms users_filter [OF _ r n, of "podInfo (with_pods ca pods)" pods] r
  show "IsHostPathPVHasEmptyItemForNode cd v (node_name nd) (podInfo (with_pods ca pods)) = Inr False"
    by (cases "is") (auto simp: IsHostPathPVHasEmptyItemForNode_def newly_lacking_def)
qed

text \<open>What the predicate sees of the disks is the room less all directories that are lacking.\<close>

lemma seen_disks:
  assumes "cluster_ok cd ca nd pvs infos" and "distinct (map pod_id pods)"
    and "getNodeDiskInfos cd (with_pods ca pods) nd = Inr (alloc, disks)"
    and "quota_sum (node_claims cd (with_pods ca pods) (node_name nd) pvs) < 2 ^ 63"
    and "users_on_record cd (node_name nd) pvs pods"
  shows "infos = [] \<and> disks = [] \<or> mset (sizes disks) =
    mset (map (\<lambda>h. max 0 (h - sum_list (owed cd (node_name nd) pvs pods))) (room cd (node_name nd) pvs infos))"
  using assms(3)
proof (rule getNodeDiskInfos_cases)
  assume "GetNodeDiskInfo cd nd = Inr []" "disks = []"
  with assms(1) show ?thesis by (simp add: cluster_ok_def)
next
  let ?n = "node_name nd" and ?claims = "node_claims cd (with_pods ca pods) (node_name nd) pvs"
  fix infos' nmi ret
  assume i': "GetNodeDiskInfo cd nd = Inr infos'"
    and nmi: "GetNodeHostPathPVMountInfo cd ?n (pvInfo (with_pods ca pods)) (podInfo (with_pods ca pods)) = Inr nmi"
    and ret: "ret = map clamp_disk (fold charge_disks (hm_mounts nmi) (map disk_of_info infos'))" and ds: "disks = sort_disks ret"
  from i' assms(1) have infos': "infos' = infos" by (simp add: cluster_ok_def)
  have pvs: "pvi_list (pvInfo (with_pods ca pods)) = Inr pvs" using assms(1) by (simp add: cluster_ok_def)
  have same: "mset (hm_mounts nmi) = mset ?claims"
    using node_charges_mset(2) [OF nmi pvs] by (simp add: node_claims_def)
  then have set: "set (hm_mounts nmi) = set ?claims" by (metis set_mset_mset)
  have "ival (di_size (ret ! i)) = max 0 (ival (dq_allocable (infos ! i)) - disk_claims ?claims infos i)"
    if "i < length infos" for i
    using disk_left [of "hm_mounts nmi" i infos] that assms(1,4) claims_owed(2) [OF assms(1,2,5)] set
    by (simp add: ret infos' quota_sum_mset [OF same] disk_claims_mset [OF same] cluster_ok_def)
  then have "sizes ret = map (\<lambda>h. max 0 (h - sum_list (owed cd ?n pvs pods))) (room cd ?n pvs infos)"
    by (intro nth_equalityI) (simp_all add: sizes_def room_def claims_owed(1) [OF assms(1,2,5)] ret infos' algebra_simps)
  then show ?thesis by (simp add: ds sizes_sort)
qed

definition no_overflow :: "codec \<Rightarrow> informers \<Rightarrow> node \<Rightarrow> pv list \<Rightarrow> pod \<Rightarrow> bool" where
  "no_overflow cd ca nd pvs q \<longleftrightarrow> quota_sum (node_claims cd ca (node_name nd) pvs) < 2 ^ 63 \<and>
     (\<forall>tot req has. getPodHostpathOfNodeDiskInfos cd ca q (node_name nd) = Inr (tot, req, has) \<longrightarrow>
       sum_list (sizes req) < 2 ^ 63)"

lemma owed_nonneg: "cluster_ok cd ca nd pvs infos \<Longrightarrow> \<forall>x \<in> set (owed cd (node_name nd) pvs pods). 0 \<le> x"
  by (auto simp: owed_def lacking_def cluster_ok_def split: if_splits)

lemma bind_keeps_packing:
  assumes "cluster_ok cd ca nd pvs infos" and "distinct (map pod_id (xs @ q # ys))" and "pod_node q = []"
    and "pressure_PodMatchNode cd (with_pods ca (xs @ q # ys)) q nd = Inr True"
    and "no_overflow cd (with_pods ca (xs @ q # ys)) nd pvs q"
    and "fits (owed cd (node_name nd) pvs (xs @ q # ys)) (room cd (node_name nd) pvs infos)"
    and "users_on_record cd (node_name nd) pvs (xs @ q # ys)" and "asks_on_record cd (node_name nd) pvs q"
  shows "fits (owed cd (node_name nd) pvs (xs @ q\<lparr>pod_node := node_name nd\<rparr> # ys)) (room cd (node_name nd) pvs infos)"
proof -
  let ?n = "node_name nd" and ?pods = "xs @ q # ys" and ?ca = "with_pods ca (xs @ q # ys)"
  let ?cap = "\<lambda>v. ival (capacity_or_zero v)" and ?new = "filter (newly_lacking cd ?n ?pods q) pvs"
  have n: "?n \<noteq> []" and dist: "distinct pvs" using assms(1) by (simp_all add: cluster_ok_def)
  obtain tot req has where req: "getPodHostpathOfNodeDiskInfos cd ?ca q ?n = Inr (tot, req, has)"
    using assms(4) by (auto simp: pressure_PodMatchNode_def split: sum.splits)
  then obtain l where l: "pod_disks_loop cd ?ca q ?n 0 (pod_volumes q) (0, [], False) = Inr (tot, l, has)" "req = sort_disks l"
    by (auto simp: getPodHostpathOfNodeDiskInfos_def split: sum.splits)
  from requested_volumes [OF l(1)] obtain L where L: "map di_size l = map capacity_or_zero L"
    "\<forall>v \<in> set L. IsCommonHostPathPV (Some v) \<and> (\<exists>vol \<in> set (pod_volumes q). GetPodVolumePV q vol (pvInfo ca) (pvcInfo ca) = Inr (Some v))"
    "\<forall>vol \<in> set (pod_volumes q). \<forall>v. GetPodVolumePV q vol (pvInfo ca) (pvcInfo ca) = Inr (Some v) \<longrightarrow> IsCommonHostPathPV (Some v) \<longrightarrow>
      IsHostPathPVHasEmptyItemForNode cd v ?n (podInfo ?ca) = Inr False \<longrightarrow> v \<in> set L"
    by auto
  have szl: "sizes l = map ?cap L" using arg_cong [OF L(1), of "map ival"] by (simp add: sizes_def comp_def)
  have "v \<in> set pvs" if "v \<in> set L" for v
    using L(2) that cluster_volume [OF assms(1)] by blast
  then have pos: "\<forall>x \<in> set (map ?cap L). 0 < x" using L(2) assms(1) by (auto simp: cluster_ok_def)
  have sz: "mset (sizes req) = mset (map ?cap L)" by (simp add: l(2) sizes_sort szl)
  then have pos': "\<forall>x \<in> set (sizes req). 0 < x" using pos by (metis set_mset_mset)
  have "set ?new \<subseteq> set L"
  proof
    fix v assume "v \<in> set ?new"
    then have v: "v \<in> set pvs" "newly_lacking cd ?n ?pods q v" by auto
    then have "IsCommonHostPathPV (Some v)" by (simp add: newly_lacking_def)
    with newly_lacking_requested [OF assms(1) v assms(8)] L(3) show "v \<in> set L" by blast
  qed
  then have "mset ?new \<subseteq># mset L"
    using dist by (metis distinct_filter mset_set_set mset_set_set_mset_msubset set_mset_mset subset_imp_msubset_mset_set
        finite_set subset_mset.order_trans)
  then have "mset (map ?cap ?new) \<subseteq># mset (sizes req)" unfolding sz mset_map by (rule image_mset_subseteq_mono)
  then have sub: "mset (owed cd ?n pvs (xs @ q\<lparr>pod_node := ?n\<rparr> # ys)) \<subseteq># mset (sizes req @ owed cd ?n pvs ?pods)"
    by (simp add: owed_bound [OF assms(3) n])
  have fit: "fits (sizes req @ owed cd ?n pvs ?pods) (room cd ?n pvs infos)"
  proof (cases "sizes req = []")
    case True
    with assms(6) show ?thesis by simp
  next
    case False
    have sum: "0 < sum_list (sizes req)" using False pos' by (cases "sizes req") (auto intro!: add_pos_nonneg sum_list_nonneg)
    have small: "sum_list (sizes req) < 2 ^ 63" "quota_sum (node_claims cd ?ca ?n pvs) < 2 ^ 63"
      using assms(5) req by (auto simp: no_overflow_def)
    have nonneg: "\<forall>x \<in> set (sizes req). 0 \<le> x" using pos' by auto
    obtain alloc disks where disks: "getNodeDiskInfos cd ?ca nd = Inr (alloc, disks)" and fits: "fits (sizes req) (sizes disks)"
      using pressure_sound_disks [OF assms(4) req nonneg sum small(1)] by blast
    have "fits (sizes req) (map (\<lambda>h. max 0 (h - sum_list (owed cd ?n pvs ?pods))) (room cd ?n pvs infos))"
      using seen_disks [OF assms(1,2) disks small(2) assms(7)] fits fits_total [OF fits] sum
      by (auto simp: sizes_def intro: fits_perm)
    then show ?thesis
      using fits_room [OF assms(6) owed_nonneg [OF assms(1)]] owed_nonneg [OF assms(1), of ?pods] False pos'
      by (intro fits_beside) auto
  qed
  then show ?thesis by (rule fits_fewer [OF _ sub]) (use pos' owed_nonneg [OF assms(1), of ?pods] in auto)
qed

section \<open>Runs\<close>

inductive bind_run :: "codec \<Rightarrow> informers \<Rightarrow> node \<Rightarrow> pv list \<Rightarrow> pod list \<Rightarrow> pod list \<Rightarrow> bool"
  for cd ca nd pvs pods0 where
  start: "bind_run cd ca nd pvs pods0 pods0"
| bind: "bind_run cd ca nd pvs pods0 (xs @ q # ys) \<Longrightarrow> pod_node q = [] \<Longrightarrow>
    pressure_PodMatchNode cd (with_pods ca (xs @ q # ys)) q nd = Inr True \<Longrightarrow>
    no_overflow cd (with_pods ca (xs @ q # ys)) nd pvs q \<Longrightarrow> asks_on_record cd (node_name nd) pvs q \<Longrightarrow>
    bind_run cd ca nd pvs pods0 (xs @ q\<lparr>pod_node := node_name nd\<rparr> # ys)"
| elsewhere: "bind_run cd ca nd pvs pods0 (xs @ q # ys) \<Longrightarrow> pod_node q = [] \<Longrightarrow> n' \<noteq> node_name nd \<Longrightarrow>
    bind_run cd ca nd pvs pods0 (xs @ q\<lparr>pod_node := n'\<rparr> # ys)"
| arrive: "bind_run cd ca nd pvs pods0 pods \<Longrightarrow> pod_node q = [] \<Longrightarrow> pod_id q \<notin> pod_id ` set pods \<Longrightarrow>
    bind_run cd ca nd pvs pods0 (pods @ [q])"
| finish: "bind_run cd ca nd pvs pods0 (xs @ p # ys) \<Longrightarrow> ph \<in> {PodSucceeded, PodFailed} \<Longrightarrow>
    bind_run cd ca nd pvs pods0 (xs @ p\<lparr>pod_phase := ph\<rparr> # ys)"
| leave: "bind_run cd ca nd pvs pods0 (xs @ p # ys) \<Longrightarrow> bind_run cd ca nd pvs pods0 (xs @ ys)"

lemma owed_fewer_users:
  assumes "\<And>v. length (users n v pods') \<le> length (users n v pods)"
  shows "mset (owed cd n pvs pods') \<subseteq># mset (owed cd n pvs pods)"
proof -
  have "users n v pods = [] \<Longrightarrow> users n v pods' = []" for v using assms [of v] by simp
  then have "lacking cd n pods' v \<le> lacking cd n pods v" for v
    using assms [of v] by (auto simp: lacking_def intro: diff_le_mono)
  then have "replicate_mset (lacking cd n pods' v) c \<subseteq># replicate_mset (lacking cd n pods v) c" for v and c :: int
    by (simp add: subseteq_mset_def)
  then show ?thesis by (induction pvs) (auto simp: owed_def intro: subset_mset.add_mono)
qed

lemma bind_run_ids: "bind_run cd ca nd pvs pods0 pods \<Longrightarrow> distinct (map pod_id pods0) \<Longrightarrow> distinct (map pod_id pods)"
  by (induction rule: bind_run.induct) (auto simp: pod_id_def)

lemma users_not_ready:
  assumes "\<not> isPodReady p'"
  shows "length (users n v (xs @ p' # ys)) \<le> length (users n v (xs @ p # ys))"
  using assms by (simp add: users_def)

lemma fewer_users_on_record:
  "users_on_record cd n pvs pods \<Longrightarrow> (\<And>v. length (users n v pods') \<le> length (users n v pods)) \<Longrightarrow>
   users_on_record cd n pvs pods'"
  unfolding users_on_record_def by (metis le_zero_eq length_0_conv)

text \<open>Every step but a binding to the node leaves each volume at most the users it had.\<close>

lemma fewer_users_keep:
  assumes "users_on_record cd (node_name nd) pvs pods \<and> fits (owed cd (node_name nd) pvs pods) hs"
    and "cluster_ok cd ca nd pvs infos" and "\<And>v. length (users (node_name nd) v pods') \<le> length (users (node_name nd) v pods)"
  shows "users_on_record cd (node_name nd) pvs pods' \<and> fits (owed cd (node_name nd) pvs pods') hs"
  using assms(1) fewer_users_on_record [OF _ assms(3)] fits_fewer [OF _ owed_fewer_users [OF assms(3)] owed_nonneg [OF assms(2)]]
  by blast

lemma bind_on_record:
  assumes "users_on_record cd n pvs (xs @ q # ys)" and "asks_on_record cd n pvs q" and "pod_node q = []" and "n \<noteq> []"
  shows "users_on_record cd n pvs (xs @ q\<lparr>pod_node := n\<rparr> # ys)"
  using assms by (auto simp: users_on_record_def asks_on_record_def users_def split: if_splits)

lemma bind_run_packing:
  assumes "bind_run cd ca nd pvs pods0 pods" and "cluster_ok cd ca nd pvs infos" and "distinct (map pod_id pods0)"
    and "users_on_record cd (node_name nd) pvs pods0"
    and "fits (owed cd (node_name nd) pvs pods0) (room cd (node_name nd) pvs infos)"
  shows "users_on_record cd (node_name nd) pvs pods \<and> fits (owed cd (node_name nd) pvs pods) (room cd (node_name nd) pvs infos)"
  using assms(1)
proof (induction rule: bind_run.induct)
  case start
  show ?case using assms(4,5) by blast
next
  have n: "node_name nd \<noteq> []" using assms(2) by (simp add: cluster_ok_def)
  {
    case (bind xs q ys)
    then show ?case
      using bind_keeps_packing [OF assms(2) bind_run_ids [OF bind.hyps(1) assms(3)]] bind_on_record [OF _ _ _ n] by blast
  next
    case (elsewhere xs q ys n')
    with n show ?case by (intro fewer_users_keep [OF elsewhere.IH assms(2)]) (simp add: users_def)
  next
    case (arrive pods q)
    with n show ?case by (intro fewer_users_keep [OF arrive.IH assms(2)]) (simp add: users_def)
  next
    case (finish xs p ys ph)
    then have "\<not> isPodReady (p\<lparr>pod_phase := ph\<rparr>)" by (auto simp: isPodReady_def)
    then show ?case by (intro fewer_users_keep [OF finish.IH assms(2)] users_not_ready)
  next
    case (leave xs p ys)
    show ?case by (intro fewer_users_keep [OF leave.IH assms(2)]) (simp add: users_def)
  }
qed

text \<open>
  C2 (invariant). Binding pods one after the other never overcommits a disk, as long as the
  records do not change and the pods on the node, and those bound to it, use only
  volumes that have a record of the node, which for a shared volume must hold a directory (for
  other volumes this fails, see below): when
  the directories that the pods of the node lack, a shared volume's included, fit at the start on what the
  recorded ones leave of its disks, they still do after any sequence of pods that arrive, are bound to the node once
  the predicate passed them, are bound elsewhere, finish or leave. The sums stay below \<open>2^63\<close>.
\<close>

theorem binds_never_overcommit:
  assumes "bind_run cd ca nd pvs pods0 pods" and "cluster_ok cd ca nd pvs infos" and "distinct (map pod_id pods0)"
    and "users_on_record cd (node_name nd) pvs pods0"
    and "fits (owed cd (node_name nd) pvs pods0) (room cd (node_name nd) pvs infos)"
  shows "fits (owed cd (node_name nd) pvs pods) (room cd (node_name nd) pvs infos)"
  using bind_run_packing [OF assms] by blast

section \<open>Volumes without a record\<close>

lemma same_filter:
  assumes "pod_node q = []" and "n \<noteq> []" and "pv_claim_ref v = Some r" and "\<not> uses_pv q v"
  shows "FilterByNodeAndPVC (podInfo (with_pods ca (xs @ q\<lparr>pod_node := n\<rparr> # ys))) n (ref_namespace r) (ref_name r) False =
    FilterByNodeAndPVC (podInfo (with_pods ca (xs @ q # ys))) n (ref_namespace r) (ref_name r) False"
  using assms by (simp add: users_filter [OF _ assms(3,2)] users_def)

lemma node_record_list:
  "IsCommonHostPathPV (Some v) \<Longrightarrow> GetHostPathPVMountInfoList cd v = Inr is \<Longrightarrow> node_record cd n v = find_node is n"
  by (simp add: node_record_def)

lemma unrecorded_charges:
  assumes "pod_node q = []" and "n \<noteq> []" and "uses_pv q v \<longrightarrow> node_record cd n v = None"
  shows "pv_charges cd n (podInfo (with_pods ca (xs @ q\<lparr>pod_node := n\<rparr> # ys))) v st =
    pv_charges cd n (podInfo (with_pods ca (xs @ q # ys))) v st"
proof (cases "node_record cd n v")
  case None
  then show ?thesis
    by (auto simp: pv_charges_def node_record_list split: sum.split option.split)
next
  case (Some info)
  with assms(3) have "\<not> uses_pv q v" by auto
  with same_filter [OF assms(1,2), of v]
  have "used_pods_or_empty v (podInfo (with_pods ca (xs @ q\<lparr>pod_node := n\<rparr> # ys))) n =
      used_pods_or_empty v (podInfo (with_pods ca (xs @ q # ys))) n"
    by (cases "pv_claim_ref v") (simp_all add: used_pods_or_empty_def GetHostPathPVUsedPodMap_def)
  then show ?thesis by (simp add: pv_charges_def cong: if_cong sum.case_cong option.case_cong)
qed

lemma unrecorded_empty_item:
  assumes "pod_node q = []" and "n \<noteq> []" and "uses_pv q v \<longrightarrow> node_record cd n v = None"
  shows "IsHostPathPVHasEmptyItemForNode cd v n (podInfo (with_pods ca (xs @ q\<lparr>pod_node := n\<rparr> # ys))) =
    IsHostPathPVHasEmptyItemForNode cd v n (podInfo (with_pods ca (xs @ q # ys)))"
proof (cases "node_record cd n v")
  case None
  then show ?thesis
    by (auto simp: IsHostPathPVHasEmptyItemForNode_def node_record_list split: sum.split option.split)
next
  case (Some info)
  with assms(3) have "\<not> uses_pv q v" by auto
  with same_filter [OF assms(1,2), of v] show ?thesis
    by (auto simp: IsHostPathPVHasEmptyItemForNode_def split: option.split sum.split)
qed

text \<open>
  C10 (safety). A pod that was bound to a node is invisible there while its volumes have no record of the
  node: binding it changes the verdict for no other pod, so the same room is
  offered again, to any number of pods, until a directory is recorded.
\<close>

theorem unrecorded_binds_invisible:
  assumes "pvi_list (pvInfo ca) = Inr pvs" and "\<forall>x v. pvi_get (pvInfo ca) x = Inr (Some v) \<longrightarrow> v \<in> set pvs"
    and "pod_node q = []" and "node_name nd \<noteq> []" and "\<forall>v \<in> set pvs. uses_pv q v \<longrightarrow> node_record cd (node_name nd) v = None"
  shows "pressure_PodMatchNode cd (with_pods ca (xs @ q\<lparr>pod_node := node_name nd\<rparr> # ys)) q2 nd =
    pressure_PodMatchNode cd (with_pods ca (xs @ q # ys)) q2 nd"
proof -
  let ?n = "node_name nd"
  let ?ca = "with_pods ca (xs @ q # ys)" and ?ca' = "with_pods ca (xs @ q\<lparr>pod_node := node_name nd\<rparr> # ys)"
  have "pvs_charges cd ?n (podInfo ?ca') vs st = pvs_charges cd ?n (podInfo ?ca) vs st" if "set vs \<subseteq> set pvs" for vs st
    using that
  proof (induction vs arbitrary: st)
    case (Cons v vs)
    then have "uses_pv q v \<longrightarrow> node_record cd ?n v = None" using assms(5) by simp
    with Cons show ?case by (simp add: unrecorded_charges [OF assms(3,4)] split: sum.split)
  qed simp
  then have "GetNodeHostPathPVMountInfo cd ?n (pvInfo ca) (podInfo ?ca') = GetNodeHostPathPVMountInfo cd ?n (pvInfo ca) (podInfo ?ca)"
    by (simp add: GetNodeHostPathPVMountInfo_def assms(1))
  then have disks: "getNodeDiskInfos cd ?ca' nd = getNodeDiskInfos cd ?ca nd"
    by (simp add: getNodeDiskInfos_def cong: if_cong sum.case_cong)
  have "pod_disks_loop cd ?ca' q2 ?n i vols st = pod_disks_loop cd ?ca q2 ?n i vols st" for i vols st
  proof (induction vols arbitrary: i st)
    case (Cons vol vols)
    have item: "IsHostPathPVHasEmptyItemForNode cd v ?n (podInfo ?ca') = IsHostPathPVHasEmptyItemForNode cd v ?n (podInfo ?ca)"
      if "GetPodVolumePV q2 vol (pvInfo ca) (pvcInfo ca) = Inr (Some v)" for v
    proof -
      have "v \<in> set pvs" using volume_of_cache [OF that] assms(2) by blast
      with assms(5) show ?thesis by (intro unrecorded_empty_item [OF assms(3,4)]) blast
    qed
    show ?case using item Cons.IH by (cases st) (auto split: sum.split option.split)
  qed simp
  then show ?thesis by (simp add: pressure_PodMatchNode_def getPodHostpathOfNodeDiskInfos_def disks
      cong: if_cong sum.case_cong)
qed

section \<open>Two runs\<close>

text \<open>A volume with one directory on the node, one pod that has it and two that wait.\<close>

definition sample_bound :: informers where
  "sample_bound = sample_caches (sample_pv [(PVVolumeHostPathMountNode, ''m1'')] 6) []"

lemma sample_cluster:
  "cluster_ok sample_codec sample_bound (sample_node ''n1'') [sample_pv [(PVVolumeHostPathMountNode, ''m1'')] 6]
     [sample_disk ''/d1'' 10, sample_disk ''/d2'' 20]"
  by (simp add: cluster_ok_def sample_bound_def eval_defs GetNodeDiskInfo_def recorded_def node_record_def
      capacity_or_zero_def GetHostPathPVCapacity_def)

lemmas run_defs = sample_bound_def with_pods_def eval_defs FilterByNodeAndPVC_ok isPodUsePVC_iff

lemma sample_run_request:
  "getPodHostpathOfNodeDiskInfos sample_codec (with_pods sample_bound (sample_pod ''p1'' ''n1'' # pods)) (sample_pod p []) ''n1''
     = Inr (6, [\<lparr>di_path = [], di_size = 6, di_disabled = False\<rparr>], True)"
  by (simp add: getPodHostpathOfNodeDiskInfos_def run_defs IsHostPathPVHasEmptyItemForNode_def
      capacity_or_zero_def GetHostPathPVCapacity_def sort_disks_def)

lemma sample_run_disks:
  "getNodeDiskInfos sample_codec (with_pods sample_bound
      [sample_pod ''p1'' ''n1'', sample_pod ''p2'' [], sample_pod ''p3'' []]) (sample_node ''n1'')
    = Inr (26, [\<lparr>di_path = ''/d1'', di_size = 6, di_disabled = False\<rparr>, \<lparr>di_path = ''/d2'', di_size = 20, di_disabled = False\<rparr>])"
  "getNodeDiskInfos sample_codec (with_pods sample_bound
      [sample_pod ''p1'' ''n1'', sample_pod ''p2'' ''n1'', sample_pod ''p3'' []]) (sample_node ''n1'')
    = Inr (14, [\<lparr>di_path = ''/d1'', di_size = 0, di_disabled = False\<rparr>, \<lparr>di_path = ''/d2'', di_size = 14, di_disabled = False\<rparr>])"
  by (simp_all add: getNodeDiskInfos_def run_defs GetNodeDiskInfo_def GetNodeHostPathPVMountInfo_def
      pv_charges_def used_pods_or_empty_def GetHostPathPVUsedPodMap_def pending_mounts_def pending_mount_def
      capacity_or_zero_def GetHostPathPVCapacity_def pod_key_def disk_of_info_def clamp_disk_def sort_disks_def disk_key_def)

lemma sample_run_passes:
  "pressure_PodMatchNode sample_codec (with_pods sample_bound
      [sample_pod ''p1'' ''n1'', sample_pod ''p2'' [], sample_pod ''p3'' []]) (sample_pod ''p2'' []) (sample_node ''n1'') = Inr True"
  "pressure_PodMatchNode sample_codec (with_pods sample_bound
      [sample_pod ''p1'' ''n1'', sample_pod ''p2'' ''n1'', sample_pod ''p3'' []]) (sample_pod ''p3'' []) (sample_node ''n1'') = Inr True"
  by (simp_all add: pressure_PodMatchNode_def sample_run_request sample_run_disks word_sless_ival word_sle_ival)

lemma sample_claims:
  "quota_sum (node_claims sample_codec (with_pods sample_bound
      [sample_pod ''p1'' ''n1'', sample_pod ''p2'' h, sample_pod ''p3'' []]) ''n1''
      [sample_pv [(PVVolumeHostPathMountNode, ''m1'')] 6]) < 2 ^ 63"
  by (simp add: node_claims_def recorded_def reserved_def node_record_def run_defs used_pods_or_empty_def
      GetHostPathPVUsedPodMap_def pending_mounts_def pending_mount_def capacity_or_zero_def GetHostPathPVCapacity_def quota_sum_def)

lemma sample_no_overflow:
  "quota_sum (node_claims sample_codec (with_pods sample_bound (sample_pod ''p1'' ''n1'' # pods)) ''n1'' pvs) < 2 ^ 63 \<Longrightarrow>
   no_overflow sample_codec (with_pods sample_bound (sample_pod ''p1'' ''n1'' # pods)) (sample_node ''n1'') pvs (sample_pod p [])"
  by (simp add: no_overflow_def sample_run_request sizes_def)

lemma sample_on_record: "on_record sample_codec ''n1'' (sample_pv [(PVVolumeHostPathMountNode, ''m1'')] 6)"
  by (simp add: on_record_def recorded_def node_record_def run_defs)

lemma sample_asks: "asks_on_record sample_codec ''n1'' [sample_pv [(PVVolumeHostPathMountNode, ''m1'')] 6] q"
  by (simp add: asks_on_record_def sample_on_record)

lemma sample_bind_run:
  "bind_run sample_codec sample_bound (sample_node ''n1'') [sample_pv [(PVVolumeHostPathMountNode, ''m1'')] 6]
     [sample_pod ''p1'' ''n1'', sample_pod ''p2'' [], sample_pod ''p3'' []]
     [sample_pod ''p1'' ''n1'', sample_pod ''p2'' ''n1'', sample_pod ''p3'' ''n1'']"
  (is "bind_run ?cd ?ca ?nd ?pvs ?p0 ?p2")
proof -
  have host: "sample_pod p h\<lparr>pod_node := n\<rparr> = sample_pod p n" for p h n by (simp add: sample_pod_def)
  have node: "pod_node (sample_pod p []) = []" for p by (simp add: sample_pod_def)
  have "bind_run ?cd ?ca ?nd ?pvs ?p0 ([sample_pod ''p1'' ''n1''] @ sample_pod ''p2'' []\<lparr>pod_node := node_name ?nd\<rparr> # [sample_pod ''p3'' []])"
    by (rule bind_run.bind) (simp_all add: bind_run.start node sample_run_passes sample_no_overflow [OF sample_claims] sample_asks)
  then have "bind_run ?cd ?ca ?nd ?pvs ?p0 ([sample_pod ''p1'' ''n1'', sample_pod ''p2'' ''n1''] @ sample_pod ''p3'' []\<lparr>pod_node := node_name ?nd\<rparr> # [])"
    by (intro bind_run.bind) (simp_all add: node host sample_run_passes sample_no_overflow [OF sample_claims] sample_asks)
  then show ?thesis by (simp add: host)
qed

lemma sample_run_owed:
  "owed sample_codec ''n1'' [sample_pv [(PVVolumeHostPathMountNode, ''m1'')] 6]
     [sample_pod ''p1'' ''n1'', sample_pod ''p2'' [], sample_pod ''p3'' []] = []"
  "owed sample_codec ''n1'' [sample_pv [(PVVolumeHostPathMountNode, ''m1'')] 6]
     [sample_pod ''p1'' ''n1'', sample_pod ''p2'' ''n1'', sample_pod ''p3'' ''n1''] = [6, 6]"
  by (simp_all add: owed_def lacking_def users_def uses_pv_def recorded_def node_record_def run_defs
      capacity_or_zero_def GetHostPathPVCapacity_def numeral_2_eq_2)

lemma sample_run_room:
  "room sample_codec ''n1'' [sample_pv [(PVVolumeHostPathMountNode, ''m1'')] 6]
     [sample_disk ''/d1'' 10, sample_disk ''/d2'' 20] = [6, 20]"
  by (simp add: room_def recorded_def node_record_def run_defs disk_claims_def quota_sum_def hits_def)

theorem binds_never_overcommit_witness: "fits [6, 6] [6, 20]"
  using binds_never_overcommit [OF sample_bind_run sample_cluster]
  by (simp add: sample_run_owed sample_run_room) (simp add: pod_id_def sample_pod_def fits_Nil users_on_record_def sample_on_record)

lemma sample_unrecorded:
  "getPodHostpathOfNodeDiskInfos sample_codec (with_pods (sample_caches (sample_pv [] 20) []) pods) (sample_pod p []) ''n1''
     = Inr (20, [\<lparr>di_path = [], di_size = 20, di_disabled = False\<rparr>], True)"
  "getNodeDiskInfos sample_codec (with_pods (sample_caches (sample_pv [] 20) []) pods) (sample_node ''n1'')
     = Inr (30, [\<lparr>di_path = ''/d1'', di_size = 10, di_disabled = False\<rparr>, \<lparr>di_path = ''/d2'', di_size = 20, di_disabled = False\<rparr>])"
  by (simp_all add: getPodHostpathOfNodeDiskInfos_def with_pods_def eval_defs IsHostPathPVHasEmptyItemForNode_def
      capacity_or_zero_def GetHostPathPVCapacity_def getNodeDiskInfos_def GetNodeDiskInfo_def GetNodeHostPathPVMountInfo_def
      pv_charges_def disk_of_info_def clamp_disk_def sort_disks_def disk_key_def)

theorem unrecorded_binds_invisible_witness:
  "pressure_PodMatchNode sample_codec (with_pods (sample_caches (sample_pv [] 20) [])
      [sample_pod ''p1'' ''n1'', sample_pod ''p2'' []]) (sample_pod ''p2'' []) (sample_node ''n1'') = Inr True \<and>
   \<not> fits [20, 20] [10, 20]"
proof
  have "pressure_PodMatchNode sample_codec (with_pods (sample_caches (sample_pv [] 20) [])
      ([] @ sample_pod ''p1'' []\<lparr>pod_node := node_name (sample_node ''n1'')\<rparr> # [sample_pod ''p2'' []])) (sample_pod ''p2'' []) (sample_node ''n1'')
    = pressure_PodMatchNode sample_codec (with_pods (sample_caches (sample_pv [] 20) [])
      ([] @ sample_pod ''p1'' [] # [sample_pod ''p2'' []])) (sample_pod ''p2'' []) (sample_node ''n1'')"
    by (rule unrecorded_binds_invisible [where pvs = "[sample_pv [] 20]"])
      (simp_all add: eval_defs node_record_def)
  also have "\<dots> = Inr True"
    by (simp add: pressure_PodMatchNode_def sample_unrecorded word_sless_ival word_sle_ival)
  finally show "pressure_PodMatchNode sample_codec (with_pods (sample_caches (sample_pv [] 20) [])
      [sample_pod ''p1'' ''n1'', sample_pod ''p2'' []]) (sample_pod ''p2'' []) (sample_node ''n1'') = Inr True"
    by (simp add: sample_pod_def)
  show "\<not> fits [20, 20] [10, 20]" using fits_total [of "[20, 20]" "[10, 20]"] by auto
qed

end
