(* ===== verification/Labels.thy ===== *)
theory Labels
  imports ApiTypes
begin

text \<open>
  The label selectors the namespace predicate is built on (vendored
  \<^verbatim>\<open>k8s.io/apimachinery/pkg/labels/selector.go\<close> and \<^verbatim>\<open>pkg/util/validation/validation.go\<close>): the
  checks of keys and values, requirements and their match, the lexer and the parser.
\<close>

section \<open>Keys and values\<close>

definition alnum :: "char \<Rightarrow> bool" where
  "alnum c = (let n = of_char c :: nat in
     (48 \<le> n \<and> n \<le> 57) \<or> (65 \<le> n \<and> n \<le> 90) \<or> (97 \<le> n \<and> n \<le> 122))"

definition lower_alnum :: "char \<Rightarrow> bool" where
  "lower_alnum c = (let n = of_char c :: nat in (48 \<le> n \<and> n \<le> 57) \<or> (97 \<le> n \<and> n \<le> 122))"

definition name_char :: "char \<Rightarrow> bool" where
  "name_char c = (alnum c \<or> c = CHR ''-'' \<or> c = CHR ''_'' \<or> c = CHR ''.'')"

text \<open>The strings of \<^verbatim>\<open>qualifiedNameRegexp\<close>, \<^verbatim>\<open>labelValueRegexp\<close> and \<^verbatim>\<open>dns1123SubdomainRegexp\<close>.\<close>

definition qualified_name :: "string \<Rightarrow> bool" where
  "qualified_name s \<longleftrightarrow> s \<noteq> [] \<and> alnum (hd s) \<and> alnum (last s) \<and> list_all name_char s"

definition label_value_form :: "string \<Rightarrow> bool" where
  "label_value_form s \<longleftrightarrow> s = [] \<or> qualified_name s"

definition dns_label :: "string \<Rightarrow> bool" where
  "dns_label s \<longleftrightarrow> s \<noteq> [] \<and> lower_alnum (hd s) \<and> lower_alnum (last s) \<and>
     list_all (\<lambda>c. lower_alnum c \<or> c = CHR ''-'') s"

definition IsDNS1123Subdomain :: "string \<Rightarrow> bool" where
  "IsDNS1123Subdomain s \<longleftrightarrow> length s \<le> 253 \<and> list_all dns_label (split_on (CHR ''.'') s)"

text \<open>Whether the list of error strings is empty.\<close>

definition IsQualifiedName :: "string \<Rightarrow> bool" where
  "IsQualifiedName s =
     (case split_on (CHR ''/'') s of
        [name] \<Rightarrow> name \<noteq> [] \<and> length name \<le> 63 \<and> qualified_name name
      | [prefix, name] \<Rightarrow> prefix \<noteq> [] \<and> IsDNS1123Subdomain prefix \<and>
          name \<noteq> [] \<and> length name \<le> 63 \<and> qualified_name name
      | _ \<Rightarrow> False)"

definition IsValidLabelValue :: "string \<Rightarrow> bool" where
  "IsValidLabelValue s \<longleftrightarrow> length s \<le> 63 \<and> label_value_form s"

section \<open>Requirements\<close>

datatype operator = In | NotIn | Equals | DoubleEquals | NotEquals | Exists | DoesNotExist
  | GreaterThan | LessThan

record requirement =
  rq_key :: string
  rq_op :: operator
  rq_values :: "string list"

text \<open>The first value that is not a label value, if any: where the last loop of \<^verbatim>\<open>NewRequirement\<close> returns.\<close>

fun bad_value :: "string list \<Rightarrow> string option" where
  "bad_value [] = None"
| "bad_value (v # vs) = (if IsValidLabelValue v then bad_value vs else Some v)"

definition NewRequirement :: "string \<Rightarrow> operator \<Rightarrow> string list \<Rightarrow> error + requirement" where
  "NewRequirement key opr vals =
     (if \<not> IsQualifiedName key then Inl (InvalidLabelKey key)
      else
        (case
           (case opr of
              In \<Rightarrow> if length vals = 0 then Some EmptyValueSet else None
            | NotIn \<Rightarrow> if length vals = 0 then Some EmptyValueSet else None
            | Equals \<Rightarrow> if length vals \<noteq> 1 then Some NotOneValue else None
            | DoubleEquals \<Rightarrow> if length vals \<noteq> 1 then Some NotOneValue else None
            | NotEquals \<Rightarrow> if length vals \<noteq> 1 then Some NotOneValue else None
            | Exists \<Rightarrow> if length vals \<noteq> 0 then Some ValuesNotEmpty else None
            | DoesNotExist \<Rightarrow> if length vals \<noteq> 0 then Some ValuesNotEmpty else None
            | GreaterThan \<Rightarrow> if length vals \<noteq> 1 then Some NotOneValue
                else if list_all (\<lambda>v. parse_int v \<noteq> None) vals then None else Some ValueNotInteger
            | LessThan \<Rightarrow> if length vals \<noteq> 1 then Some NotOneValue
                else if list_all (\<lambda>v. parse_int v \<noteq> None) vals then None else Some ValueNotInteger)
         of Some err \<Rightarrow> Inl err
          | None \<Rightarrow>
              (case bad_value vals of
                 Some v \<Rightarrow> Inl (InvalidLabelValue v)
               | None \<Rightarrow> Inr \<lparr>rq_key = key, rq_op = opr, rq_values = vals\<rparr>)))"

definition hasValue :: "requirement \<Rightarrow> string \<Rightarrow> bool" where
  "hasValue r v \<longleftrightarrow> v \<in> set (rq_values r)"

definition compare_values :: "(int64 \<Rightarrow> int64 \<Rightarrow> bool) \<Rightarrow> requirement \<Rightarrow> (string, string) gomap \<Rightarrow> bool" where
  "compare_values cmp r ls =
     (if gget ls (rq_key r) = None then False
      else (case parse_int (gget_str ls (rq_key r)) of
              None \<Rightarrow> False
            | Some lsValue \<Rightarrow>
                (case rq_values r of
                   [v] \<Rightarrow> (case parse_int v of None \<Rightarrow> False | Some rValue \<Rightarrow> cmp lsValue rValue)
                 | _ \<Rightarrow> False)))"

definition Requirement_Matches :: "requirement \<Rightarrow> (string, string) gomap \<Rightarrow> bool" where
  "Requirement_Matches r ls =
     (let has = gget ls (rq_key r) \<noteq> None; val = gget_str ls (rq_key r)
      in case rq_op r of
           In \<Rightarrow> if \<not> has then False else hasValue r val
         | Equals \<Rightarrow> if \<not> has then False else hasValue r val
         | DoubleEquals \<Rightarrow> if \<not> has then False else hasValue r val
         | NotIn \<Rightarrow> if \<not> has then True else \<not> hasValue r val
         | NotEquals \<Rightarrow> if \<not> has then True else \<not> hasValue r val
         | Exists \<Rightarrow> has
         | DoesNotExist \<Rightarrow> \<not> has
         | GreaterThan \<Rightarrow> compare_values (\<lambda>a b. b <s a) r ls
         | LessThan \<Rightarrow> compare_values (\<lambda>a b. a <s b) r ls)"

text \<open>\<^verbatim>\<open>internalSelector.Matches\<close>\<close>

fun selector_Matches :: "requirement list \<Rightarrow> (string, string) gomap \<Rightarrow> bool" where
  "selector_Matches [] ls = True"
| "selector_Matches (r # rs) ls = (if \<not> Requirement_Matches r ls then False else selector_Matches rs ls)"

lemma selector_Matches_all: "selector_Matches rs ls \<longleftrightarrow> (\<forall>r \<in> set rs. Requirement_Matches r ls)"
  by (induction rs) auto

section \<open>The lexer\<close>

datatype token = ErrorToken | EndOfString | ClosedPar | Comma | NotExistToken | DoubleEqualsToken
  | EqualsToken | GreaterThanToken | Identifier | InToken | LessThanToken | NotEqualsToken
  | NotInToken | OpenPar

definition string2token :: "string \<Rightarrow> token option" where
  "string2token s = map_of [('')'', ClosedPar), ('','', Comma), (''!'', NotExistToken),
     (''=='', DoubleEqualsToken), (''='', EqualsToken), (''>'', GreaterThanToken), (''in'', InToken),
     (''<'', LessThanToken), (''!='', NotEqualsToken), (''notin'', NotInToken), (''('', OpenPar)] s"

definition nul :: char where "nul = CHR 0x00"

definition isWhitespace :: "char \<Rightarrow> bool" where
  "isWhitespace c \<longleftrightarrow> c \<in> {CHR '' '', CHR 0x09, CHR 0x0D, CHR 0x0A}"

definition isSpecialSymbol :: "char \<Rightarrow> bool" where
  "isSpecialSymbol c \<longleftrightarrow> c \<in> {CHR ''='', CHR ''!'', CHR ''('', CHR '')'', CHR '','', CHR ''>'', CHR ''<''}"

text \<open>
  The lexer's state is the text not read yet; \<^verbatim>\<open>read\<close> returns 0 at the end, so a byte 0 in the
  text ends it too.  The two scanners return what they found and the rest of the text.  Every
  special symbol is a token by itself, so the branch for an error token is never taken.
\<close>

fun scan_id :: "string \<Rightarrow> string \<times> string" where
  "scan_id [] = ([], [])"
| "scan_id (c # cs) =
     (if c = nul then ([], cs)
      else if isSpecialSymbol c \<or> isWhitespace c then ([], c # cs)
      else (case scan_id cs of (buffer, rest) \<Rightarrow> (c # buffer, rest)))"

fun scan_symbol :: "string \<Rightarrow> (token \<times> string) option \<Rightarrow> string \<Rightarrow> (token \<times> string) option \<times> string" where
  "scan_symbol buffer lastItem [] = (lastItem, [])"
| "scan_symbol buffer lastItem (c # cs) =
     (if c = nul then (lastItem, cs)
      else if isSpecialSymbol c then
        (case string2token (buffer @ [c]) of
           Some tok \<Rightarrow> scan_symbol (buffer @ [c]) (Some (tok, buffer @ [c])) cs
         | None \<Rightarrow> if lastItem \<noteq> None then (lastItem, c # cs)
                   else scan_symbol (buffer @ [c]) lastItem cs)
      else (lastItem, c # cs))"

fun skipWhiteSpaces :: "string \<Rightarrow> string" where
  "skipWhiteSpaces [] = []"
| "skipWhiteSpaces (c # cs) = (if isWhitespace c then skipWhiteSpaces cs else c # cs)"

definition Lex :: "string \<Rightarrow> (token \<times> string) \<times> string" where
  "Lex s =
     (case skipWhiteSpaces s of
        [] \<Rightarrow> ((EndOfString, []), [])
      | c # cs \<Rightarrow>
          if c = nul then ((EndOfString, []), cs)
          else if isSpecialSymbol c then
            (case scan_symbol [] None (c # cs) of
               (Some item, rest) \<Rightarrow> (item, rest)
             | (None, rest) \<Rightarrow> ((ErrorToken, []), rest))
          else
            (case scan_id (c # cs) of
               (ident, rest) \<Rightarrow> ((case string2token ident of Some tok \<Rightarrow> tok | None \<Rightarrow> Identifier, ident), rest)))"

lemma scan_id_length: "length (snd (scan_id s)) \<le> length s"
  by (induction s) (auto split: prod.splits)

lemma scan_symbol_length: "length (snd (scan_symbol b l s)) \<le> length s"
  by (induction b l s rule: scan_symbol.induct) (auto split: option.splits)

lemma skip_length: "length (skipWhiteSpaces s) \<le> length s"
  by (induction s) auto

lemma string2token_symbol: "isSpecialSymbol c \<Longrightarrow> \<exists>t. string2token [c] = Some t"
  by (auto simp: isSpecialSymbol_def string2token_def)

text \<open>Every token but the last consumes text, so the scan ends.\<close>

lemma Lex_progress:
  assumes "Lex s = ((tok, lit), rest)" and "tok \<noteq> EndOfString"
  shows "length rest < length s"
proof -
  obtain c cs where s: "skipWhiteSpaces s = c # cs" and c: "c \<noteq> nul"
    using assms by (cases "skipWhiteSpaces s") (auto simp: Lex_def split: if_splits)
  have "length rest \<le> length cs"
  proof (cases "isSpecialSymbol c")
    case True
    then obtain t where "string2token [c] = Some t" using string2token_symbol by blast
    with True c have "scan_symbol [] None (c # cs) = scan_symbol [c] (Some (t, [c])) cs" by simp
    with True c s assms(1) scan_symbol_length [of "[c]" "Some (t, [c])" cs] show ?thesis
      by (auto simp: Lex_def split: prod.splits option.splits)
  next
    case False
    have "\<not> isWhitespace c" using s by (induction s) (auto split: if_splits)
    with False c s assms(1) scan_id_length [of cs] show ?thesis
      by (auto simp: Lex_def split: prod.splits)
  qed
  with skip_length [of s] s show ?thesis by simp
qed

function scan :: "string \<Rightarrow> (token \<times> string) list" where
  "scan s =
     (case Lex s of
        ((tok, literal), rest) \<Rightarrow>
          if tok = EndOfString then [(tok, literal)] else (tok, literal) # scan rest)"
  by pat_completeness auto
termination
  by (relation "measure length") (simp, auto intro: Lex_progress [OF sym])

declare scan.simps [simp del]

section \<open>The parser\<close>

text \<open>
  The parser's state is the list of scanned items from its position on.  Reading past the end
  would panic in Go; it is the error \<open>ParserPanic\<close> here.
\<close>

type_synonym items = "(token \<times> string) list"

datatype pcontext = KeyAndOperator | Values

fun in_context :: "pcontext \<Rightarrow> token \<Rightarrow> token" where
  "in_context Values InToken = Identifier"
| "in_context Values NotInToken = Identifier"
| "in_context _ t = t"

fun lookahead :: "pcontext \<Rightarrow> items \<Rightarrow> error + token \<times> string" where
  "lookahead c [] = Inl ParserPanic"
| "lookahead c ((tok, lit) # rest) = Inr (in_context c tok, lit)"

fun consume :: "pcontext \<Rightarrow> items \<Rightarrow> error + (token \<times> string) \<times> items" where
  "consume c [] = Inl ParserPanic"
| "consume c ((tok, lit) # rest) = Inr ((in_context c tok, lit), rest)"

text \<open>\<^verbatim>\<open>sets.String\<close> as the list of its elements; \<^verbatim>\<open>List\<close> sorts them.\<close>

definition set_List :: "string list \<Rightarrow> string list" where
  "set_List s = sort (remdups s)"

lemma consume_length: "consume c its = Inr (x, rest) \<Longrightarrow> length rest < length its"
  by (cases its) auto

function parseIdentifiersList :: "string list \<Rightarrow> items \<Rightarrow> error + string list \<times> items" where
  "parseIdentifiersList s its =
     (case consume Values its of
        Inl e \<Rightarrow> Inl e
      | Inr ((tok, lit), rest) \<Rightarrow>
          if tok = Identifier then
            (case lookahead Values rest of
               Inl e \<Rightarrow> Inl e
             | Inr (tok2, lit2) \<Rightarrow>
                 if tok2 = Comma then parseIdentifiersList (List.insert lit s) rest
                 else if tok2 = ClosedPar then Inr (List.insert lit s, rest)
                 else Inl (SelectorFound lit2))
          else if tok = Comma then
            (let s1 = (if length s = 0 then List.insert [] s else s)
             in case lookahead Values rest of
                  Inl e \<Rightarrow> Inl e
                | Inr (tok2, lit2) \<Rightarrow>
                    if tok2 = ClosedPar then Inr (List.insert [] s1, rest)
                    else if tok2 = Comma then parseIdentifiersList (List.insert [] s1) (tl rest)
                    else parseIdentifiersList s1 rest)
          else Inl (SelectorFound lit))"
  by pat_completeness auto

termination
  by (relation "measure (\<lambda>(s, its). length its)") (auto dest!: sym [of "Inr _"] dest: consume_length)

declare parseIdentifiersList.simps [simp del]

definition parseValues :: "items \<Rightarrow> error + string list \<times> items" where
  "parseValues its =
     (case consume Values its of
        Inl e \<Rightarrow> Inl e
      | Inr ((tok, lit), rest) \<Rightarrow>
          if tok \<noteq> OpenPar then Inl (SelectorFound lit)
          else (case lookahead Values rest of
                  Inl e \<Rightarrow> Inl e
                | Inr (tok2, lit2) \<Rightarrow>
                    if tok2 = Identifier \<or> tok2 = Comma then
                      (case parseIdentifiersList [] rest of
                         Inl err \<Rightarrow> Inl err
                       | Inr (s, rest2) \<Rightarrow>
                           (case consume Values rest2 of
                              Inl e \<Rightarrow> Inl e
                            | Inr ((tok3, lit3), rest3) \<Rightarrow>
                                if tok3 \<noteq> ClosedPar then Inl (SelectorFound lit2) else Inr (s, rest3)))
                    else if tok2 = ClosedPar then
                      (case consume Values rest of
                         Inl e \<Rightarrow> Inl e
                       | Inr (_, rest3) \<Rightarrow> Inr ([[]], rest3))
                    else Inl (SelectorFound lit2)))"

definition parseExactValue :: "items \<Rightarrow> error + string list \<times> items" where
  "parseExactValue its =
     (case lookahead Values its of
        Inl e \<Rightarrow> Inl e
      | Inr (tok, lit) \<Rightarrow>
          if tok = EndOfString \<or> tok = Comma then Inr ([[]], its)
          else (case consume Values its of
                  Inl e \<Rightarrow> Inl e
                | Inr ((tok2, lit2), rest) \<Rightarrow>
                    if tok2 = Identifier then Inr ([lit2], rest) else Inl (SelectorFound lit2)))"

definition parseOperator :: "items \<Rightarrow> error + operator \<times> items" where
  "parseOperator its =
     (case consume KeyAndOperator its of
        Inl e \<Rightarrow> Inl e
      | Inr ((tok, lit), rest) \<Rightarrow>
          (case tok of
             InToken \<Rightarrow> Inr (In, rest)
           | EqualsToken \<Rightarrow> Inr (Equals, rest)
           | DoubleEqualsToken \<Rightarrow> Inr (DoubleEquals, rest)
           | GreaterThanToken \<Rightarrow> Inr (GreaterThan, rest)
           | LessThanToken \<Rightarrow> Inr (LessThan, rest)
           | NotInToken \<Rightarrow> Inr (NotIn, rest)
           | NotEqualsToken \<Rightarrow> Inr (NotEquals, rest)
           | _ \<Rightarrow> Inl (SelectorFound lit)))"

text \<open>The operator is \<open>None\<close> when it is still to be read.\<close>

definition parseKeyAndInferOperator :: "items \<Rightarrow> error + (string \<times> operator option) \<times> items" where
  "parseKeyAndInferOperator its =
     (case consume Values its of
        Inl e \<Rightarrow> Inl e
      | Inr ((tok0, literal0), rest0) \<Rightarrow>
          (case
             (if tok0 = NotExistToken then
                (case consume Values rest0 of
                   Inl e \<Rightarrow> Inl e
                 | Inr (item, rest1) \<Rightarrow> Inr (Some DoesNotExist, item, rest1))
              else Inr (None, (tok0, literal0), rest0))
           of Inl e \<Rightarrow> Inl e
            | Inr (opr, (tok, literal), rest) \<Rightarrow>
                if tok \<noteq> Identifier then Inl (SelectorFound literal)
                else if \<not> IsQualifiedName literal then Inl (InvalidLabelKey literal)
                else (case lookahead Values rest of
                        Inl e \<Rightarrow> Inl e
                      | Inr (t, _) \<Rightarrow>
                          Inr ((literal,
                            if (t = EndOfString \<or> t = Comma) \<and> opr \<noteq> Some DoesNotExist
                            then Some Exists else opr), rest))))"

definition parseRequirement :: "items \<Rightarrow> error + requirement \<times> items" where
  "parseRequirement its =
     (case parseKeyAndInferOperator its of
        Inl err \<Rightarrow> Inl err
      | Inr ((key, opr), rest) \<Rightarrow>
          if opr = Some Exists \<or> opr = Some DoesNotExist then
            (case NewRequirement key (the opr) [] of
               Inl err \<Rightarrow> Inl err
             | Inr r \<Rightarrow> Inr (r, rest))
          else (case parseOperator rest of
                  Inl err \<Rightarrow> Inl err
                | Inr (opr2, rest2) \<Rightarrow>
                    (case (if opr2 = In \<or> opr2 = NotIn then parseValues rest2 else parseExactValue rest2) of
                       Inl err \<Rightarrow> Inl err
                     | Inr (values, rest3) \<Rightarrow>
                         (case NewRequirement key opr2 (set_List values) of
                            Inl err \<Rightarrow> Inl err
                          | Inr r \<Rightarrow> Inr (r, rest3)))))"

lemma parseIdentifiersList_length:
  "parseIdentifiersList s its = Inr (x, rest) \<Longrightarrow> length rest < length its"
proof (induction "length its" arbitrary: s its rule: less_induct)
  case less
  then obtain tok lit rest1 where c: "consume Values its = Inr ((tok, lit), rest1)"
    by (subst (asm) parseIdentifiersList.simps) (auto split: sum.splits)
  from consume_length [OF c] have lt: "length rest1 < length its" and tl: "length (tl rest1) < length its"
    by simp_all
  have IH: "length r < length its \<Longrightarrow> parseIdentifiersList s' r = Inr (x, rest) \<Longrightarrow> length rest < length its" for s' r
    using less.hyps [of r s'] by simp
  show ?case
    using less.prems lt IH [OF lt] IH [OF tl]
    by (subst (asm) parseIdentifiersList.simps) (auto simp: c Let_def split: sum.splits if_splits)
qed

lemma parseValues_length: "parseValues its = Inr (x, rest) \<Longrightarrow> length rest < length its"
  by (auto simp: parseValues_def split: sum.splits if_splits
      dest!: consume_length parseIdentifiersList_length)

lemma parseExactValue_length: "parseExactValue its = Inr (x, rest) \<Longrightarrow> length rest \<le> length its"
  by (auto simp: parseExactValue_def split: sum.splits if_splits dest!: consume_length)

lemma parseOperator_length: "parseOperator its = Inr (x, rest) \<Longrightarrow> length rest < length its"
  by (auto simp: parseOperator_def split: sum.splits token.splits dest!: consume_length)

lemma parseKey_length: "parseKeyAndInferOperator its = Inr (x, rest) \<Longrightarrow> length rest < length its"
  by (auto simp: parseKeyAndInferOperator_def split: sum.splits if_splits dest!: consume_length)

lemma parseRequirement_length: "parseRequirement its = Inr (x, rest) \<Longrightarrow> length rest < length its"
  by (auto simp: parseRequirement_def split: sum.splits if_splits prod.splits
      dest!: parseKey_length parseOperator_length parseValues_length parseExactValue_length)

function parse_loop :: "requirement list \<Rightarrow> items \<Rightarrow> error + requirement list" where
  "parse_loop reqs its =
     (case lookahead Values its of
        Inl e \<Rightarrow> Inl e
      | Inr (tok, lit) \<Rightarrow>
          if tok = Identifier \<or> tok = NotExistToken then
            (case parseRequirement its of
               Inl err \<Rightarrow> Inl (RequirementFailed err)
             | Inr (r, rest) \<Rightarrow>
                 (case consume Values rest of
                    Inl e \<Rightarrow> Inl e
                  | Inr ((t, l), rest2) \<Rightarrow>
                      if t = EndOfString then Inr (reqs @ [r])
                      else if t = Comma then
                        (case lookahead Values rest2 of
                           Inl e \<Rightarrow> Inl e
                         | Inr (t2, l2) \<Rightarrow>
                             if t2 \<noteq> Identifier \<and> t2 \<noteq> NotExistToken then Inl (SelectorFound l2)
                             else parse_loop (reqs @ [r]) rest2)
                      else Inl (SelectorFound l)))
          else if tok = EndOfString then Inr reqs
          else Inl (SelectorFound lit))"
  by pat_completeness auto
termination
  by (relation "measure (\<lambda>(reqs, its). length its)")
    (auto dest!: sym [of "Inr _"] parseRequirement_length consume_length)

declare parse_loop.simps [simp del]

definition selector_parse :: "string \<Rightarrow> error + requirement list" where
  "selector_parse s =
     (case parse_loop [] (scan s) of Inl err \<Rightarrow> Inl err | Inr reqs \<Rightarrow> Inr (sort_key rq_key reqs))"

interpretation rqs: sorter "\<lambda>a b. rq_key a < rq_key b" rq_key "sort_key rq_key"
  by (rule sort_key_sorter)

end
