(* ===== verification/LabelText.thy ===== *)
theory LabelText
  imports Labels
begin

text \<open>
  Reading back the selector texts the program builds: requirements of the forms
  \<open>key in (a,b)\<close>, \<open>key notin (a,b)\<close>, \<open>key\<close> and \<open>!key\<close>, joined by commas.  Lexer and parser
  return these requirements, sorted by key.
\<close>

section \<open>Words the lexer keeps whole\<close>

definition plain_char :: "char \<Rightarrow> bool" where
  "plain_char c \<longleftrightarrow> c \<noteq> nul \<and> \<not> isSpecialSymbol c \<and> \<not> isWhitespace c"

definition plain :: "string \<Rightarrow> bool" where
  "plain s \<longleftrightarrow> s \<noteq> [] \<and> list_all plain_char s"

text \<open>Where a word ends.\<close>

definition stops :: "string \<Rightarrow> bool" where
  "stops s \<longleftrightarrow> s = [] \<or> isSpecialSymbol (hd s) \<or> isWhitespace (hd s)"

lemma stops_simps [simp]: "stops []" "stops (CHR '' '' # s)" "stops (CHR '','' # s)" "stops (CHR '')'' # s)"
  by (simp_all add: stops_def isWhitespace_def isSpecialSymbol_def)

lemma name_char_plain: "name_char c \<or> c = CHR ''/'' \<Longrightarrow> plain_char c"
  by (auto simp: plain_char_def name_char_def alnum_def isSpecialSymbol_def isWhitespace_def nul_def Let_def)

lemma split_on_chars: "x \<in> set s \<Longrightarrow> x = c \<or> (\<exists>p \<in> set (split_on c s). x \<in> set p)"
  by (induction s) (auto split: list.splits)

lemma lower_alnum_name: "lower_alnum c \<or> c = CHR ''-'' \<or> c = CHR ''.'' \<Longrightarrow> name_char c"
  by (auto simp: lower_alnum_def name_char_def alnum_def Let_def)

lemma subdomain_chars: "IsDNS1123Subdomain s \<Longrightarrow> x \<in> set s \<Longrightarrow> name_char x"
  using split_on_chars [of x s "CHR ''.''"]
  by (fastforce simp: IsDNS1123Subdomain_def dns_label_def list_all_iff intro: lower_alnum_name)

lemma qualified_key_chars:
  assumes "IsQualifiedName s" and "x \<in> set s"
  shows "name_char x \<or> x = CHR ''/''"
proof -
  have "list_all (list_all name_char) (split_on (CHR ''/'') s)"
    using assms(1) subdomain_chars
    by (auto simp: IsQualifiedName_def qualified_name_def list_all_iff split: list.splits)
  then show ?thesis
    using split_on_chars [OF assms(2), of "CHR ''/''"] by (auto simp: list_all_iff)
qed

lemma qualified_key_plain: "IsQualifiedName s \<Longrightarrow> plain s"
proof -
  assume q: "IsQualifiedName s"
  then have "s \<noteq> []" by (auto simp: IsQualifiedName_def)
  with q qualified_key_chars name_char_plain show ?thesis by (auto simp: plain_def list_all_iff)
qed

lemma label_value_plain: "IsValidLabelValue s \<Longrightarrow> s \<noteq> [] \<Longrightarrow> plain s"
  by (auto simp: IsValidLabelValue_def label_value_form_def qualified_name_def plain_def list_all_iff
      intro: name_char_plain)

section \<open>Lexing\<close>

lemma scan_id_plain: "list_all plain_char w \<Longrightarrow> stops rest \<Longrightarrow> scan_id (w @ rest) = (w, rest)"
proof (induction w)
  case Nil
  then show ?case
    by (cases rest) (auto simp: stops_def isSpecialSymbol_def isWhitespace_def nul_def)
qed (simp add: plain_char_def)

definition word_token :: "string \<Rightarrow> token" where
  "word_token w = (case string2token w of Some tok \<Rightarrow> tok | None \<Rightarrow> Identifier)"

lemma plain_token:
  assumes "plain w"
  shows "word_token w \<in> {Identifier, InToken, NotInToken}"
proof -
  obtain c cs where w: "w = c # cs" and "\<not> isSpecialSymbol c"
    using assms by (cases w) (auto simp: plain_def plain_char_def)
  then show ?thesis
    by (auto simp: word_token_def string2token_def isSpecialSymbol_def)
qed

lemma plain_token_value [simp]: "plain w \<Longrightarrow> in_context Values (word_token w) = Identifier"
  using plain_token [of w] by auto

lemma plain_token_not_end: "plain w \<Longrightarrow> word_token w \<noteq> EndOfString"
  using plain_token [of w] by auto

lemma Lex_plain:
  assumes "plain w" and "stops rest"
  shows "Lex (w @ rest) = ((word_token w, w), rest)"
proof -
  obtain c cs where w: "w = c # cs" using assms(1) by (cases w) (auto simp: plain_def)
  have "scan_id (w @ rest) = (w, rest)" using assms by (intro scan_id_plain) (simp_all add: plain_def)
  with assms show ?thesis by (simp add: Lex_def w plain_def plain_char_def word_token_def)
qed

lemma scan_plain: "plain w \<Longrightarrow> stops rest \<Longrightarrow> scan (w @ rest) = (word_token w, w) # scan rest"
  by (subst scan.simps) (simp add: Lex_plain plain_token_not_end)

lemma scan_space: "scan (CHR '' '' # s) = scan s"
proof -
  have "Lex (CHR '' '' # s) = Lex s" by (simp add: Lex_def isWhitespace_def)
  then show ?thesis by (subst (1 2) scan.simps) simp
qed

lemma scan_end: "scan [] = [(EndOfString, [])]"
  by (subst scan.simps) (simp add: Lex_def)

text \<open>Parentheses and commas are tokens whatever follows.\<close>

lemma scan_symbol_single:
  assumes "\<And>d. isSpecialSymbol d \<Longrightarrow> string2token [c, d] = None"
  shows "scan_symbol [c] (Some item) s = (Some item, if s \<noteq> [] \<and> hd s = nul then tl s else s)"
  using assms by (cases s) auto

definition follows :: "string \<Rightarrow> bool" where
  "follows s \<longleftrightarrow> s = [] \<or> hd s \<noteq> nul"

lemma scan_single:
  assumes "isSpecialSymbol c" and "\<And>d. isSpecialSymbol d \<Longrightarrow> string2token [c, d] = None"
    and "string2token [c] = Some tok" and "follows s"
  shows "scan (c # s) = (tok, [c]) # scan s"
proof -
  have c: "\<not> isWhitespace c" "c \<noteq> nul" using assms(1) by (auto simp: isSpecialSymbol_def isWhitespace_def nul_def)
  have "scan_symbol [] None (c # s) = (Some (tok, [c]), s)"
    using assms c scan_symbol_single [OF assms(2), of "(tok, [c])" s] by (auto simp: follows_def)
  moreover have "tok \<noteq> EndOfString"
    using assms(3) by (auto simp: string2token_def split: if_splits)
  ultimately show ?thesis
    using assms(1) c by (subst scan.simps) (simp add: Lex_def)
qed

lemma scan_punctuation:
  "follows s \<Longrightarrow> scan (CHR ''('' # s) = (OpenPar, ''('') # scan s"
  "follows s \<Longrightarrow> scan (CHR '')'' # s) = (ClosedPar, '')'') # scan s"
  "follows s \<Longrightarrow> scan (CHR '','' # s) = (Comma, '','') # scan s"
  by (rule scan_single; auto simp: isSpecialSymbol_def string2token_def)+

lemma scan_bang:
  assumes "plain w" and "stops rest"
  shows "scan (CHR ''!'' # w @ rest) = (NotExistToken, ''!'') # scan (w @ rest)"
proof -
  obtain c cs where w: "w = c # cs" and c: "plain_char c" using assms(1) by (cases w) (auto simp: plain_def)
  have "scan_symbol [] None (CHR ''!'' # w @ rest) = (Some (NotExistToken, ''!''), w @ rest)"
    using c by (auto simp: w plain_char_def isSpecialSymbol_def nul_def string2token_def)
  then show ?thesis
    by (subst scan.simps) (simp add: Lex_def isWhitespace_def isSpecialSymbol_def nul_def)
qed

section \<open>The texts\<close>

text \<open>One requirement as the program prints it.\<close>

fun req_text :: "string \<times> operator \<times> string list \<Rightarrow> string" where
  "req_text (key, In, vs) = key @ '' in ('' @ join_with '','' vs @ '')''"
| "req_text (key, NotIn, vs) = key @ '' notin ('' @ join_with '','' vs @ '')''"
| "req_text (key, DoesNotExist, vs) = ''!'' @ key"
| "req_text (key, _, vs) = key"

text \<open>What it means: a sorted set of values; no value at all is the empty value.\<close>

fun req_of :: "string \<times> operator \<times> string list \<Rightarrow> requirement" where
  "req_of (key, opr, vs) = \<lparr>rq_key = key, rq_op = opr,
     rq_values = (if opr = In \<or> opr = NotIn then (if vs = [] then [[]] else sort (remdups vs)) else [])\<rparr>"

fun req_ok :: "string \<times> operator \<times> string list \<Rightarrow> bool" where
  "req_ok (key, opr, vs) \<longleftrightarrow> IsQualifiedName key \<and> opr \<in> {In, NotIn, Exists, DoesNotExist} \<and>
     list_all (\<lambda>v. v \<noteq> [] \<and> IsValidLabelValue v) vs"

fun value_items :: "string list \<Rightarrow> items" where
  "value_items [] = []"
| "value_items [v] = [(word_token v, v)]"
| "value_items (v # w # vs) = (word_token v, v) # (Comma, '','') # value_items (w # vs)"

definition set_items :: "string list \<Rightarrow> items" where
  "set_items vs = (OpenPar, ''('') # value_items vs @ [(ClosedPar, '')'')]"

fun req_items :: "string \<times> operator \<times> string list \<Rightarrow> items" where
  "req_items (key, In, vs) = (word_token key, key) # (InToken, ''in'') # set_items vs"
| "req_items (key, NotIn, vs) = (word_token key, key) # (NotInToken, ''notin'') # set_items vs"
| "req_items (key, DoesNotExist, vs) = [(NotExistToken, ''!''), (word_token key, key)]"
| "req_items (key, _, vs) = [(word_token key, key)]"

lemma plain_follows: "plain w \<Longrightarrow> follows (w @ s)"
  by (cases w) (auto simp: plain_def plain_char_def follows_def)

lemma follows_simps [simp]: "follows []" "follows (CHR '' '' # s)" "follows (CHR '','' # s)"
  "follows (CHR '')'' # s)" "follows (CHR ''('' # s)" "follows (CHR ''!'' # s)"
  by (simp_all add: follows_def nul_def)

lemma scan_values:
  "list_all plain vs \<Longrightarrow> scan (join_with '','' vs @ CHR '')'' # s) = value_items vs @ scan (CHR '')'' # s)"
proof (induction vs rule: value_items.induct)
  case (3 v w vs)
  have "plain w" using "3.prems" by simp
  then have "follows (join_with '','' (w # vs) @ CHR '')'' # s)"
    by (cases vs) (simp_all add: plain_follows)
  with 3 show ?case by (simp add: scan_plain scan_punctuation)
qed (simp_all add: scan_plain)

lemma join_follows: "list_all plain vs \<Longrightarrow> follows (join_with '','' vs @ CHR '')'' # s)"
  by (cases vs rule: value_items.cases) (simp_all add: plain_follows)

lemma scan_set:
  assumes "list_all plain vs" and "follows s"
  shows "scan (CHR ''('' # join_with '','' vs @ CHR '')'' # s) = set_items vs @ scan s"
  using assms by (simp add: scan_punctuation join_follows scan_values set_items_def)

lemma word_keywords: "word_token ''in'' = InToken" "word_token ''notin'' = NotInToken" "plain ''in''" "plain ''notin''"
  by (simp_all add: word_token_def string2token_def plain_def plain_char_def isSpecialSymbol_def isWhitespace_def nul_def)

lemma req_ok_plain: "req_ok (key, opr, vs) \<Longrightarrow> plain key \<and> list_all plain vs"
  by (auto simp: list_all_iff qualified_key_plain label_value_plain)

lemma scan_keyword_set:
  assumes "plain kw" and "list_all plain vs" and "follows s"
  shows "scan (CHR '' '' # kw @ CHR '' '' # CHR ''('' # join_with '','' vs @ CHR '')'' # s) =
    (word_token kw, kw) # set_items vs @ scan s"
  using assms by (simp add: scan_space scan_plain scan_set)

lemma scan_req:
  assumes "req_ok r" and "s = [] \<or> hd s = CHR '',''"
  shows "scan (req_text r @ s) = req_items r @ scan s"
proof -
  obtain key opr vs where r: "r = (key, opr, vs)" by (cases r)
  have pl: "plain key" "list_all plain vs" using req_ok_plain [OF assms(1) [unfolded r]] by blast+
  have s: "stops s" "follows s" using assms(2) by (auto simp: stops_def follows_def isSpecialSymbol_def nul_def)
  have kw: "scan (CHR '' '' # CHR ''i'' # CHR ''n'' # CHR '' '' # CHR ''('' # join_with '','' vs @ CHR '')'' # s) =
      (InToken, ''in'') # set_items vs @ scan s"
    "scan (CHR '' '' # CHR ''n'' # CHR ''o'' # CHR ''t'' # CHR ''i'' # CHR ''n'' # CHR '' '' # CHR ''('' #
      join_with '','' vs @ CHR '')'' # s) = (NotInToken, ''notin'') # set_items vs @ scan s"
    using scan_keyword_set [OF word_keywords(3) pl(2) s(2)] scan_keyword_set [OF word_keywords(4) pl(2) s(2)]
    by (simp_all add: word_keywords(1,2))
  show ?thesis
    using assms(1) pl s by (auto simp: r scan_plain kw scan_bang)
qed

lemma req_text_follows: "req_ok r \<Longrightarrow> follows (req_text r @ s)"
proof -
  assume ok: "req_ok r"
  obtain key opr vs where r: "r = (key, opr, vs)" by (cases r)
  have "plain key" using req_ok_plain [OF ok [unfolded r]] by blast
  then show ?thesis by (cases opr) (simp_all add: r plain_follows)
qed

fun reqs_items :: "(string \<times> operator \<times> string list) list \<Rightarrow> items" where
  "reqs_items [] = [(EndOfString, [])]"
| "reqs_items [r] = req_items r @ [(EndOfString, [])]"
| "reqs_items (r # r' # rs) = req_items r @ (Comma, '','') # reqs_items (r' # rs)"

lemma scan_reqs: "list_all req_ok rs \<Longrightarrow> scan (join_with '','' (map req_text rs)) = reqs_items rs"
proof (induction rs rule: reqs_items.induct)
  case (2 r)
  then show ?case using scan_req [of r "[]"] by (simp add: scan_end)
next
  case (3 r r' rs)
  have "follows (join_with '','' (map req_text (r' # rs)))"
    using 3 req_text_follows [of r'] by (cases rs) (auto, metis append.right_neutral)
  with 3 show ?case by (simp add: scan_req scan_punctuation)
qed (simp add: scan_end)

section \<open>Parsing\<close>

lemma value_items_look: "vs \<noteq> [] \<Longrightarrow> list_all plain vs \<Longrightarrow>
  \<exists>lit. lookahead Values (value_items vs @ its) = Inr (Identifier, lit)"
  by (cases vs rule: value_items.cases) simp_all

lemma insert_nonempty [simp]: "List.insert v s \<noteq> []"
  by (auto simp: List.insert_def)

lemma parse_values_list:
  "vs \<noteq> [] \<Longrightarrow> list_all plain vs \<Longrightarrow>
   parseIdentifiersList acc (value_items vs @ (ClosedPar, p) # its) = Inr (fold List.insert vs acc, (ClosedPar, p) # its)"
proof (induction vs arbitrary: acc rule: value_items.induct)
  case (2 v)
  then show ?case by (subst parseIdentifiersList.simps) simp
next
  case (3 v w vs)
  have "parseIdentifiersList acc (value_items (v # w # vs) @ (ClosedPar, p) # its) =
      parseIdentifiersList (List.insert v acc) ((Comma, '','') # value_items (w # vs) @ (ClosedPar, p) # its)"
    using "3.prems" by (subst parseIdentifiersList.simps) simp
  also have "\<dots> = parseIdentifiersList (List.insert v acc) (value_items (w # vs) @ (ClosedPar, p) # its)"
    using "3.prems" value_items_look [of "w # vs" "(ClosedPar, p) # its"]
    by (subst parseIdentifiersList.simps) (auto simp: Let_def)
  finally show ?case using 3 by simp
qed simp

lemma parse_values_set:
  "list_all plain vs \<Longrightarrow>
   parseValues (set_items vs @ its) = Inr (if vs = [] then [[]] else fold List.insert vs [], its)"
  using value_items_look [of vs "(ClosedPar, '')'') # its"] parse_values_list [of vs "[]" "'')''" its]
  by (cases "vs = []") (auto simp: parseValues_def set_items_def)

lemma fold_insert_set: "set (fold List.insert vs s) = set vs \<union> set s"
  by (induction vs arbitrary: s) auto

lemma fold_insert_distinct: "distinct s \<Longrightarrow> distinct (fold List.insert vs s)"
  by (induction vs arbitrary: s) auto

lemma set_List_fold: "set_List (fold List.insert vs []) = sort (remdups vs)"
proof -
  have "distinct (fold List.insert vs ([] :: string list))" by (rule fold_insert_distinct) simp
  then have "mset (fold List.insert vs []) = mset_set (set vs)"
    by (metis fold_insert_set mset_set_set sup_bot.right_neutral list.set(1))
  moreover have "mset (remdups vs) = mset_set (set vs)" by (metis distinct_remdups mset_set_set set_remdups)
  ultimately have "mset (fold List.insert vs []) = mset (remdups vs)" by simp
  then show ?thesis
    using \<open>distinct (fold List.insert vs [])\<close>
    by (simp add: set_List_def distinct_remdups_id) (metis mset_sort properties_for_sort sorted_sort)
qed

lemma bad_value_None: "bad_value vs = None \<longleftrightarrow> (\<forall>v \<in> set vs. IsValidLabelValue v)"
  by (induction vs) auto

lemma empty_value_valid: "IsValidLabelValue []"
  by (simp add: IsValidLabelValue_def label_value_form_def)

text \<open>After a requirement comes a comma or the end.\<close>

fun ends_req :: "items \<Rightarrow> bool" where
  "ends_req ((t, l) # its) \<longleftrightarrow> t = Comma \<or> t = EndOfString"
| "ends_req [] = False"

lemma ends_req_look: "ends_req its \<Longrightarrow> \<exists>t l. lookahead Values its = Inr (t, l) \<and> (t = Comma \<or> t = EndOfString)"
  by (cases its rule: ends_req.cases) auto

lemma sort_empty: "sort xs = [] \<longleftrightarrow> xs = []" for xs :: "string list"
  by (metis length_sort length_0_conv)

lemma parse_keyword_set:
  assumes "plain key" and "IsQualifiedName key" and "list_all (\<lambda>v. v \<noteq> [] \<and> IsValidLabelValue v) vs"
    and "opr = In \<and> tok = InToken \<or> opr = NotIn \<and> tok = NotInToken"
  shows "parseRequirement ((word_token key, key) # (tok, kw) # set_items vs @ its) = Inr (req_of (key, opr, vs), its)"
proof -
  have "list_all plain vs" using assms(3) by (auto simp: list_all_iff label_value_plain)
  from parse_values_set [OF this] have vals: "parseValues (set_items vs @ its) =
      Inr (if vs = [] then [[]] else fold List.insert vs [], its)" .
  let ?v = "if vs = [] then [[]] else sort (remdups vs)"
  have lst: "set_List (if vs = [] then [[]] else fold List.insert vs []) = ?v"
    by (simp add: set_List_fold) (simp add: set_List_def)
  have "bad_value ?v = None"
    using assms(3) by (auto simp: bad_value_None list_all_iff empty_value_valid)
  moreover have "length ?v \<noteq> 0" by (simp add: sort_empty)
  ultimately have "NewRequirement key opr ?v = Inr (req_of (key, opr, vs))"
    using assms(2,4) by (auto simp: NewRequirement_def)
  moreover have "parseKeyAndInferOperator ((word_token key, key) # (tok, kw) # set_items vs @ its) =
      Inr ((key, None), (tok, kw) # set_items vs @ its)"
    using assms(1,2,4) by (auto simp: parseKeyAndInferOperator_def)
  moreover have "parseOperator ((tok, kw) # set_items vs @ its) = Inr (opr, set_items vs @ its)"
    using assms(4) by (auto simp: parseOperator_def)
  ultimately show ?thesis
    using assms(4) vals lst by (auto simp: parseRequirement_def)
qed

lemma parse_req:
  assumes "req_ok r" and "ends_req its"
  shows "parseRequirement (req_items r @ its) = Inr (req_of r, its)"
proof -
  obtain key opr vs where r: "r = (key, opr, vs)" by (cases r)
  have pl: "plain key" using req_ok_plain [OF assms(1) [unfolded r]] by blast
  have ok: "IsQualifiedName key" "list_all (\<lambda>v. v \<noteq> [] \<and> IsValidLabelValue v) vs"
    and opr: "opr \<in> {In, NotIn, Exists, DoesNotExist}"
    using assms(1) by (simp_all add: r)
  obtain t l where look: "lookahead Values its = Inr (t, l)" "t = Comma \<or> t = EndOfString"
    using ends_req_look [OF assms(2)] by blast
  have new: "NewRequirement key Exists [] = Inr (req_of (key, Exists, vs))"
    "NewRequirement key DoesNotExist [] = Inr (req_of (key, DoesNotExist, vs))"
    using ok(1) by (simp_all add: NewRequirement_def)
  have ex: "parseRequirement ((word_token key, key) # its) = Inr (req_of (key, Exists, vs), its)"
    using look ok(1) pl new by (auto simp: parseRequirement_def parseKeyAndInferOperator_def)
  have nex: "parseRequirement ((NotExistToken, ''!'') # (word_token key, key) # its) =
      Inr (req_of (key, DoesNotExist, vs), its)"
    using look ok(1) pl new by (auto simp: parseRequirement_def parseKeyAndInferOperator_def)
  show ?thesis
    using opr parse_keyword_set [OF pl ok, of In InToken "''in''" its]
      parse_keyword_set [OF pl ok, of NotIn NotInToken "''notin''" its] ex nex
    by (auto simp: r simp del: req_of.simps)
qed

lemma req_items_look:
  assumes "req_ok r"
  shows "\<exists>t l. lookahead Values (req_items r @ its) = Inr (t, l) \<and> (t = Identifier \<or> t = NotExistToken)"
proof -
  obtain key opr vs where r: "r = (key, opr, vs)" by (cases r)
  have "plain key" using req_ok_plain [OF assms(1) [unfolded r]] by blast
  then show ?thesis by (cases opr) (simp_all add: r)
qed

lemma reqs_items_look:
  "rs \<noteq> [] \<Longrightarrow> list_all req_ok rs \<Longrightarrow>
   \<exists>t l. lookahead Values (reqs_items rs) = Inr (t, l) \<and> (t = Identifier \<or> t = NotExistToken)"
  using req_items_look by (cases rs rule: reqs_items.cases) auto

lemma parse_loop_reqs: "list_all req_ok rs \<Longrightarrow> parse_loop acc (reqs_items rs) = Inr (acc @ map req_of rs)"
proof (induction rs arbitrary: acc rule: reqs_items.induct)
  case 1
  show ?case by (subst parse_loop.simps) simp
next
  case (2 r)
  obtain t l where "lookahead Values (req_items r @ [(EndOfString, [])]) = Inr (t, l)" "t = Identifier \<or> t = NotExistToken"
    using req_items_look [of r] 2 by fastforce
  moreover have "parseRequirement (req_items r @ [(EndOfString, [])]) = Inr (req_of r, [(EndOfString, [])])"
    using 2 by (intro parse_req) simp_all
  ultimately show ?case by (subst parse_loop.simps) (simp del: req_of.simps)
next
  case (3 r r' rs)
  let ?rest = "reqs_items (r' # rs)"
  have ok: "req_ok r" "list_all req_ok (r' # rs)" using 3 by simp_all
  obtain t l where look: "lookahead Values (req_items r @ (Comma, '','') # ?rest) = Inr (t, l)"
    "t = Identifier \<or> t = NotExistToken"
    using req_items_look [OF ok(1)] by blast
  obtain t2 l2 where look2: "lookahead Values ?rest = Inr (t2, l2)" "t2 = Identifier \<or> t2 = NotExistToken"
    using reqs_items_look [of "r' # rs"] ok by blast
  have "parseRequirement (req_items r @ (Comma, '','') # ?rest) = Inr (req_of r, (Comma, '','') # ?rest)"
    using ok by (intro parse_req) simp_all
  then have "parse_loop acc (reqs_items (r # r' # rs)) = parse_loop (acc @ [req_of r]) ?rest"
    using look look2 by (subst parse_loop.simps) (auto simp del: req_of.simps reqs_items.simps(3) simp: reqs_items.simps(3) [of r])
  with 3 ok show ?case by simp
qed

text \<open>The parser reads back what was printed.\<close>

lemma parse_texts:
  "list_all req_ok rs \<Longrightarrow>
   selector_parse (join_with '','' (map req_text rs)) = Inr (sort_key rq_key (map req_of rs))"
  by (simp add: selector_parse_def scan_reqs parse_loop_reqs del: req_of.simps)

end
