(* ===== verification/NsSelector.thy ===== *)
theory NsSelector
  imports LabelText PredicatePlugin
begin

text \<open>
  \<^verbatim>\<open>pkg/algorithm/predicate/namespaces_nodeselector.go\<close>: which nodes the pods of a namespace may
  use.  The configuration is a JSON text in a config map, read through a cache of five
  seconds; a namespace's entry is printed as a label selector, which is parsed and matched
  against the labels of the node.  The JSON decoder is a parameter.
\<close>

section \<open>The configuration\<close>

text \<open>
  \<^verbatim>\<open>map[string]struct{}\<close>, \<^verbatim>\<open>LabelValues\<close>, and the item with its four maps.  Each of the maps may be
  nil (the decoder makes it so for the text \<open>null\<close>); a nil map reads as an empty one.
\<close>

definition or_empty :: "'a list option \<Rightarrow> 'a list" where
  "or_empty m = (case m of None \<Rightarrow> [] | Some lvs \<Rightarrow> lvs)"

type_synonym string_set = "(string, unit) gomap option"
type_synonym label_values = "(string, string_set) gomap"

record ns_config_item =
  ci_Match :: "label_values option"
  ci_MustMatch :: "label_values option"
  ci_NotMatch :: "label_values option"
  ci_MustNotMatch :: "label_values option"

type_synonym ns_config = "(string, ns_config_item) gomap"

record config_map =
  cm_namespace :: string
  cm_name :: string
  cm_data :: "(string, string) gomap option"

definition nsnodeselector_configmap_ns :: string where "nsnodeselector_configmap_ns = ''kube-system''"
definition nsnodeselector_configmap_name :: string where "nsnodeselector_configmap_name = ''nsnodeselector''"
definition Nsnodeselector_systemlabel :: string where "Nsnodeselector_systemlabel = ''enndata.cn/systemnode''"
definition nsnodeselector_itemname :: string where "nsnodeselector_itemname = ''nsnodeselector.json''"

definition empty_item :: ns_config_item where
  "empty_item = \<lparr>ci_Match = None, ci_MustMatch = None, ci_NotMatch = None, ci_MustNotMatch = None\<rparr>"

fun MapHasString :: "string_set \<Rightarrow> string list \<Rightarrow> bool" where
  "MapHasString m [] = False"
| "MapHasString m (str # strs) = (if gget (or_empty m) str \<noteq> None then True else MapHasString m strs)"

text \<open>The order of Go's map iteration is that of the association list.\<close>

definition ListMapString :: "string_set \<Rightarrow> string list" where
  "ListMapString m = map fst (or_empty m)"

definition add_values :: "string list \<Rightarrow> (string, unit) gomap \<Rightarrow> (string, unit) gomap" where
  "add_values strs valueMap = fold (\<lambda>str. gput str ()) strs valueMap"

text \<open>Writing to a nil map panics, be it \<^verbatim>\<open>lvs\<close> or the value map found in it.\<close>

definition InsertValue :: "label_values option \<Rightarrow> string \<Rightarrow> string \<Rightarrow> label_values option outcome" where
  "InsertValue lvs k v =
     (let strs = (if v \<noteq> [] then split_on (CHR '','') v else [[]])
      in case gget (or_empty lvs) k of
           Some valueMap \<Rightarrow>
             (case valueMap of
                None \<Rightarrow> Panic
              | Some vm \<Rightarrow> Done (Some (gput k (Some (add_values strs vm)) (or_empty lvs))))
         | None \<Rightarrow>
             (case lvs of
                None \<Rightarrow> Panic
              | Some m \<Rightarrow> Done (Some (gput k (Some (add_values strs [])) m))))"

text \<open>
  The defaults: without \<^verbatim>\<open>NotMatch\<close>, system nodes are excluded.  The decoder gives the map or
  nil (for the text \<open>null\<close>); adding a namespace to a nil map panics.
\<close>

definition default_item :: "ns_config_item \<Rightarrow> ns_config_item" where
  "default_item item =
     (case ci_NotMatch item of
        None \<Rightarrow> item\<lparr>ci_NotMatch := Some (gput Nsnodeselector_systemlabel (Some (gput ''*'' () [])) [])\<rparr>
      | Some _ \<Rightarrow> item)"

fun add_namespaces :: "string list \<Rightarrow> ns_config option \<Rightarrow> ns_config option outcome" where
  "add_namespaces [] ret = Done ret"
| "add_namespaces (ns # nss) ret =
     (case ret of
        None \<Rightarrow> Panic
      | Some m \<Rightarrow> (case gget m ns of
                     None \<Rightarrow> add_namespaces nss (Some (gput ns empty_item m))
                   | Some _ \<Rightarrow> add_namespaces nss ret))"

definition config_text :: "config_map option \<Rightarrow> string" where
  "config_text cm =
     (case cm of None \<Rightarrow> ''{}''
      | Some c \<Rightarrow>
          (let data = (case cm_data c of None \<Rightarrow> [] | Some d \<Rightarrow> gget_str d nsnodeselector_itemname)
           in if data \<noteq> [] then data else ''{}''))"

definition GetNsConfigByConfigMap ::
  "(string \<Rightarrow> error + ns_config option) \<Rightarrow> config_map option \<Rightarrow> string list option \<Rightarrow> ns_config option outcome"
where
  "GetNsConfigByConfigMap decode cm namespaces =
     (case decode (config_text cm) of
        Inl err \<Rightarrow> Done None
      | Inr ret \<Rightarrow>
          (case (case namespaces of None \<Rightarrow> Done ret | Some nss \<Rightarrow> add_namespaces nss ret) of
             Panic \<Rightarrow> Panic
           | Done ret' \<Rightarrow> Done (map_option (map (\<lambda>(ns, item). (ns, default_item item))) ret')))"

section \<open>The selector of a namespace\<close>

definition wildcard :: "string_set \<Rightarrow> bool" where
  "wildcard vals = MapHasString vals [[], ''*'']"

text \<open>The loops over \<^verbatim>\<open>Match\<close> and \<^verbatim>\<open>MustMatch\<close>, and over \<^verbatim>\<open>NotMatch\<close> and \<^verbatim>\<open>MustNotMatch\<close>.\<close>

fun match_texts :: "label_values \<Rightarrow> string list" where
  "match_texts [] = []"
| "match_texts ((key, mapValue) # lvs) =
     (if key \<noteq> [] then
        (if MapHasString mapValue [[], ''*''] = False
         then (key @ '' in ('' @ join_with '','' (ListMapString mapValue) @ '')'') # match_texts lvs
         else key # match_texts lvs)
      else match_texts lvs)"

fun notmatch_texts :: "label_values \<Rightarrow> string list" where
  "notmatch_texts [] = []"
| "notmatch_texts ((key, mapValue) # lvs) =
     (if key \<noteq> [] then
        (if MapHasString mapValue [[], ''*''] = False
         then (key @ '' notin ('' @ join_with '','' (ListMapString mapValue) @ '')'') # notmatch_texts lvs
         else (''!'' @ key) # notmatch_texts lvs)
      else notmatch_texts lvs)"

definition default_selector :: "error + requirement list" where
  "default_selector =
     (case selector_parse (''!'' @ Nsnodeselector_systemlabel) of Inl err \<Rightarrow> Inr [] | Inr ret \<Rightarrow> Inr ret)"

definition GetNsLabelSelector :: "ns_config option \<Rightarrow> string \<Rightarrow> error + requirement list" where
  "GetNsLabelSelector nsConfig ns =
     (case nsConfig of
        None \<Rightarrow> default_selector
      | Some m \<Rightarrow>
          (case gget m ns of
             None \<Rightarrow> default_selector
           | Some item \<Rightarrow>
               selector_parse (join_with '',''
                 (match_texts (or_empty (ci_Match item)) @ match_texts (or_empty (ci_MustMatch item)) @
                  notmatch_texts (or_empty (ci_NotMatch item)) @ notmatch_texts (or_empty (ci_MustNotMatch item))))))"

section \<open>The predicate\<close>

definition nsName :: string where
  "nsName = ''namespacenodeselector''"

text \<open>
  The package's variables: the cached config map and the time it was read, in nanoseconds.  The
  cached object is shared with the HTTP server of the same package; here it is a value.
\<close>

record ns_cache =
  nsNodeSelectorConfigMap :: "config_map option"
  nsNodeSelectorConfigMapUpdateTime :: int

definition nsNodeSelectorConfigMapCacheTimeOut :: int where
  "nsNodeSelectorConfigMapCacheTimeOut = 5 * 10 ^ 9"

definition empty_config_map :: config_map where
  "empty_config_map = \<lparr>cm_namespace = nsnodeselector_configmap_ns, cm_name = nsnodeselector_configmap_name,
     cm_data = Some []\<rparr>"

text \<open>\<open>now\<close> and \<open>now2\<close> are the two readings of the clock, \<open>got\<close> the answer of the API server.\<close>

definition getConfigCM ::
  "int \<Rightarrow> int \<Rightarrow> error + config_map option \<Rightarrow> ns_cache \<Rightarrow> config_map \<times> ns_cache" where
  "getConfigCM now now2 got st =
     (case
        (case nsNodeSelectorConfigMap st of
           Some cached \<Rightarrow>
             if now - nsNodeSelectorConfigMapUpdateTime st \<le> nsNodeSelectorConfigMapCacheTimeOut
             then Some cached else None
         | None \<Rightarrow> None)
      of Some cached \<Rightarrow> (cached, st)
       | None \<Rightarrow>
           (case got of
              Inl err \<Rightarrow> (empty_config_map, st)
            | Inr None \<Rightarrow> (empty_config_map, st)
            | Inr (Some cm) \<Rightarrow>
                (cm, \<lparr>nsNodeSelectorConfigMap = Some cm, nsNodeSelectorConfigMapUpdateTime = now2\<rparr>)))"

definition ns_match :: "ns_config option \<Rightarrow> pod \<Rightarrow> node \<Rightarrow> error + bool" where
  "ns_match config pd nd =
     (case GetNsLabelSelector config (pod_namespace pd) of
        Inl errGet \<Rightarrow> Inl (newPredicateError nsName (NodeLabelSelector (node_name nd) errGet))
      | Inr selector \<Rightarrow>
          if \<not> selector_Matches selector (node_labels nd) then Inr False else Inr True)"

definition ns_PodMatchNode ::
  "(string \<Rightarrow> error + ns_config option) \<Rightarrow> int \<Rightarrow> int \<Rightarrow> error + config_map option \<Rightarrow> ns_cache \<Rightarrow> pod \<Rightarrow> node \<Rightarrow>
   (error + bool) outcome \<times> ns_cache" where
  "ns_PodMatchNode decode now now2 got st pd nd =
     (case getConfigCM now now2 got st of
        (cm, st') \<Rightarrow>
          (case GetNsConfigByConfigMap decode (Some cm) None of
             Panic \<Rightarrow> (Panic, st')
           | Done config \<Rightarrow> (Done (ns_match config pd nd), st')))"

section \<open>What the selector means\<close>

text \<open>The requirements that the printed texts stand for.\<close>

definition match_reqs :: "label_values \<Rightarrow> (string \<times> operator \<times> string list) list" where
  "match_reqs lvs = map (\<lambda>(k, vals). (k, if wildcard vals then Exists else In,
     if wildcard vals then [] else ListMapString vals)) (filter (\<lambda>(k, vals). k \<noteq> []) lvs)"

definition notmatch_reqs :: "label_values \<Rightarrow> (string \<times> operator \<times> string list) list" where
  "notmatch_reqs lvs = map (\<lambda>(k, vals). (k, if wildcard vals then DoesNotExist else NotIn,
     if wildcard vals then [] else ListMapString vals)) (filter (\<lambda>(k, vals). k \<noteq> []) lvs)"

definition item_reqs :: "ns_config_item \<Rightarrow> (string \<times> operator \<times> string list) list" where
  "item_reqs item = match_reqs (or_empty (ci_Match item)) @ match_reqs (or_empty (ci_MustMatch item)) @
     notmatch_reqs (or_empty (ci_NotMatch item)) @ notmatch_reqs (or_empty (ci_MustNotMatch item))"

lemma match_texts_reqs: "match_texts lvs = map req_text (match_reqs lvs)"
  by (induction lvs rule: match_texts.induct) (simp_all add: match_reqs_def wildcard_def)

lemma notmatch_texts_reqs: "notmatch_texts lvs = map req_text (notmatch_reqs lvs)"
  by (induction lvs rule: notmatch_texts.induct) (simp_all add: notmatch_reqs_def wildcard_def)

text \<open>Keys are label keys (or empty, which is skipped) and listed values are label values.\<close>

definition values_ok :: "label_values \<Rightarrow> bool" where
  "values_ok lvs \<longleftrightarrow> list_all (\<lambda>(k, vals). k \<noteq> [] \<longrightarrow> IsQualifiedName k \<and>
     (wildcard vals \<or> list_all IsValidLabelValue (ListMapString vals))) lvs"

definition item_ok :: "ns_config_item \<Rightarrow> bool" where
  "item_ok item \<longleftrightarrow> values_ok (or_empty (ci_Match item)) \<and> values_ok (or_empty (ci_MustMatch item)) \<and>
     values_ok (or_empty (ci_NotMatch item)) \<and> values_ok (or_empty (ci_MustNotMatch item))"

lemma wildcard_iff: "wildcard vals \<longleftrightarrow> [] \<in> set (ListMapString vals) \<or> ''*'' \<in> set (ListMapString vals)"
  by (auto simp: wildcard_def ListMapString_def map_of_eq_None_iff)

lemma match_reqs_Cons [simp]:
  "match_reqs ((k, vals) # lvs) = (if k = [] then match_reqs lvs
     else (k, if wildcard vals then Exists else In, if wildcard vals then [] else ListMapString vals) # match_reqs lvs)"
  "notmatch_reqs ((k, vals) # lvs) = (if k = [] then notmatch_reqs lvs
     else (k, if wildcard vals then DoesNotExist else NotIn, if wildcard vals then [] else ListMapString vals) #
       notmatch_reqs lvs)"
  by (simp_all add: match_reqs_def notmatch_reqs_def)

lemma reqs_Nil [simp]: "match_reqs [] = []" "notmatch_reqs [] = []"
  by (simp_all add: match_reqs_def notmatch_reqs_def)

lemma values_ok_Cons [simp]:
  "values_ok ((k, vals) # lvs) \<longleftrightarrow> (k = [] \<or> IsQualifiedName k \<and>
     (wildcard vals \<or> list_all IsValidLabelValue (ListMapString vals))) \<and> values_ok lvs"
  by (auto simp: values_ok_def)

lemma listed_values_ok:
  "\<not> wildcard vals \<Longrightarrow> list_all (\<lambda>v. v \<noteq> [] \<and> IsValidLabelValue v) (ListMapString vals) \<longleftrightarrow>
     list_all IsValidLabelValue (ListMapString vals)"
  by (auto simp: wildcard_iff list_all_iff)

lemma match_reqs_ok: "values_ok lvs \<Longrightarrow> list_all req_ok (match_reqs lvs)"
proof (induction lvs)
  case (Cons e lvs)
  then show ?case by (cases e; cases "wildcard (snd e)") (auto simp: listed_values_ok)
qed simp

lemma notmatch_reqs_ok: "values_ok lvs \<Longrightarrow> list_all req_ok (notmatch_reqs lvs)"
proof (induction lvs)
  case (Cons e lvs)
  then show ?case by (cases e; cases "wildcard (snd e)") (auto simp: listed_values_ok)
qed simp

lemma item_selector:
  assumes "item_ok item" and "gget m ns = Some item"
  shows "GetNsLabelSelector (Some m) ns = Inr (sort_key rq_key (map req_of (item_reqs item)))"
proof -
  have "list_all req_ok (item_reqs item)"
    using assms(1) by (simp add: item_ok_def item_reqs_def match_reqs_ok notmatch_reqs_ok)
  from parse_texts [OF this] assms(2) show ?thesis
    by (simp add: GetNsLabelSelector_def match_texts_reqs notmatch_texts_reqs item_reqs_def del: req_of.simps)
qed

text \<open>
  A listed value set admits a label value; an empty set stands for the empty value.  A node is
  admitted by an item when every required key has an admitted value and no excluded one has.
\<close>

definition in_values :: "string_set \<Rightarrow> string \<Rightarrow> bool" where
  "in_values vals v \<longleftrightarrow> wildcard vals \<or> v \<in> set (ListMapString vals) \<or> (ListMapString vals = [] \<and> v = [])"

fun requires :: "label_values \<Rightarrow> (string, string) gomap \<Rightarrow> bool" where
  "requires [] ls = True"
| "requires ((k, vals) # lvs) ls =
     ((k = [] \<or> (case gget ls k of None \<Rightarrow> False | Some v \<Rightarrow> in_values vals v)) \<and> requires lvs ls)"

fun excludes :: "label_values \<Rightarrow> (string, string) gomap \<Rightarrow> bool" where
  "excludes [] ls = True"
| "excludes ((k, vals) # lvs) ls =
     ((k = [] \<or> (case gget ls k of None \<Rightarrow> True | Some v \<Rightarrow> \<not> in_values vals v)) \<and> excludes lvs ls)"

definition admits :: "ns_config_item \<Rightarrow> (string, string) gomap \<Rightarrow> bool" where
  "admits item ls \<longleftrightarrow>
     requires (or_empty (ci_Match item)) ls \<and> requires (or_empty (ci_MustMatch item)) ls \<and>
     excludes (or_empty (ci_NotMatch item)) ls \<and> excludes (or_empty (ci_MustNotMatch item)) ls"

text \<open>One entry: what its requirement says of the labels.\<close>

lemma match_entry:
  "Requirement_Matches (req_of (k, if wildcard vals then Exists else In, if wildcard vals then [] else ListMapString vals)) ls
     \<longleftrightarrow> (case gget ls k of None \<Rightarrow> False | Some v \<Rightarrow> in_values vals v)"
  by (cases "wildcard vals"; cases "gget ls k")
    (simp_all add: Requirement_Matches_def hasValue_def in_values_def gget_str_def)

lemma notmatch_entry:
  "Requirement_Matches (req_of (k, if wildcard vals then DoesNotExist else NotIn,
       if wildcard vals then [] else ListMapString vals)) ls
     \<longleftrightarrow> (case gget ls k of None \<Rightarrow> True | Some v \<Rightarrow> \<not> in_values vals v)"
  by (cases "wildcard vals"; cases "gget ls k")
    (simp_all add: Requirement_Matches_def hasValue_def in_values_def gget_str_def)

lemma match_reqs_meaning:
  "(\<forall>r \<in> set (match_reqs lvs). Requirement_Matches (req_of r) ls) \<longleftrightarrow> requires lvs ls"
proof (induction lvs ls rule: requires.induct)
  case (2 k vals lvs ls)
  then show ?case by (cases "k = []") (simp_all add: match_entry del: req_of.simps)
qed simp

lemma notmatch_reqs_meaning:
  "(\<forall>r \<in> set (notmatch_reqs lvs). Requirement_Matches (req_of r) ls) \<longleftrightarrow> excludes lvs ls"
proof (induction lvs ls rule: excludes.induct)
  case (2 k vals lvs ls)
  then show ?case by (cases "k = []") (simp_all add: notmatch_entry del: req_of.simps)
qed simp

end
