(* ===== verification/NsPredicate.thy ===== *)
theory NsPredicate
  imports NsSelector Samples
begin

text \<open>
  What the namespace predicate promises: the verdict on a node for every configuration whose
  keys and values are label keys and values, the defaults for namespaces without an entry,
  the age of the configuration used, and what a value that is no label value does.
\<close>

section \<open>Selectors\<close>

lemma default_selector_eq:
  "default_selector = Inr [\<lparr>rq_key = Nsnodeselector_systemlabel, rq_op = DoesNotExist, rq_values = []\<rparr>]"
  by code_simp

lemma systemlabel_key: "IsQualifiedName Nsnodeselector_systemlabel"
  by code_simp

lemma default_selector_matches:
  "default_selector = Inr sel \<Longrightarrow>
   selector_Matches sel ls \<longleftrightarrow> gget ls Nsnodeselector_systemlabel = None"
  by (auto simp: default_selector_eq Requirement_Matches_def split: if_splits)

lemma selector_admits:
  assumes "item_ok item" and "gget m ns = Some item"
  shows "\<exists>sel. GetNsLabelSelector (Some m) ns = Inr sel \<and> (\<forall>ls. selector_Matches sel ls \<longleftrightarrow> admits item ls)"
proof -
  have "selector_Matches (sort_key rq_key (map req_of (item_reqs item))) ls \<longleftrightarrow> admits item ls" for ls
    using match_reqs_meaning [of _ ls] notmatch_reqs_meaning [of _ ls]
    by (simp add: selector_Matches_all item_reqs_def admits_def ball_Un del: req_of.simps)
  then show ?thesis using item_selector [OF assms] by blast
qed

section \<open>Configurations\<close>

text \<open>The entry the predicate uses for a namespace: with the default, or none.\<close>

lemma gget_map_item:
  "gget (map (\<lambda>(ns, item). (ns, f item)) m) ns = map_option f (gget m ns)"
  by (induction m) auto

lemma default_item_ok:
  assumes "item_ok item"
  shows "item_ok (default_item item)"
proof (cases "ci_NotMatch item")
  case None
  have "values_ok [(Nsnodeselector_systemlabel, Some (gput ''*'' () []))]"
    by (simp add: systemlabel_key wildcard_iff ListMapString_def or_empty_def) (simp add: values_ok_def)
  with None assms show ?thesis by (simp add: item_ok_def default_item_def or_empty_def)
next
  case (Some lvs)
  with assms show ?thesis by (simp add: default_item_def)
qed

lemma config_of_decode:
  "GetNsConfigByConfigMap decode cm None =
     Done (case decode (config_text cm) of Inl e \<Rightarrow> None
           | Inr ret \<Rightarrow> map_option (map (\<lambda>(ns, item). (ns, default_item item))) ret)"
  by (simp add: GetNsConfigByConfigMap_def split: sum.splits)

text \<open>The verdict the configuration stands for.\<close>

definition ns_verdict :: "error + ns_config option \<Rightarrow> string \<Rightarrow> (string, string) gomap \<Rightarrow> bool" where
  "ns_verdict decoded ns ls =
     (case decoded of
        Inr (Some m) \<Rightarrow>
          (case gget m ns of
             Some item \<Rightarrow> admits (default_item item) ls
           | None \<Rightarrow> gget ls Nsnodeselector_systemlabel = None)
      | _ \<Rightarrow> gget ls Nsnodeselector_systemlabel = None)"

definition entry_ok :: "error + ns_config option \<Rightarrow> string \<Rightarrow> bool" where
  "entry_ok decoded ns =
     (case decoded of Inr (Some m) \<Rightarrow> (case gget m ns of Some item \<Rightarrow> item_ok item | None \<Rightarrow> True) | _ \<Rightarrow> True)"

definition ns_effective :: "error + ns_config option \<Rightarrow> ns_config option" where
  "ns_effective decoded = (case decoded of Inl e \<Rightarrow> None
     | Inr ret \<Rightarrow> map_option (map (\<lambda>(ns, item). (ns, default_item item))) ret)"

text \<open>
  Its two halves: \<^verbatim>\<open>MustMatch\<close> and \<^verbatim>\<open>MustNotMatch\<close>, and \<^verbatim>\<open>Match\<close> and \<^verbatim>\<open>NotMatch\<close>, where the default
  excludes the system nodes.
\<close>

definition must_verdict :: "error + ns_config option \<Rightarrow> string \<Rightarrow> (string, string) gomap \<Rightarrow> bool" where
  "must_verdict decoded ns ls =
     (case decoded of
        Inr (Some m) \<Rightarrow>
          (case gget m ns of
             Some item \<Rightarrow> requires (or_empty (ci_MustMatch item)) ls \<and> excludes (or_empty (ci_MustNotMatch item)) ls
           | None \<Rightarrow> True)
      | _ \<Rightarrow> True)"

definition soft_verdict :: "error + ns_config option \<Rightarrow> string \<Rightarrow> (string, string) gomap \<Rightarrow> bool" where
  "soft_verdict decoded ns ls =
     (case decoded of
        Inr (Some m) \<Rightarrow>
          (case gget m ns of
             Some item \<Rightarrow> requires (or_empty (ci_Match item)) ls \<and>
               (case ci_NotMatch item of Some lvs \<Rightarrow> excludes lvs ls | None \<Rightarrow> gget ls Nsnodeselector_systemlabel = None)
           | None \<Rightarrow> gget ls Nsnodeselector_systemlabel = None)
      | _ \<Rightarrow> gget ls Nsnodeselector_systemlabel = None)"

lemma verdict_halves: "ns_verdict decoded ns ls \<longleftrightarrow> must_verdict decoded ns ls \<and> soft_verdict decoded ns ls"
proof -
  have "excludes [(Nsnodeselector_systemlabel, Some [(''*'', ())])] ls \<longleftrightarrow> gget ls Nsnodeselector_systemlabel = None"
    by (auto simp: in_values_def wildcard_iff ListMapString_def or_empty_def Nsnodeselector_systemlabel_def split: option.splits)
  then show ?thesis
    by (auto simp: ns_verdict_def must_verdict_def soft_verdict_def admits_def default_item_def or_empty_def
        split: sum.splits option.splits)
qed

lemma selector_verdict:
  assumes "entry_ok decoded ns"
  shows "\<exists>sel. GetNsLabelSelector (ns_effective decoded) ns = Inr sel \<and>
    (\<forall>ls. selector_Matches sel ls \<longleftrightarrow> ns_verdict decoded ns ls)"
proof (cases "case decoded of Inr (Some m) \<Rightarrow> gget m ns | _ \<Rightarrow> None")
  case None
  then have "GetNsLabelSelector (ns_effective decoded) ns = default_selector"
    by (auto simp: ns_effective_def GetNsLabelSelector_def gget_map_item split: sum.splits option.splits)
  moreover have "ns_verdict decoded ns ls \<longleftrightarrow> gget ls Nsnodeselector_systemlabel = None" for ls
    using None by (auto simp: ns_verdict_def split: sum.splits option.splits)
  ultimately show ?thesis
    using default_selector_eq default_selector_matches by metis
next
  case (Some item)
  then obtain m where m: "decoded = Inr (Some m)" "gget m ns = Some item"
    by (auto split: sum.splits option.splits)
  from assms m have "item_ok (default_item item)" by (simp add: entry_ok_def default_item_ok)
  moreover have "gget (map (\<lambda>(ns, item). (ns, default_item item)) m) ns = Some (default_item item)"
    using m by (simp add: gget_map_item)
  ultimately show ?thesis
    using selector_admits m by (simp add: ns_effective_def ns_verdict_def)
qed

section \<open>The predicate\<close>

lemma predicate_cases:
  "ns_PodMatchNode decode now now2 got st pd nd =
     (case getConfigCM now now2 got st of (cm, st') \<Rightarrow>
        (Done (ns_match (ns_effective (decode (config_text (Some cm)))) pd nd), st'))"
  by (simp add: ns_PodMatchNode_def config_of_decode ns_effective_def split: prod.splits)

text \<open>
  C7 (refinement). Let the entry of the pod's namespace, in the configuration in force, have
  label keys and label values (or no entry). Then the predicate returns without error and
  admits a node exactly when the node has, for every key of Match and MustMatch, one of the
  listed values (any for a wildcard), and for no key of NotMatch and MustNotMatch such a
  value; an entry without NotMatch, and a namespace without an entry, excludes the nodes with
  the system label, and so does a text the decoder refuses. The printing of the entry as a
  selector text, the lexer and the parser are all in between.
\<close>

theorem ns_predicate_verdict:
  assumes "getConfigCM now now2 got st = (cm, st')"
    and "entry_ok (decode (config_text (Some cm))) (pod_namespace pd)"
  shows "ns_PodMatchNode decode now now2 got st pd nd =
    (Done (Inr (ns_verdict (decode (config_text (Some cm))) (pod_namespace pd) (node_labels nd))), st')"
proof -
  obtain sel where "GetNsLabelSelector (ns_effective (decode (config_text (Some cm)))) (pod_namespace pd) = Inr sel"
    "selector_Matches sel (node_labels nd) \<longleftrightarrow>
       ns_verdict (decode (config_text (Some cm))) (pod_namespace pd) (node_labels nd)"
    using selector_verdict [OF assms(2)] by blast
  then show ?thesis using assms(1) by (simp add: predicate_cases ns_match_def)
qed

text \<open>Three entries: a zone to be in, an entry with everything, and one the printing garbles.\<close>

definition sample_ns_item :: ns_config_item where
  "sample_ns_item = \<lparr>ci_Match = Some [(''zone'', Some [(''a'', ()), (''b'', ())])], ci_MustMatch = None,
     ci_NotMatch = None, ci_MustNotMatch = Some [(''old'', Some [(''*'', ())])]\<rparr>"

definition sample_ns_decode :: "string \<Rightarrow> error + ns_config option" where
  "sample_ns_decode s = (if s = ''c1'' then Inr (Some [(''ns'', sample_ns_item)])
     else if s = ''{}'' then Inr (Some []) else Inl (External ''json''))"

definition sample_cm :: config_map where
  "sample_cm = empty_config_map\<lparr>cm_data := Some [(nsnodeselector_itemname, ''c1'')]\<rparr>"

definition cold_cache :: ns_cache where
  "cold_cache = \<lparr>nsNodeSelectorConfigMap = None, nsNodeSelectorConfigMapUpdateTime = 0\<rparr>"

definition labelled_node :: "(string, string) gomap \<Rightarrow> node" where
  "labelled_node ls = \<lparr>node_name = ''n1'', node_labels = ls, node_annotations = None\<rparr>"

lemmas ns_sample_defs = sample_ns_item_def sample_ns_decode_def sample_cm_def cold_cache_def labelled_node_def
  empty_config_map_def nsnodeselector_itemname_def nsnodeselector_configmap_ns_def nsnodeselector_configmap_name_def

lemma sample_item_ok: "item_ok sample_ns_item"
  by code_simp

lemma ns_predicate_verdict_witness:
  "ns_PodMatchNode sample_ns_decode 0 1 (Inr (Some sample_cm)) cold_cache (sample_pod ''p'' [])
     (labelled_node [(''zone'', ''b'')]) =
   (Done (Inr True), \<lparr>nsNodeSelectorConfigMap = Some sample_cm, nsNodeSelectorConfigMapUpdateTime = 1\<rparr>)"
proof -
  let ?st = "\<lparr>nsNodeSelectorConfigMap = Some sample_cm, nsNodeSelectorConfigMapUpdateTime = 1\<rparr>"
  have get: "getConfigCM 0 1 (Inr (Some sample_cm)) cold_cache = (sample_cm, ?st)"
    by (simp add: getConfigCM_def cold_cache_def)
  have dec: "sample_ns_decode (config_text (Some sample_cm)) = Inr (Some [(''ns'', sample_ns_item)])"
    by code_simp
  have ok: "entry_ok (sample_ns_decode (config_text (Some sample_cm))) (pod_namespace (sample_pod ''p'' []))"
    by (simp add: dec entry_ok_def sample_item_ok sample_pod_def)
  have verdict: "ns_verdict (Inr (Some [(''ns'', sample_ns_item)])) ''ns'' [(''zone'', ''b'')]"
    by code_simp
  show ?thesis
    using ns_predicate_verdict [where decode = sample_ns_decode, OF get ok, of "labelled_node [(''zone'', ''b'')]"] verdict
    by (simp add: dec) (simp add: labelled_node_def sample_pod_def)
qed

section \<open>The cache\<close>

text \<open>The configurations that a sequence of calls works with.\<close>

type_synonym config_call = "int \<times> int \<times> (error + config_map option)"

fun config_calls :: "config_call list \<Rightarrow> ns_cache \<Rightarrow> config_map list \<times> ns_cache" where
  "config_calls [] st = ([], st)"
| "config_calls ((now, now2, got) # calls) st =
     (case getConfigCM now now2 got st of (cm, st1) \<Rightarrow>
        (case config_calls calls st1 of (cms, st2) \<Rightarrow> (cm # cms, st2)))"

lemma config_calls_append:
  "config_calls (xs @ ys) st =
     (case config_calls xs st of (a, st1) \<Rightarrow> (case config_calls ys st1 of (b, st2) \<Rightarrow> (a @ b, st2)))"
  by (induction xs st rule: config_calls.induct) (simp_all split: prod.splits)

text \<open>What is cached was an answer of the API server, stamped after it came.\<close>

definition cache_from :: "config_call list \<Rightarrow> ns_cache \<Rightarrow> bool" where
  "cache_from calls st \<longleftrightarrow> (\<forall>cm. nsNodeSelectorConfigMap st = Some cm \<longrightarrow>
     (\<exists>now. (now, nsNodeSelectorConfigMapUpdateTime st, Inr (Some cm)) \<in> set calls))"

lemma getConfigCM_cache_from:
  assumes "cache_from calls st" and "getConfigCM now now2 got st = (cm, st')"
  shows "cache_from (calls @ [(now, now2, got)]) st'"
  using assms by (auto simp: cache_from_def getConfigCM_def split: option.splits sum.splits if_splits)

lemma config_calls_cache_from:
  "cache_from done st \<Longrightarrow> config_calls calls st = (cms, st') \<Longrightarrow> cache_from (done @ calls) st'"
proof (induction calls arbitrary: "done" st cms)
  case (Cons call calls)
  obtain now now2 got where c: "call = (now, now2, got)" by (cases call)
  obtain cm st1 where g: "getConfigCM now now2 got st = (cm, st1)" by fastforce
  obtain cms' where "config_calls calls st1 = (cms', st')"
    using Cons.prems c g by (auto split: prod.splits)
  from Cons.IH [OF getConfigCM_cache_from [OF Cons.prems(1) g] this] c show ?case by simp
qed simp

text \<open>
  C29 (safety). From the start of the process on, and whatever the clock readings and the
  answers of the API server, the configuration a call works with is the answer to this very
  call, or an answer to an earlier call that had come at most five seconds before this one,
  or, when this call's request failed, the empty configuration.
  (Edits of the policy server write into the cached object; theory \<open>NsService\<close> has their effect.)
\<close>

theorem config_age:
  assumes "config_calls (calls @ [(now, now2, got)]) cold_cache = (cms @ [cm], st)"
  shows "got = Inr (Some cm) \<or>
    (\<exists>t t2. (t, t2, Inr (Some cm)) \<in> set calls \<and> now - t2 \<le> nsNodeSelectorConfigMapCacheTimeOut) \<or>
    (cm = empty_config_map \<and> (got = Inr None \<or> (\<exists>err. got = Inl err)))"
proof -
  obtain st1 where before: "config_calls calls cold_cache = (cms, st1)" and "getConfigCM now now2 got st1 = (cm, st)"
    using assms by (auto simp: config_calls_append split: prod.splits)
  moreover have "cache_from [] cold_cache" by (simp add: cache_from_def cold_cache_def)
  ultimately have "cache_from calls st1" using config_calls_cache_from [of "[]"] by fastforce
  with \<open>getConfigCM now now2 got st1 = (cm, st)\<close> show ?thesis
    by (auto simp: cache_from_def getConfigCM_def split: option.splits sum.splits if_splits)
qed

lemma config_age_witness:
  "\<exists>st. config_calls [(0, 1, Inr (Some sample_cm)), (4, 5, Inl (External ''timeout''))] cold_cache =
     ([sample_cm, sample_cm], st) \<and>
     (\<exists>t t2. (t, t2, Inr (Some sample_cm)) \<in> set [(0, 1, Inr (Some sample_cm))] \<and>
       4 - t2 \<le> nsNodeSelectorConfigMapCacheTimeOut)"
proof -
  let ?st = "\<lparr>nsNodeSelectorConfigMap = Some sample_cm, nsNodeSelectorConfigMapUpdateTime = 1\<rparr>"
  have run: "config_calls ([(0, 1, Inr (Some sample_cm))] @ [(4, 5, Inl (External ''timeout''))]) cold_cache =
      ([sample_cm] @ [sample_cm], ?st)"
    by (simp add: getConfigCM_def cold_cache_def nsNodeSelectorConfigMapCacheTimeOut_def)
  have "sample_cm \<noteq> empty_config_map" by code_simp
  with config_age [OF run] have "\<exists>t t2. (t, t2, Inr (Some sample_cm)) \<in> set [(0, 1, Inr (Some sample_cm))] \<and>
       4 - t2 \<le> nsNodeSelectorConfigMapCacheTimeOut" by simp
  with run show ?thesis by (auto simp del: config_calls.simps)
qed

text \<open>
  Once the cached configuration is older than five seconds (or there is none) and
  the request for it fails, the predicate forgets every rule: whatever the configuration
  said, the pod is admitted to exactly the nodes without the system label, and the stale
  cache is kept.
\<close>

theorem ns_api_failure:
  assumes "nsNodeSelectorConfigMap st = None \<or>
      nsNodeSelectorConfigMapCacheTimeOut < now - nsNodeSelectorConfigMapUpdateTime st"
    and "got = Inl err" and "decode ''{}'' = Inr (Some [])"
  shows "ns_PodMatchNode decode now now2 got st pd nd =
    (Done (Inr (gget (node_labels nd) Nsnodeselector_systemlabel = None)), st)"
proof -
  have get: "getConfigCM now now2 got st = (empty_config_map, st)"
    using assms(1,2) by (auto simp: getConfigCM_def split: option.splits)
  have txt_eq: "config_text (Some empty_config_map) = ''{}''" by code_simp
  obtain sel where sel: "GetNsLabelSelector (ns_effective (Inr (Some []))) (pod_namespace pd) = Inr sel"
      "selector_Matches sel (node_labels nd) \<longleftrightarrow> ns_verdict (Inr (Some [])) (pod_namespace pd) (node_labels nd)"
    using selector_verdict [of "Inr (Some [])" "pod_namespace pd"] by (auto simp: entry_ok_def)
  show ?thesis
    using sel get txt_eq assms(3) by (simp add: predicate_cases ns_match_def ns_verdict_def)
qed

lemma ns_api_failure_witness:
  "ns_PodMatchNode sample_ns_decode (6 * 10 ^ 9) 0 (Inl (External ''timeout''))
     \<lparr>nsNodeSelectorConfigMap = Some sample_cm, nsNodeSelectorConfigMapUpdateTime = 1\<rparr> (sample_pod ''p'' [])
     (labelled_node [(''old'', ''x'')]) =
   (Done (Inr True), \<lparr>nsNodeSelectorConfigMap = Some sample_cm, nsNodeSelectorConfigMapUpdateTime = 1\<rparr>)"
proof -
  have "nsNodeSelectorConfigMapCacheTimeOut < 6 * 10 ^ 9 - 1"
    by (simp add: nsNodeSelectorConfigMapCacheTimeOut_def)
  moreover have "gget [(''old'', ''x'')] Nsnodeselector_systemlabel = None" by code_simp
  ultimately show ?thesis
    by (subst ns_api_failure [of _ _ _ "External ''timeout''"]) (simp_all add: sample_ns_decode_def labelled_node_def)
qed

section \<open>Values that are no label values\<close>

text \<open>
  Values go into the selector text unchecked.  A listed value that closes the set smuggles
  another requirement in; a value with a space makes every lookup of its namespace an error.
\<close>

definition garbled_item :: "string \<Rightarrow> ns_config_item" where
  "garbled_item v = \<lparr>ci_Match = Some [(''zone'', Some [(v, ())])], ci_MustMatch = None, ci_NotMatch = Some [],
     ci_MustNotMatch = None\<rparr>"


lemma value_injection:
  "GetNsLabelSelector (Some [(''ns'', garbled_item ''a b'')]) ''ns'' = Inl (RequirementFailed (SelectorFound ''b''))"
  "GetNsLabelSelector (Some [(''ns'', garbled_item ''a),gpu in (b'')]) ''ns'' =
     Inr [\<lparr>rq_key = ''gpu'', rq_op = In, rq_values = [''b'']\<rparr>, \<lparr>rq_key = ''zone'', rq_op = In, rq_values = [''a'']\<rparr>]"
  by code_simp+

end
