(* ===== verification/Router.thy ===== *)
theory Router
  imports Registry
begin

text \<open>
  The router in front of the program's HTTP handlers (vendored
  \<^verbatim>\<open>github.com/emicklei/go-restful\<close>: \<^verbatim>\<open>curly.go\<close>, \<^verbatim>\<open>curly_route.go\<close>, \<^verbatim>\<open>jsr311.go\<close>, \<^verbatim>\<open>route.go\<close>): paths
  as tokens, the choice of a web service and of a route in it.  Matching of regular
  expressions inside a route and of media types is a parameter.  A path is one that the
  \<^verbatim>\<open>http.ServeMux\<close> in front of the router hands on: it redirects a path that is not clean
  (empty elements, \<open>.\<close> or \<open>..\<close>) before the router sees it.
\<close>

section \<open>Paths\<close>

definition trim_slashes :: "string \<Rightarrow> string" where
  "trim_slashes s = rev (dropWhile (\<lambda>c. c = CHR ''/'') (rev (dropWhile (\<lambda>c. c = CHR ''/'') s)))"

definition tokenizePath :: "string \<Rightarrow> string list" where
  "tokenizePath path = (if path = ''/'' then [] else split_on (CHR ''/'') (trim_slashes path))"

text \<open>\<^verbatim>\<open>concatPath\<close>\<close>

definition concatPath :: "string \<Rightarrow> string \<Rightarrow> string" where
  "concatPath path1 path2 =
     rev (dropWhile (\<lambda>c. c = CHR ''/'') (rev path1)) @ ''/'' @ dropWhile (\<lambda>c. c = CHR ''/'') path2"

lemma trim_slashes_last: "trim_slashes s \<noteq> [] \<Longrightarrow> last (trim_slashes s) \<noteq> CHR ''/''"
  using hd_dropWhile [of "\<lambda>c. c = CHR ''/''"] by (simp add: trim_slashes_def last_rev)

lemma last_split_on: "xs \<noteq> [] \<Longrightarrow> last xs \<noteq> c \<Longrightarrow> last (split_on c xs) \<noteq> []"
proof (induction xs)
  case (Cons x xs)
  then show ?case
  proof (cases "xs = []")
    case False
    obtain y ys where y: "split_on c xs = y # ys" by (cases "split_on c xs") auto
    with Cons False show ?thesis by (cases ys) auto
  qed simp
qed simp

text \<open>The last of several tokens is not empty.\<close>

lemma tokenizePath_last:
  assumes "1 < length (tokenizePath path)"
  shows "last (tokenizePath path) \<noteq> []"
proof -
  have t: "tokenizePath path = split_on (CHR ''/'') (trim_slashes path)" "trim_slashes path \<noteq> []"
    using assms by (auto simp: tokenizePath_def split: if_splits)
  with trim_slashes_last [of path] last_split_on show ?thesis by simp
qed

section \<open>Routes\<close>

record 'a route =
  rt_method :: string
  rt_path :: string
  rt_function :: 'a

record 'a web_service =
  ws_root :: string
  ws_routes :: "'a route list"

text \<open>
  \<^verbatim>\<open>matchesRouteByPathTokens\<close>: the numbers of parameters and of static elements when the tokens
  match.  \<open>regex e t\<close> stands for \<^verbatim>\<open>regexp.MatchString\<close> (False for an error).
\<close>

fun find_char :: "char \<Rightarrow> string \<Rightarrow> string option" where
  "find_char c [] = None"
| "find_char c (x # xs) = (if x = c then Some xs else find_char c xs)"

fun match_loop ::
  "(string \<Rightarrow> string \<Rightarrow> bool) \<Rightarrow> string list \<Rightarrow> string list \<Rightarrow> nat \<Rightarrow> nat \<Rightarrow> (nat \<times> nat) option" where
  "match_loop regex [] req p s = Some (p, s)"
| "match_loop regex (routeToken # rs) [] p s = None"
| "match_loop regex (routeToken # rs) (requestToken # req) p s =
     (if has_prefix routeToken ''{'' then
        (case find_char (CHR '':'') routeToken of
           Some after \<Rightarrow>
             (let regPart = butlast after
              in if regPart = ''*'' then Some (p + 1, s)
                 else if \<not> regex regPart requestToken then None
                 else match_loop regex rs req (p + 1) s)
         | None \<Rightarrow> match_loop regex rs req (p + 1) s)
      else if requestToken \<noteq> routeToken then None
      else match_loop regex rs req p (s + 1))"

definition matchesRouteByPathTokens ::
  "(string \<Rightarrow> string \<Rightarrow> bool) \<Rightarrow> string list \<Rightarrow> string list \<Rightarrow> (nat \<times> nat) option" where
  "matchesRouteByPathTokens regex routeTokens requestTokens =
     (if length routeTokens < length requestTokens \<and>
         (routeTokens = [] \<or> \<not> has_prefix (rev (last routeTokens)) (rev ''*}''))
      then None else match_loop regex routeTokens requestTokens 0 0)"

text \<open>\<^verbatim>\<open>sortableCurlyRoutes.Less\<close> is the order of these keys; the sort is in reverse.\<close>

definition route_key :: "'a route \<times> nat \<times> nat \<Rightarrow> nat \<times> nat \<times> string" where
  "route_key c = (case c of (r, p, s) \<Rightarrow> (s, p, rt_path r))"

definition selectRoutes :: "(string \<Rightarrow> string \<Rightarrow> bool) \<Rightarrow> 'a web_service \<Rightarrow> string list \<Rightarrow> 'a route list" where
  "selectRoutes regex ws requestTokens =
     map fst (rev (sort_key route_key
       (concat (map (\<lambda>each. case matchesRouteByPathTokens regex (tokenizePath (rt_path each)) requestTokens of
            None \<Rightarrow> [] | Some (p, s) \<Rightarrow> [(each, p, s)]) (ws_routes ws)))))"

text \<open>\<^verbatim>\<open>computeWebserviceScore\<close>; the score only matters when the tokens match.\<close>

fun score_loop :: "string list \<Rightarrow> string list \<Rightarrow> nat \<Rightarrow> nat option" where
  "score_loop requestTokens [] score = Some score"
| "score_loop [] (other # tokens) score = None"
| "score_loop (each # req) (other # tokens) score =
     (if length each = 0 \<and> length other = 0 then score_loop req tokens (score + 1)
      else if length other > 0 \<and> has_prefix other ''{'' then
        (if length each = 0 then None else score_loop req tokens (score + 1))
      else if each \<noteq> other then None
      else score_loop req tokens (score + (length tokens + 1) * 10))"

definition computeWebserviceScore :: "string list \<Rightarrow> string list \<Rightarrow> nat option" where
  "computeWebserviceScore requestTokens tokens =
     (if length tokens > length requestTokens then None else score_loop requestTokens tokens 0)"

fun detect_loop :: "string list \<Rightarrow> 'a web_service list \<Rightarrow> 'a web_service option \<Rightarrow> int \<Rightarrow> 'a web_service option" where
  "detect_loop req [] best score = best"
| "detect_loop req (each # wss) best score =
     (case computeWebserviceScore req (tokenizePath (ws_root each)) of
        Some eachScore \<Rightarrow> if int eachScore > score then detect_loop req wss (Some each) (int eachScore)
                          else detect_loop req wss best score
      | None \<Rightarrow> detect_loop req wss best score)"

definition detectWebService :: "string list \<Rightarrow> 'a web_service list \<Rightarrow> 'a web_service option" where
  "detectWebService requestTokens webServices = detect_loop requestTokens webServices None (- 1)"

datatype http_error = NotFound404 | MethodNotAllowed405 | UnsupportedMediaType415 | NotAcceptable406

text \<open>
  \<^verbatim>\<open>RouterJSR311.detectRoute\<close>: the first candidate that passes the tests of the method, the
  content type and the accept header.  No route of the program has an \<^verbatim>\<open>If\<close> condition.
\<close>

definition detectRoute ::
  "('a route \<Rightarrow> bool) \<Rightarrow> ('a route \<Rightarrow> bool) \<Rightarrow> 'a route list \<Rightarrow> string \<Rightarrow> http_error + 'a route" where
  "detectRoute contentTypeOk acceptOk candidateRoutes meth =
     (let methodOk = filter (\<lambda>r. meth = rt_method r) candidateRoutes;
          inputMediaOk = filter contentTypeOk methodOk;
          outputMediaOk = filter acceptOk inputMediaOk
      in if candidateRoutes = [] then Inl NotFound404
         else if methodOk = [] then Inl MethodNotAllowed405
         else if inputMediaOk = [] then Inl UnsupportedMediaType415
         else if outputMediaOk = [] then Inl NotAcceptable406
         else Inr (hd outputMediaOk))"

definition SelectRoute ::
  "(string \<Rightarrow> string \<Rightarrow> bool) \<Rightarrow> ('a route \<Rightarrow> bool) \<Rightarrow> ('a route \<Rightarrow> bool) \<Rightarrow> 'a web_service list \<Rightarrow>
   string \<Rightarrow> string \<Rightarrow> http_error + 'a route" where
  "SelectRoute regex contentTypeOk acceptOk webServices meth path =
     (let requestTokens = tokenizePath path
      in case detectWebService requestTokens webServices of
           None \<Rightarrow> Inl NotFound404
         | Some detectedService \<Rightarrow>
             (let candidateRoutes = selectRoutes regex detectedService requestTokens
              in if length candidateRoutes = 0 then Inl NotFound404
                 else detectRoute contentTypeOk acceptOk candidateRoutes meth))"

section \<open>Choosing the web service\<close>

lemma detect_loop_none:
  "list_all (\<lambda>ws. computeWebserviceScore req (tokenizePath (ws_root ws)) = None) wss \<Longrightarrow>
   detect_loop req wss best score = best"
  by (induction wss) simp_all

lemma detect_loop_append: 
  "list_all (\<lambda>ws. computeWebserviceScore req (tokenizePath (ws_root ws)) = None) wss \<Longrightarrow>
   detect_loop req (wss @ wss') best score = detect_loop req wss' best score"
  by (induction wss) simp_all

text \<open>A service that alone matches is the one detected.\<close>

lemma detect_unique:
  assumes "computeWebserviceScore req (tokenizePath (ws_root ws)) = Some k"
    and "list_all (\<lambda>w. computeWebserviceScore req (tokenizePath (ws_root w)) = None) (as @ bs)"
  shows "detectWebService req (as @ ws # bs) = Some ws"
  using assms by (simp add: detectWebService_def detect_loop_append detect_loop_none)

text \<open>Static roots match exactly the paths below them.\<close>

definition static_token :: "string \<Rightarrow> bool" where
  "static_token t \<longleftrightarrow> t \<noteq> [] \<and> \<not> has_prefix t ''{''"

lemma score_loop_static:
  "list_all static_token tokens \<Longrightarrow>
   (\<exists>k. score_loop req tokens s = Some k) \<longleftrightarrow> take (length tokens) req = tokens"
proof (induction req tokens s rule: score_loop.induct)
  case (3 each req other tokens score)
  then show ?case by (auto simp: static_token_def)
qed simp_all

lemma score_static:
  assumes "list_all static_token tokens"
  shows "computeWebserviceScore req tokens = None \<longleftrightarrow> take (length tokens) req \<noteq> tokens"
proof -
  have "length req < length tokens \<Longrightarrow> take (length tokens) req \<noteq> tokens"
    by (metis length_take less_irrefl min.strict_boundedE min_def nat_less_le)
  then show ?thesis
    using score_loop_static [OF assms, of req 0] by (auto simp: computeWebserviceScore_def)
qed

section \<open>Paths of plain elements\<close>

definition plain_token :: "string \<Rightarrow> bool" where
  "plain_token t \<longleftrightarrow> static_token t \<and> CHR ''/'' \<notin> set t"

lemma trim_slashes_core:
  assumes "s \<noteq> []" and "hd s \<noteq> CHR ''/''" and "last s \<noteq> CHR ''/''"
  shows "trim_slashes (CHR ''/'' # s) = s" and "trim_slashes (CHR ''/'' # s @ [CHR ''/'']) = s"
proof -
  obtain c cs where s: "s = c # cs" "c \<noteq> CHR ''/''" using assms by (cases s) auto
  obtain d ds where r: "rev s = d # ds" "d \<noteq> CHR ''/''"
    using assms by (cases "rev s") (auto simp: last_rev [symmetric] hd_rev)
  have "dropWhile (\<lambda>c. c = CHR ''/'') s = s" using s by simp
  moreover have "dropWhile (\<lambda>c. c = CHR ''/'') (s @ [CHR ''/'']) = s @ [CHR ''/'']" using s by simp
  moreover have "dropWhile (\<lambda>c. c = CHR ''/'') (rev s) = rev s" using r by simp
  ultimately show "trim_slashes (CHR ''/'' # s) = s" "trim_slashes (CHR ''/'' # s @ [CHR ''/'']) = s"
    by (simp_all add: trim_slashes_def)
qed

lemma join_plain_ends:
  assumes "es \<noteq> []" and "list_all plain_token es"
  shows "join_with ''/'' es \<noteq> [] \<and> hd (join_with ''/'' es) \<noteq> CHR ''/'' \<and> last (join_with ''/'' es) \<noteq> CHR ''/''"
  using assms
proof (induction "''/''" es rule: join_with.induct)
  case (2 x)
  then have "x \<noteq> []" "CHR ''/'' \<notin> set x" by (simp_all add: plain_token_def static_token_def)
  then show ?case using hd_in_set [of x] last_in_set [of x] by (auto simp del: hd_in_set last_in_set)
next
  case (3 x y zs)
  then have "x \<noteq> []" "CHR ''/'' \<notin> set x" by (simp_all add: plain_token_def static_token_def)
  moreover from this have "hd x \<noteq> CHR ''/''" using hd_in_set [of x] by (auto simp del: hd_in_set)
  ultimately show ?case using 3 by auto
qed simp

lemma tokenize_plain:
  assumes "es \<noteq> []" and "list_all plain_token es"
  shows "tokenizePath (CHR ''/'' # join_with ''/'' es) = es" and "tokenizePath (CHR ''/'' # join_with ''/'' es @ ''/'') = es"
proof -
  have "\<forall>e \<in> set es. CHR ''/'' \<notin> set e" using assms(2) by (auto simp: list_all_iff plain_token_def)
  then show "tokenizePath (CHR ''/'' # join_with ''/'' es) = es" "tokenizePath (CHR ''/'' # join_with ''/'' es @ ''/'') = es"
    using join_plain_ends [OF assms] trim_slashes_core [of "join_with ''/'' es"] split_join [OF assms(1)]
    by (auto simp: tokenizePath_def)
qed

lemma drop_rev: "last s \<noteq> c \<Longrightarrow> dropWhile (\<lambda>x. x = c) (rev s) = rev s"
  by (cases s rule: rev_cases) auto

text \<open>A static route matches exactly its own tokens.\<close>

lemma match_loop_self: "list_all static_token ts \<Longrightarrow> match_loop regex ts ts p s = Some (p, s + length ts)"
  by (induction ts arbitrary: s) (auto simp: static_token_def)

lemma select_self:
  assumes "list_all static_token (tokenizePath (rt_path r))"
  shows "selectRoutes regex \<lparr>ws_root = rt, ws_routes = [r]\<rparr> (tokenizePath (rt_path r)) = [r]"
  using assms by (simp add: selectRoutes_def matchesRouteByPathTokens_def match_loop_self)

end
