(* ===== verification/NsServer.thy ===== *)
theory NsServer
  imports NsPredicate Router
begin

text \<open>
  \<^verbatim>\<open>pkg/algorithm/predicate/namespaces_nodeselector_httpserver.go\<close>: the server that shows, checks,
  edits and enforces the namespace configuration.  Config maps are objects on a heap, because
  the server and the predicate share the cached one and an edit writes into it.  The API
  server's answers and the clock are parameters; what the handlers ask it to change is a list
  of calls.  A handler runs as one step; the code has no lock around its variables.
\<close>

section \<open>State\<close>

text \<open>
  The heap is a list of objects and an address an index.  The first two variables are those of
  the package, shared with the predicate, the others the fields of \<^verbatim>\<open>SchedulerConfig\<close>.
\<close>

record server_state =
  ns_heap :: "config_map list"
  ns_cached :: "nat option"     \<comment> \<open>\<^verbatim>\<open>nsNodeSelectorConfigMap\<close> of the package\<close>
  ns_cached_at :: int
  sc_cm :: "nat option"         \<comment> \<open>\<^verbatim>\<open>sc.nsNodeSelectorConfigMap\<close>\<close>
  sc_cm_at :: int
  sc_timeout :: int             \<comment> \<open>\<^verbatim>\<open>sc.configMapTimeOut\<close>\<close>

text \<open>
  One request's readings of the clock, in the order of the code, and the answers of the API
  server, each as a function of what is asked.  \<open>an_current\<close> tells a missing config map (True)
  from other errors.
\<close>

record api_env =
  ck_server :: int     \<comment> \<open>\<^verbatim>\<open>time.Since(sc.nsNodeSelectorConfigMapUpdateTime)\<close>\<close>
  ck_since :: int      \<comment> \<open>\<^verbatim>\<open>time.Since(nsNodeSelectorConfigMapUpdateTime)\<close>\<close>
  ck_fetched :: int
  ck_stored :: int
  an_get :: "error + config_map option"
  an_namespaces :: "error + string list"
  an_nodes :: "error + node list"
  an_pods :: "string \<Rightarrow> error + pod list"
  an_delete :: "string \<Rightarrow> string \<Rightarrow> error option"
  an_current :: "string \<Rightarrow> string \<Rightarrow> (bool \<times> error) + config_map"
  an_create :: "config_map \<Rightarrow> error + config_map"
  an_update :: "config_map \<Rightarrow> error + config_map"

datatype api_call = CreateCM config_map | UpdateCM config_map | DeletePodCall string string

definition cm_alloc :: "config_map \<Rightarrow> server_state \<Rightarrow> nat \<times> server_state" where
  "cm_alloc cm st = (length (ns_heap st), st\<lparr>ns_heap := ns_heap st @ [cm]\<rparr>)"

section \<open>Listing nodes and pods\<close>

text \<open>The loop that collects the addresses of the listed objects; on an error the callers return before they use the list.\<close>

fun append_items :: "'a list \<Rightarrow> 'a list \<Rightarrow> 'a list" where
  "append_items ret [] = ret"
| "append_items ret (item # items) = append_items (ret @ [item]) items"

lemma append_items [simp]: "append_items ret items = ret @ items"
  by (induction ret items rule: append_items.induct) simp_all

definition GetNodes :: "api_env \<Rightarrow> error + node list" where
  "GetNodes env = (case an_nodes env of Inl err \<Rightarrow> Inl err | Inr items \<Rightarrow> Inr (append_items [] items))"

definition GetPods :: "api_env \<Rightarrow> string \<Rightarrow> error + pod list" where
  "GetPods env namespace = (case an_pods env namespace of Inl err \<Rightarrow> Inl err | Inr items \<Rightarrow> Inr (append_items [] items))"

lemma listed_objects [simp]: "GetNodes env = an_nodes env" "GetPods env ns = an_pods env ns"
  by (simp_all add: GetNodes_def GetPods_def split: sum.split)

section \<open>Reading the configuration\<close>

definition fetch_selector_cm :: "api_env \<Rightarrow> server_state \<Rightarrow> nat \<times> server_state" where
  "fetch_selector_cm env st =
     (case an_get env of
        Inl err \<Rightarrow> cm_alloc empty_config_map st
      | Inr None \<Rightarrow> cm_alloc empty_config_map st
      | Inr (Some cm) \<Rightarrow>
          (case cm_alloc cm st of
             (r, st1) \<Rightarrow> (r, st1\<lparr>ns_cached := Some r, ns_cached_at := ck_fetched env\<rparr>)))"

definition getSelectorConfigMap :: "api_env \<Rightarrow> server_state \<Rightarrow> nat \<times> server_state" where
  "getSelectorConfigMap env st =
     (case ns_cached st of
        Some r \<Rightarrow>
          if ck_since env - ns_cached_at st \<le> nsNodeSelectorConfigMapCacheTimeOut then (r, st)
          else fetch_selector_cm env st
      | None \<Rightarrow> fetch_selector_cm env st)"

definition getNsNodeSelectorConfigMap :: "bool \<Rightarrow> api_env \<Rightarrow> server_state \<Rightarrow> nat \<times> server_state" where
  "getNsNodeSelectorConfigMap notcache env st =
     (case sc_cm st of
        Some r \<Rightarrow>
          if notcache = True \<or> ck_server env - sc_cm_at st > sc_timeout st then
            (case getSelectorConfigMap env st of
               (r', st1) \<Rightarrow> (r', st1\<lparr>sc_cm := Some r', sc_cm_at := ck_stored env\<rparr>))
          else (r, st)
      | None \<Rightarrow>
          (case getSelectorConfigMap env st of
             (r', st1) \<Rightarrow> (r', st1\<lparr>sc_cm := Some r', sc_cm_at := ck_stored env\<rparr>)))"

section \<open>Replies\<close>

text \<open>\<^verbatim>\<open>ReturnMsg\<close>; messages keep the parts they are formatted from.\<close>

datatype server_msg =
    OKMsg
  | GetNodesError error
  | ErrorText error
  | SelectorError error
  | GetPodsError error
  | DeleteErrors "(string \<times> string \<times> error) list"
  | UnknownOperation string
  | UnknownMatchType string
  | KeyNotExist string
  | KeyExisted string

record return_msg =
  rm_code :: int
  rm_msg :: server_msg
  rm_data :: string

type_synonym key_value = "string \<times> string"

record config_ret =
  cr_match :: "key_value list option"
  cr_mustMatch :: "key_value list option"
  cr_notMatch :: "key_value list option"
  cr_mustNotMatch :: "key_value list option"

datatype response =
    Reply return_msg
  | ShowConfig "(string, config_ret) gomap"

definition reply :: "int \<Rightarrow> server_msg \<Rightarrow> string \<Rightarrow> response" where
  "reply code msg data = Reply \<lparr>rm_code = code, rm_msg = msg, rm_data = data\<rparr>"

type_synonym handler_result = "response outcome \<times> api_call list \<times> server_state"

section \<open>Showing and checking\<close>

fun kv_list :: "label_values \<Rightarrow> key_value list" where
  "kv_list [] = []"
| "kv_list ((key, valueMap) # lvs) =
     (if key \<noteq> [] then (key, join_with '','' (ListMapString valueMap)) # kv_list lvs else kv_list lvs)"

definition show_item :: "ns_config_item \<Rightarrow> config_ret" where
  "show_item config = \<lparr>cr_match = map_option kv_list (ci_Match config),
     cr_mustMatch = map_option kv_list (ci_MustMatch config),
     cr_notMatch = map_option kv_list (ci_NotMatch config),
     cr_mustNotMatch = map_option kv_list (ci_MustNotMatch config)\<rparr>"

text \<open>The callers of \<^verbatim>\<open>GetNamespaces\<close> drop its error and go on with the empty list.\<close>

definition namespaces_or_empty :: "api_env \<Rightarrow> string list" where
  "namespaces_or_empty env = (case an_namespaces env of Inl err \<Rightarrow> [] | Inr nss \<Rightarrow> nss)"

definition NsNodeSelectorGet ::
  "(string \<Rightarrow> error + ns_config option) \<Rightarrow> api_env \<Rightarrow> server_state \<Rightarrow> handler_result" where
  "NsNodeSelectorGet decode env st =
     (case getNsNodeSelectorConfigMap False env st of
        (r, st1) \<Rightarrow>
          (case GetNsConfigByConfigMap decode (Some (ns_heap st1 ! r)) (Some (namespaces_or_empty env)) of
             Panic \<Rightarrow> (Panic, [], st1)
           | Done nsconfig \<Rightarrow>
               (Done (ShowConfig (map (\<lambda>(ns, config). (ns, show_item config)) (or_empty nsconfig))), [], st1)))"

text \<open>The configuration without the namespaces of the cluster, which never panics.\<close>

definition server_selector ::
  "(string \<Rightarrow> error + ns_config option) \<Rightarrow> config_map \<Rightarrow> string \<Rightarrow> (error + requirement list) outcome" where
  "server_selector decode cm namespace =
     (case GetNsConfigByConfigMap decode (Some cm) None of
        Panic \<Rightarrow> Panic
      | Done nsConfig \<Rightarrow> Done (GetNsLabelSelector nsConfig namespace))"

definition CheckNamespaceSchedulerNodes ::
  "(string \<Rightarrow> error + ns_config option) \<Rightarrow> string \<Rightarrow> api_env \<Rightarrow> server_state \<Rightarrow> handler_result" where
  "CheckNamespaceSchedulerNodes decode namespace env st =
     (case GetNodes env of
        Inl errNode \<Rightarrow> (Done (reply 1 (GetNodesError errNode) []), [], st)
      | Inr nodes \<Rightarrow>
          (case getNsNodeSelectorConfigMap False env st of
             (r, st1) \<Rightarrow>
               (case server_selector decode (ns_heap st1 ! r) namespace of
                  Panic \<Rightarrow> (Panic, [], st1)
                | Done (Inl err) \<Rightarrow> (Done (reply 1 (ErrorText err) []), [], st1)
                | Done (Inr selector) \<Rightarrow>
                    (let okNodes = map node_name (filter (\<lambda>nd. selector_Matches selector (node_labels nd)) nodes)
                     in (Done (reply 0 OKMsg (''['' @ join_with '','' okNodes @ '']'')), [], st1)))))"

text \<open>The labels of all nodes; \<open>encode_kvs\<close> is \<^verbatim>\<open>json.Marshal\<close>.  The reply's code is 1.\<close>

definition add_label :: "string \<times> string \<Rightarrow> label_values \<Rightarrow> label_values" where
  "add_label kv m =
     (case gget m (fst kv) of
        Some vm \<Rightarrow> gput (fst kv) (Some (gput (snd kv) () (or_empty vm))) m
      | None \<Rightarrow> gput (fst kv) (Some [(snd kv, ())]) m)"

definition all_labels :: "node list \<Rightarrow> label_values" where
  "all_labels nodes =
     fold (\<lambda>nd m. fold add_label (node_labels nd) m) nodes [(Nsnodeselector_systemlabel, Some [(''*'', ())])]"

definition NsNodeSelectorNodeLabels ::
  "(key_value list \<Rightarrow> string) \<Rightarrow> api_env \<Rightarrow> server_state \<Rightarrow> handler_result" where
  "NsNodeSelectorNodeLabels encode_kvs env st =
     (case GetNodes env of
        Inl errNode \<Rightarrow> (Done (reply 1 (GetNodesError errNode) []), [], st)
      | Inr nodes \<Rightarrow> (Done (reply 1 OKMsg (encode_kvs (kv_list (all_labels nodes)))), [], st))"

section \<open>Enforcing\<close>

text \<open>The loop over the pods of the namespace: error messages, deleted pods and the calls made.\<close>

definition pod_text :: "pod \<Rightarrow> string" where
  "pod_text pd = ''['' @ pod_namespace pd @ '':'' @ pod_name pd @ '']:'' @ pod_node pd"

fun refresh_loop ::
  "(string \<Rightarrow> string \<Rightarrow> error option) \<Rightarrow> string list \<Rightarrow> pod list \<Rightarrow>
   (string \<times> string \<times> error) list \<times> string list \<times> api_call list" where
  "refresh_loop delete okNodes [] = ([], [], [])"
| "refresh_loop delete okNodes (pd # pods) =
     (case refresh_loop delete okNodes pods of
        (errMsg, okMsg, calls) \<Rightarrow>
          if pod_node pd \<noteq> [] \<and> pod_node pd \<notin> set okNodes then
            (case delete (pod_namespace pd) (pod_name pd) of
               Some errDelete \<Rightarrow> ((pod_namespace pd, pod_name pd, errDelete) # errMsg, okMsg,
                 DeletePodCall (pod_namespace pd) (pod_name pd) # calls)
             | None \<Rightarrow> (errMsg, pod_text pd # okMsg, DeletePodCall (pod_namespace pd) (pod_name pd) # calls))
          else (errMsg, okMsg, calls))"

definition NsNodeSelectorRefresh ::
  "(string \<Rightarrow> error + ns_config option) \<Rightarrow> string \<Rightarrow> api_env \<Rightarrow> server_state \<Rightarrow> handler_result" where
  "NsNodeSelectorRefresh decode namespace env st =
     (case GetNodes env of
        Inl errNode \<Rightarrow> (Done (reply 1 (GetNodesError errNode) []), [], st)
      | Inr nodes \<Rightarrow>
          (case getNsNodeSelectorConfigMap True env st of
             (r, st1) \<Rightarrow>
               (case server_selector decode (ns_heap st1 ! r) namespace of
                  Panic \<Rightarrow> (Panic, [], st1)
                | Done (Inl err) \<Rightarrow> (Done (reply 1 (SelectorError err) []), [], st1)
                | Done (Inr selector) \<Rightarrow>
                    (let okNodes = map node_name (filter (\<lambda>nd. selector_Matches selector (node_labels nd)) nodes)
                     in case GetPods env namespace of
                          Inl errPods \<Rightarrow> (Done (reply 1 (GetPodsError errPods) []), [], st1)
                        | Inr pods \<Rightarrow>
                            (case refresh_loop (an_delete env) okNodes pods of
                               (errMsg, okMsg, calls) \<Rightarrow>
                                 (Done (if length errMsg = 0 then reply 0 OKMsg (join_with '','' okMsg)
                                        else reply 0 (DeleteErrors errMsg) (join_with '','' okMsg)), calls, st1))))))"

section \<open>Editing\<close>

text \<open>\<^verbatim>\<open>SetNsNodeSelectorConfigMapNsConfig\<close>: writing to a nil data map panics.\<close>

definition SetNsNodeSelectorConfigMapNsConfig ::
  "(ns_config \<Rightarrow> string) \<Rightarrow> nat \<Rightarrow> ns_config \<Rightarrow> server_state \<Rightarrow> server_state outcome" where
  "SetNsNodeSelectorConfigMapNsConfig encode r nsc st =
     (case cm_data (ns_heap st ! r) of
        None \<Rightarrow> Panic
      | Some d \<Rightarrow>
          Done (st\<lparr>ns_heap := (ns_heap st)[r := (ns_heap st ! r)\<lparr>cm_data :=
            Some (gput nsnodeselector_itemname (encode nsc) d)\<rparr>]\<rparr>))"

definition CreateOrUpdateSchedulerPolicyConfigMap ::
  "api_env \<Rightarrow> config_map \<Rightarrow> (error + config_map) \<times> api_call list" where
  "CreateOrUpdateSchedulerPolicyConfigMap env updateCm =
     (case an_current env (cm_namespace updateCm) (cm_name updateCm) of
        Inl (notFound, err) \<Rightarrow>
          if notFound then (an_create env updateCm, [CreateCM updateCm]) else (Inl err, [])
      | Inr curCM \<Rightarrow>
          (let curCM' = curCM\<lparr>cm_data := cm_data updateCm\<rparr> in (an_update env curCM', [UpdateCM curCM'])))"

record edit_form =
  ef_namespace :: string
  ef_type :: string
  ef_key :: string
  ef_value :: string

text \<open>\<^verbatim>\<open>tmpFun\<close>: the message written when it returns false, or the edited map.\<close>

definition edit_values ::
  "string \<Rightarrow> string \<Rightarrow> string \<Rightarrow> label_values \<Rightarrow> (server_msg + label_values option) outcome" where
  "edit_values addUpdateOrDelete matchKey matchValue lbvs =
     (let inserted = (\<lambda>m. case InsertValue (Some m) matchKey matchValue of
            Panic \<Rightarrow> Panic | Done m' \<Rightarrow> Done (Inr m'))
      in if addUpdateOrDelete = ''add'' then
           (if gget lbvs matchKey = None then inserted lbvs else Done (Inl (KeyExisted matchKey)))
         else if addUpdateOrDelete = ''delete'' then
           (if gget lbvs matchKey \<noteq> None then Done (Inr (Some (gdel matchKey lbvs)))
            else Done (Inl (KeyNotExist matchKey)))
         else
           (if gget lbvs matchKey \<noteq> None then inserted (gdel matchKey lbvs)
            else Done (Inl (KeyNotExist matchKey))))"

text \<open>The four cases of the switch share their shape: a field of the item is edited.\<close>

fun item_field :: "string \<Rightarrow> ((ns_config_item \<Rightarrow> label_values option) \<times>
    (label_values option \<Rightarrow> ns_config_item \<Rightarrow> ns_config_item)) option" where
  "item_field matchType =
     (if matchType = ''match'' then Some (ci_Match, \<lambda>m it. it\<lparr>ci_Match := m\<rparr>)
      else if matchType = ''mustmatch'' then Some (ci_MustMatch, \<lambda>m it. it\<lparr>ci_MustMatch := m\<rparr>)
      else if matchType = ''notmatch'' then Some (ci_NotMatch, \<lambda>m it. it\<lparr>ci_NotMatch := m\<rparr>)
      else if matchType = ''mustnotmatch'' then Some (ci_MustNotMatch, \<lambda>m it. it\<lparr>ci_MustNotMatch := m\<rparr>)
      else None)"

definition edit_item :: "string \<Rightarrow> edit_form \<Rightarrow> ns_config_item \<Rightarrow> (server_msg + ns_config_item) outcome" where
  "edit_item addUpdateOrDelete form item =
     (case item_field (ef_type form) of
        None \<Rightarrow> Done (Inl (UnknownMatchType (ef_type form)))
      | Some (get, put) \<Rightarrow>
          (case edit_values addUpdateOrDelete (ef_key form) (ef_value form) (or_empty (get item)) of
             Panic \<Rightarrow> Panic
           | Done (Inl msg) \<Rightarrow> Done (Inl msg)
           | Done (Inr lbvs) \<Rightarrow> Done (Inr (put lbvs item))))"

definition item_or_zero :: "ns_config \<Rightarrow> string \<Rightarrow> ns_config_item" where
  "item_or_zero nsConfig namespace = (case gget nsConfig namespace of None \<Rightarrow> empty_item | Some it \<Rightarrow> it)"

definition NsNodeSelectorAddUpdateOrDelete ::
  "(string \<Rightarrow> error + ns_config option) \<Rightarrow> (ns_config \<Rightarrow> string) \<Rightarrow> string \<Rightarrow> edit_form \<Rightarrow>
   api_env \<Rightarrow> server_state \<Rightarrow> handler_result" where
  "NsNodeSelectorAddUpdateOrDelete decode encode addUpdateOrDelete form env st =
     (if addUpdateOrDelete \<noteq> ''delete'' \<and> addUpdateOrDelete \<noteq> ''add'' \<and> addUpdateOrDelete \<noteq> ''update''
      then (Done (reply 1 (UnknownOperation addUpdateOrDelete) []), [], st)
      else
        (case getNsNodeSelectorConfigMap True env st of
           (r, st1) \<Rightarrow>
             (case GetNsConfigByConfigMap decode (Some (ns_heap st1 ! r)) (Some (namespaces_or_empty env)) of
                Panic \<Rightarrow> (Panic, [], st1)
              | Done config \<Rightarrow>
                  (let nsConfig = or_empty config
                   in case edit_item addUpdateOrDelete form (item_or_zero nsConfig (ef_namespace form)) of
                        Panic \<Rightarrow> (Panic, [], st1)
                      | Done (Inl msg) \<Rightarrow> (Done (reply 1 msg []), [], st1)
                      | Done (Inr item) \<Rightarrow>
                          (case SetNsNodeSelectorConfigMapNsConfig encode r (gput (ef_namespace form) item nsConfig) st1 of
                             Panic \<Rightarrow> (Panic, [], st1)
                           | Done st2 \<Rightarrow>
                               (case CreateOrUpdateSchedulerPolicyConfigMap env (ns_heap st2 ! r) of
                                  (Inl err, calls) \<Rightarrow> (Done (reply 1 (ErrorText err) []), calls, st2)
                                | (Inr updateCm, calls) \<Rightarrow>
                                    (case cm_alloc updateCm st2 of
                                       (r', st3) \<Rightarrow> (Done (reply 0 OKMsg []), calls, st3\<lparr>sc_cm := Some r'\<rparr>))))))))"

end
