(* ===== verification/NsHeap.thy ===== *)
theory NsHeap
  imports NsServer
begin

text \<open>
  The heap of config maps: every address the variables hold is an object on it, in every state
  the predicate and the server can reach; reading the configuration only adds objects; and the
  server's reading is the predicate's, seen through the shared variables.
\<close>

section \<open>Well-formed states\<close>

definition ns_wf :: "server_state \<Rightarrow> bool" where
  "ns_wf st \<longleftrightarrow>
     (case ns_cached st of None \<Rightarrow> True | Some r \<Rightarrow> r < length (ns_heap st)) \<and>
     (case sc_cm st of None \<Rightarrow> True | Some r \<Rightarrow> r < length (ns_heap st))"

text \<open>What the predicate sees: the variables of the package, the object in place of its address.\<close>

definition cache_view :: "server_state \<Rightarrow> ns_cache" where
  "cache_view st = \<lparr>nsNodeSelectorConfigMap = map_option (\<lambda>r. ns_heap st ! r) (ns_cached st),
     nsNodeSelectorConfigMapUpdateTime = ns_cached_at st\<rparr>"

text \<open>A step that only allocates: the old objects are where they were.\<close>

definition heap_grows :: "server_state \<Rightarrow> server_state \<Rightarrow> bool" where
  "heap_grows st st' \<longleftrightarrow> (\<exists>new. ns_heap st' = ns_heap st @ new)"

lemma heap_grows_refl [simp]: "heap_grows st st"
  by (simp add: heap_grows_def)

lemma heap_grows_object: "heap_grows st st' \<Longrightarrow> r < length (ns_heap st) \<Longrightarrow> ns_heap st' ! r = ns_heap st ! r"
  by (auto simp: heap_grows_def nth_append)

lemma heap_grows_length: "heap_grows st st' \<Longrightarrow> length (ns_heap st) \<le> length (ns_heap st')"
  by (auto simp: heap_grows_def)

lemma cm_alloc_simps [simp]:
  "fst (cm_alloc cm st) = length (ns_heap st)"
  "ns_heap (snd (cm_alloc cm st)) = ns_heap st @ [cm]"
  "ns_cached (snd (cm_alloc cm st)) = ns_cached st"
  "ns_cached_at (snd (cm_alloc cm st)) = ns_cached_at st"
  "sc_cm (snd (cm_alloc cm st)) = sc_cm st"
  "sc_timeout (snd (cm_alloc cm st)) = sc_timeout st"
  by (simp_all add: cm_alloc_def)

section \<open>Reading\<close>

lemma fetch_selector_cm_spec:
  assumes "fetch_selector_cm env st = (r, st')" and "ns_wf st"
  shows "heap_grows st st' \<and> r < length (ns_heap st') \<and> ns_wf st' \<and> sc_timeout st' = sc_timeout st \<and>
    (case an_get env of
       Inr (Some cm) \<Rightarrow> ns_heap st' ! r = cm \<and> ns_cached st' = Some r \<and> ns_cached_at st' = ck_fetched env
     | _ \<Rightarrow> ns_heap st' ! r = empty_config_map \<and> ns_cached st' = ns_cached st \<and> ns_cached_at st' = ns_cached_at st)"
  using assms
  by (auto simp: fetch_selector_cm_def cm_alloc_def heap_grows_def ns_wf_def split: sum.splits option.splits)

text \<open>The server's copy of \<^verbatim>\<open>getConfigCM\<close> does what the predicate's does.\<close>

lemma getSelectorConfigMap_refines:
  assumes "ns_wf st" and "getSelectorConfigMap env st = (r, st')"
  shows "getConfigCM (ck_since env) (ck_fetched env) (an_get env) (cache_view st) = (ns_heap st' ! r, cache_view st')"
proof (cases "\<exists>c. ns_cached st = Some c \<and> ck_since env - ns_cached_at st \<le> nsNodeSelectorConfigMapCacheTimeOut")
  case True
  with assms show ?thesis
    by (auto simp: getSelectorConfigMap_def getConfigCM_def cache_view_def)
next
  case False
  then have "fetch_selector_cm env st = (r, st')"
    using assms(2) by (auto simp: getSelectorConfigMap_def split: option.splits if_splits)
  from fetch_selector_cm_spec [OF this assms(1)]
  have new: "heap_grows st st'" "case an_get env of
       Inr (Some cm) \<Rightarrow> ns_heap st' ! r = cm \<and> ns_cached st' = Some r \<and> ns_cached_at st' = ck_fetched env
     | _ \<Rightarrow> ns_heap st' ! r = empty_config_map \<and> ns_cached st' = ns_cached st \<and> ns_cached_at st' = ns_cached_at st"
    by blast+
  have view: "getConfigCM (ck_since env) (ck_fetched env) (an_get env) (cache_view st) =
      (case an_get env of
         Inr (Some cm) \<Rightarrow> (cm, \<lparr>nsNodeSelectorConfigMap = Some cm, nsNodeSelectorConfigMapUpdateTime = ck_fetched env\<rparr>)
       | _ \<Rightarrow> (empty_config_map, cache_view st))"
    using False by (auto simp: getConfigCM_def cache_view_def split: option.splits sum.splits)
  have same: "ns_cached st = Some c \<Longrightarrow> ns_heap st' ! c = ns_heap st ! c" for c
    using new(1) assms(1) by (auto simp: ns_wf_def intro: heap_grows_object)
  show ?thesis
    unfolding view using new(2) same
    by (cases "ns_cached st") (auto simp: cache_view_def split: sum.splits option.splits)
qed

lemma getSelectorConfigMap_spec:
  assumes "getSelectorConfigMap env st = (r, st')" and "ns_wf st"
  shows "heap_grows st st' \<and> r < length (ns_heap st') \<and> ns_wf st' \<and> sc_timeout st' = sc_timeout st"
  using assms fetch_selector_cm_spec [of env st r st']
  by (auto simp: getSelectorConfigMap_def ns_wf_def split: option.splits if_splits)

lemma getNsNodeSelectorConfigMap_spec:
  assumes "getNsNodeSelectorConfigMap notcache env st = (r, st')" and "ns_wf st"
  shows "heap_grows st st' \<and> r < length (ns_heap st') \<and> ns_wf st' \<and> sc_cm st' = Some r \<and> sc_timeout st' = sc_timeout st"
proof -
  obtain r1 st1 where get: "getSelectorConfigMap env st = (r1, st1)" by fastforce
  from getSelectorConfigMap_spec [OF this assms(2)]
  have "heap_grows st (st1\<lparr>sc_cm := Some r1, sc_cm_at := ck_stored env\<rparr>)" "r1 < length (ns_heap st1)"
    "ns_wf (st1\<lparr>sc_cm := Some r1, sc_cm_at := ck_stored env\<rparr>)" "sc_timeout st1 = sc_timeout st"
    by (auto simp: ns_wf_def heap_grows_def split: option.splits)
  with assms get show ?thesis
    by (auto simp: getNsNodeSelectorConfigMap_def ns_wf_def split: option.splits if_splits)
qed

text \<open>With a fresh copy in the package's variable, nothing is fetched, \<^verbatim>\<open>notcache\<close> or not.\<close>

lemma getNsNodeSelectorConfigMap_fresh:
  assumes "ns_cached st = Some r" and "ck_since env - ns_cached_at st \<le> nsNodeSelectorConfigMapCacheTimeOut"
  shows "getNsNodeSelectorConfigMap True env st = (r, st\<lparr>sc_cm := Some r, sc_cm_at := ck_stored env\<rparr>)"
  using assms by (simp add: getNsNodeSelectorConfigMap_def getSelectorConfigMap_def split: option.splits)

section \<open>Writing\<close>

lemma Set_wf:
  "SetNsNodeSelectorConfigMapNsConfig encode r nsc st = Done st' \<Longrightarrow> ns_wf st \<Longrightarrow>
   ns_wf st' \<and> sc_timeout st' = sc_timeout st \<and> length (ns_heap st') = length (ns_heap st)"
  by (auto simp: SetNsNodeSelectorConfigMapNsConfig_def ns_wf_def split: option.splits)

lemma alloc_store_wf:
  "ns_wf st \<Longrightarrow> ns_wf ((snd (cm_alloc cm st))\<lparr>sc_cm := Some (fst (cm_alloc cm st))\<rparr>)"
  by (auto simp: ns_wf_def cm_alloc_def split: option.splits)

section \<open>Requests\<close>

datatype ns_request =
    GetConfig
  | CheckNamespace string
  | EditConfig string edit_form
  | NodeLabels
  | Refresh string

record ns_codec =
  un_config :: "string \<Rightarrow> error + ns_config option"   \<comment> \<open>\<^verbatim>\<open>json.Unmarshal\<close> into the map\<close>
  en_config :: "ns_config \<Rightarrow> string"                  \<comment> \<open>\<^verbatim>\<open>json.MarshalIndent\<close>\<close>
  en_labels :: "key_value list \<Rightarrow> string"             \<comment> \<open>\<^verbatim>\<open>json.Marshal\<close>\<close>

fun ns_handle :: "ns_codec \<Rightarrow> ns_request \<Rightarrow> api_env \<Rightarrow> server_state \<Rightarrow> handler_result" where
  "ns_handle cd GetConfig env st = NsNodeSelectorGet (un_config cd) env st"
| "ns_handle cd (CheckNamespace ns) env st = CheckNamespaceSchedulerNodes (un_config cd) ns env st"
| "ns_handle cd (EditConfig opr form) env st =
     NsNodeSelectorAddUpdateOrDelete (un_config cd) (en_config cd) opr form env st"
| "ns_handle cd NodeLabels env st = NsNodeSelectorNodeLabels (en_labels cd) env st"
| "ns_handle cd (Refresh ns) env st = NsNodeSelectorRefresh (un_config cd) ns env st"

text \<open>The predicate, on the shared variables.\<close>

definition ns_predicate_call :: "ns_codec \<Rightarrow> api_env \<Rightarrow> pod \<Rightarrow> node \<Rightarrow> server_state \<Rightarrow> (error + bool) outcome \<times> server_state" where
  "ns_predicate_call cd env pd nd st =
     (case getSelectorConfigMap env st of
        (r, st') \<Rightarrow>
          (case GetNsConfigByConfigMap (un_config cd) (Some (ns_heap st' ! r)) None of
             Panic \<Rightarrow> (Panic, st')
           | Done config \<Rightarrow> (Done (ns_match config pd nd), st')))"

lemma ns_predicate_call_view:
  assumes "ns_wf st" and "ns_predicate_call cd env pd nd st = (res, st')"
  shows "ns_PodMatchNode (un_config cd) (ck_since env) (ck_fetched env) (an_get env) (cache_view st) pd nd =
    (res, cache_view st')"
  using assms getSelectorConfigMap_refines [OF assms(1)]
  by (auto simp: ns_predicate_call_def ns_PodMatchNode_def split: prod.splits outcome.splits)

lemma edit_wf:
  assumes "ns_wf st" and "NsNodeSelectorAddUpdateOrDelete decode encode opr form env st = (res, calls, st')"
  shows "ns_wf st' \<and> sc_timeout st' = sc_timeout st"
proof -
  obtain r st1 where get: "getNsNodeSelectorConfigMap True env st = (r, st1)" by fastforce
  have one: "ns_wf st1" "sc_timeout st1 = sc_timeout st"
    using getNsNodeSelectorConfigMap_spec [OF get assms(1)] by blast+
  have two: "ns_wf st2 \<and> sc_timeout st2 = sc_timeout st"
    if "SetNsNodeSelectorConfigMapNsConfig encode r nsc st1 = Done st2" for nsc st2
    using Set_wf [OF that one(1)] one(2) by simp
  have three: "ns_wf (st3\<lparr>sc_cm := Some r'\<rparr>) \<and> sc_timeout st3 = sc_timeout st"
    if "cm_alloc cm st2 = (r', st3)" "ns_wf st2" "sc_timeout st2 = sc_timeout st" for cm st2 r' st3
    using alloc_store_wf [OF that(2), of cm] that by (auto simp: cm_alloc_def)
  show ?thesis
    using assms one two three
    by (auto simp: NsNodeSelectorAddUpdateOrDelete_def get Let_def
        split: if_splits outcome.splits sum.splits prod.splits)
qed

lemma ns_handle_wf:
  assumes "ns_wf st" and "ns_handle cd req env st = (res, calls, st')"
  shows "ns_wf st' \<and> sc_timeout st' = sc_timeout st"
proof -
  have read: "ns_wf st1 \<and> sc_timeout st1 = sc_timeout st"
    if "getNsNodeSelectorConfigMap b env st = (r, st1)" for b r st1
    using getNsNodeSelectorConfigMap_spec [OF that assms(1)] by blast
  show ?thesis
  proof (cases req)
    case (EditConfig opr form)
    with assms show ?thesis by (auto dest: edit_wf)
  qed (use assms in \<open>auto simp: NsNodeSelectorGet_def CheckNamespaceSchedulerNodes_def
      NsNodeSelectorNodeLabels_def NsNodeSelectorRefresh_def Let_def dest!: read
      split: sum.splits prod.splits outcome.splits if_splits\<close>)
qed

section \<open>Runs\<close>

text \<open>The start of the process, and the steps of the server and of the predicate in any order.\<close>

definition server_init :: "int \<Rightarrow> server_state" where
  "server_init timeout = \<lparr>ns_heap = [], ns_cached = None, ns_cached_at = 0, sc_cm = None, sc_cm_at = 0,
     sc_timeout = timeout\<rparr>"

inductive server_step :: "ns_codec \<Rightarrow> server_state \<Rightarrow> api_call list \<Rightarrow> server_state \<Rightarrow> bool" for cd where
  http: "ns_handle cd req env st = (res, calls, st') \<Longrightarrow> server_step cd st calls st'"
| predicate: "ns_predicate_call cd env pd nd st = (res, st') \<Longrightarrow> server_step cd st [] st'"

inductive server_reach :: "ns_codec \<Rightarrow> int \<Rightarrow> server_state \<Rightarrow> bool" for cd timeout where
  start: "server_reach cd timeout (server_init timeout)"
| step: "server_reach cd timeout st \<Longrightarrow> server_step cd st calls st' \<Longrightarrow> server_reach cd timeout st'"

inductive_cases server_stepE: "server_step cd st calls st'"

lemma server_step_wf: "server_step cd st calls st' \<Longrightarrow> ns_wf st \<Longrightarrow> ns_wf st' \<and> sc_timeout st' = sc_timeout st"
proof (induction rule: server_step.induct)
  case (http req env st res calls st')
  then show ?case using ns_handle_wf by blast
next
  case (predicate env pd nd st res st')
  obtain r st1 where "getSelectorConfigMap env st = (r, st1)" by fastforce
  with getSelectorConfigMap_spec [OF this predicate(2)] predicate(1) show ?case
    by (auto simp: ns_predicate_call_def split: outcome.splits)
qed

lemma server_reach_wf: "server_reach cd timeout st \<Longrightarrow> ns_wf st \<and> sc_timeout st = timeout"
proof (induction rule: server_reach.induct)
  case start
  show ?case by (simp add: ns_wf_def server_init_def)
next
  case (step st calls st')
  then show ?case using server_step_wf by fastforce
qed

end
