(* ===== verification/NsEdit.thy ===== *)
theory NsEdit
  imports NsHeap
begin

text \<open>
  What an edit of the namespace configuration does: the entry it changes and nothing else, when
  it is refused, what is written to the API server and from which copy, what stays in memory
  when the write fails, and the predicate's verdict afterwards.
\<close>

section \<open>One edit of a map of values\<close>

definition split_value :: "string \<Rightarrow> string list" where
  "split_value v = (if v \<noteq> [] then split_on (CHR '','') v else [[]])"

text \<open>The values listed under a key, as a set; nothing when the key is missing.\<close>

definition listed :: "label_values option \<Rightarrow> string \<Rightarrow> string set option" where
  "listed m k = map_option (\<lambda>vs. set (ListMapString vs)) (gget (or_empty m) k)"

lemma listed_Some [simp]: "listed (Some m) k = map_option (\<lambda>vs. set (ListMapString vs)) (gget m k)"
  by (simp add: listed_def or_empty_def)

lemma or_empty_simps [simp]: "or_empty None = []" "or_empty (Some m) = m"
  by (simp_all add: or_empty_def)

lemma set_ListMapString: "set (ListMapString (Some vm)) = {v. gget vm v \<noteq> None}"
  by (auto simp: ListMapString_def map_of_eq_None_iff)

lemma added_values: "set (ListMapString (Some (add_values strs vm))) = set strs \<union> set (ListMapString (Some vm))"
  using gm.get_put_all [of "\<lambda>s. s" "()" strs vm] by (auto simp: set_ListMapString add_values_def)

text \<open>The effect on the map, when there is one.\<close>

lemma edit_values_effect:
  assumes "edit_values opr k v m = Done (Inr m')"
  shows "\<exists>n. m' = Some n \<and> (\<forall>j. listed m' j = (if j = k then (if opr = ''delete'' then None else Some (set (split_value v)))
    else listed (Some m) j))"
proof -
  have ins: "\<exists>n. m1 = Some n \<and> (\<forall>j. listed m1 j = (if j = k then Some (set (split_value v)) else listed (Some m0) j))"
    if "InsertValue (Some m0) k v = Done m1" "gget m0 k = None" for m0 m1
    using that by (auto simp: InsertValue_def Let_def split_value_def [symmetric] added_values gm.get_put)
      (simp add: ListMapString_def)
  consider "opr = ''add''" "gget m k = None" | "opr = ''delete''" "m' = Some (gdel k m)"
    | "opr \<noteq> ''add''" "opr \<noteq> ''delete''"
    using assms by (auto simp: edit_values_def Let_def split: if_splits)
  then show ?thesis
  proof cases
    case 1
    with assms ins [of m m'] show ?thesis by (auto simp: edit_values_def Let_def split: outcome.splits)
  next
    case 2
    then show ?thesis by (auto simp: gm.get_del)
  next
    case 3
    with assms ins [of "gdel k m" m'] show ?thesis
      by (auto simp: edit_values_def Let_def gm.get_del split: outcome.splits if_splits)
  qed
qed

text \<open>When it is refused; an edit of a map never panics.\<close>

lemma edit_values_refused:
  "edit_values opr k v m = Done (Inl msg) \<longleftrightarrow>
    (if opr = ''add'' then gget m k \<noteq> None \<and> msg = KeyExisted k else gget m k = None \<and> msg = KeyNotExist k)"
  by (auto simp: edit_values_def Let_def InsertValue_def gm.get_del split: outcome.splits)

lemma edit_values_total: "edit_values opr k v m \<noteq> Panic"
  by (auto simp: edit_values_def Let_def InsertValue_def gm.get_del split: outcome.splits)

section \<open>One edit of an item\<close>

lemma item_field_frame:
  "item_field ty = Some (get, put) \<Longrightarrow> item_field ty' = Some (get', put') \<Longrightarrow>
   get' (put v it) = (if ty' = ty then v else get' it)"
  by (auto split: if_splits)

lemma item_field_get: "item_field ty = Some (get, put) \<Longrightarrow> item_field ty = Some (get', put') \<Longrightarrow> get' = get"
  by simp

declare item_field.simps [simp del]

text \<open>
  The item after an edit: the field of the form's type has the new values under the form's key
  and its old ones under the others; the other fields are as before.
\<close>

definition edited :: "string \<Rightarrow> edit_form \<Rightarrow> ns_config_item \<Rightarrow> ns_config_item \<Rightarrow> bool" where
  "edited opr form it it' \<longleftrightarrow>
     (\<forall>ty get put. item_field ty = Some (get, put) \<longrightarrow>
        (if ty = ef_type form
         then \<forall>k. listed (get it') k = (if k = ef_key form
                then (if opr = ''delete'' then None else Some (set (split_value (ef_value form))))
                else listed (get it) k)
         else get it' = get it))"

lemma edited_listed:
  assumes "edited opr form it it'" and "item_field (ef_type form) = Some (get, put)"
  shows "listed (get it') k = (if k = ef_key form
     then (if opr = ''delete'' then None else Some (set (split_value (ef_value form)))) else listed (get it) k)"
proof -
  have "\<forall>k. listed (get it') k = (if k = ef_key form
     then (if opr = ''delete'' then None else Some (set (split_value (ef_value form)))) else listed (get it) k)"
    using assms(1) [unfolded edited_def, rule_format, OF assms(2)] by simp
  then show ?thesis ..
qed

lemma listed_or_empty: "listed (Some (or_empty m)) k = listed m k"
  by (simp add: listed_def)

lemma edit_item_effect:
  assumes "edit_item opr form it = Done (Inr it')"
  shows "edited opr form it it'"
proof -
  from assms obtain get put m' where f: "item_field (ef_type form) = Some (get, put)"
    and e: "edit_values opr (ef_key form) (ef_value form) (or_empty (get it)) = Done (Inr m')" and it': "it' = put m' it"
    by (auto simp: edit_item_def split: option.splits outcome.splits sum.splits)
  from edit_values_effect [OF e]
  have new: "\<forall>j. listed m' j = (if j = ef_key form then (if opr = ''delete'' then None
      else Some (set (split_value (ef_value form)))) else listed (get it) j)"
    by (metis listed_or_empty)
  show ?thesis
    unfolding edited_def
  proof (intro allI impI)
    fix ty get' put' assume f': "item_field ty = Some (get', put')"
    show "if ty = ef_type form
          then \<forall>k. listed (get' it') k = (if k = ef_key form
                then (if opr = ''delete'' then None else Some (set (split_value (ef_value form))))
                else listed (get' it) k)
          else get' it' = get' it"
      using item_field_frame [OF f f', of m' it] new f f' by (auto simp: it')
  qed
qed

lemma edit_item_refused:
  assumes "edit_item opr form it = Done (Inl msg)"
  shows "msg = UnknownMatchType (ef_type form) \<and> item_field (ef_type form) = None \<or>
    msg = KeyExisted (ef_key form) \<and> opr = ''add'' \<or> msg = KeyNotExist (ef_key form) \<and> opr \<noteq> ''add''"
  using assms
  by (auto simp: edit_item_def edit_values_refused split: option.splits outcome.splits sum.splits if_splits)

section \<open>The new configuration\<close>

text \<open>What an accepted edit writes, computed from a config map and the cluster's namespaces.\<close>

definition edited_config ::
  "(string \<Rightarrow> error + ns_config option) \<Rightarrow> string list \<Rightarrow> string \<Rightarrow> edit_form \<Rightarrow> config_map \<Rightarrow> ns_config option" where
  "edited_config decode nss opr form cm =
     (case GetNsConfigByConfigMap decode (Some cm) (Some nss) of
        Panic \<Rightarrow> None
      | Done config \<Rightarrow>
          (case edit_item opr form (item_or_zero (or_empty config) (ef_namespace form)) of
             Done (Inr item) \<Rightarrow> Some (gput (ef_namespace form) item (or_empty config))
           | _ \<Rightarrow> None))"

lemma edited_config_lookup:
  assumes "edited_config decode nss opr form cm = Some c"
  shows "\<exists>config. GetNsConfigByConfigMap decode (Some cm) (Some nss) = Done config \<and>
    (\<forall>ns. ns \<noteq> ef_namespace form \<longrightarrow> gget c ns = gget (or_empty config) ns) \<and>
    (\<exists>it. gget c (ef_namespace form) = Some it \<and>
       edited opr form (item_or_zero (or_empty config) (ef_namespace form)) it)"
  using assms
  by (auto simp: edited_config_def gm.get_put split: outcome.splits sum.splits intro: edit_item_effect)

definition operation_ok :: "string \<Rightarrow> bool" where
  "operation_ok opr \<longleftrightarrow> opr \<in> {''delete'', ''add'', ''update''}"

text \<open>The handler, once the configuration is read and the edit accepted.\<close>

lemma edit_accepted:
  fixes encode :: "ns_config \<Rightarrow> string"
  assumes "operation_ok opr" and "getNsNodeSelectorConfigMap True env st = (r, st1)"
    and "edited_config decode (namespaces_or_empty env) opr form (ns_heap st1 ! r) = Some c"
    and "cm_data (ns_heap st1 ! r) = Some d" and "r < length (ns_heap st1)"
  defines "cm \<equiv> (ns_heap st1 ! r)\<lparr>cm_data := Some (gput nsnodeselector_itemname (encode c) d)\<rparr>"
  shows "NsNodeSelectorAddUpdateOrDelete decode encode opr form env st =
    (case CreateOrUpdateSchedulerPolicyConfigMap env cm of
       (Inl err, calls) \<Rightarrow> (Done (reply 1 (ErrorText err) []), calls, st1\<lparr>ns_heap := (ns_heap st1)[r := cm]\<rparr>)
     | (Inr updateCm, calls) \<Rightarrow> (Done (reply 0 OKMsg []), calls,
         st1\<lparr>ns_heap := (ns_heap st1)[r := cm] @ [updateCm], sc_cm := Some (length (ns_heap st1))\<rparr>))"
proof -
  from assms(3) obtain config item where
    conf: "GetNsConfigByConfigMap decode (Some (ns_heap st1 ! r)) (Some (namespaces_or_empty env)) = Done config"
    and item: "edit_item opr form (item_or_zero (or_empty config) (ef_namespace form)) = Done (Inr item)"
    and c: "c = gput (ef_namespace form) item (or_empty config)"
    by (auto simp: edited_config_def split: outcome.splits sum.splits)
  have op: "(opr \<noteq> ''delete'' \<and> opr \<noteq> ''add'' \<and> opr \<noteq> ''update'') = False"
    using assms(1) by (auto simp: operation_ok_def)
  show ?thesis
    unfolding NsNodeSelectorAddUpdateOrDelete_def op
    using assms(2,4,5) conf item c
    by (simp add: Let_def SetNsNodeSelectorConfigMapNsConfig_def cm_def cm_alloc_def
        split: prod.splits sum.splits)
qed

text \<open>All that can be written, in one call.\<close>

lemma write_calls:
  "snd (CreateOrUpdateSchedulerPolicyConfigMap env cm) =
     (case an_current env (cm_namespace cm) (cm_name cm) of
        Inl (notFound, err) \<Rightarrow> if notFound then [CreateCM cm] else []
      | Inr cur \<Rightarrow> [UpdateCM (cur\<lparr>cm_data := cm_data cm\<rparr>)])"
  by (simp add: CreateOrUpdateSchedulerPolicyConfigMap_def Let_def split: sum.splits prod.splits)

fun call_data :: "api_call \<Rightarrow> (string, string) gomap option" where
  "call_data (CreateCM cm) = cm_data cm"
| "call_data (UpdateCM cm) = cm_data cm"
| "call_data (DeletePodCall ns n) = None"

text \<open>A reply with code 0 means an accepted edit.\<close>

lemma edit_ok_inv:
  assumes "NsNodeSelectorAddUpdateOrDelete decode encode opr form env st = (Done (reply 0 msg data), calls, st')"
    and "getNsNodeSelectorConfigMap True env st = (r, st1)"
  shows "operation_ok opr \<and>
    (\<exists>c d. edited_config decode (namespaces_or_empty env) opr form (ns_heap st1 ! r) = Some c \<and>
       cm_data (ns_heap st1 ! r) = Some d)"
  using assms
  by (auto simp: NsNodeSelectorAddUpdateOrDelete_def operation_ok_def edited_config_def reply_def Let_def
      SetNsNodeSelectorConfigMapNsConfig_def
      split: if_splits outcome.splits sum.splits option.splits prod.splits)

section \<open>What the other handlers rest on\<close>

lemma excludes_listed:
  "(k, vals) \<in> set lvs \<Longrightarrow> k \<noteq> [] \<Longrightarrow> gget ls k = Some v \<Longrightarrow> in_values vals v \<Longrightarrow> \<not> excludes lvs ls"
  by (induction lvs ls rule: excludes.induct) auto

text \<open>A listed value of an excluding part refuses the node, also after the default is added.\<close>

lemma edited_excludes:
  assumes "edited opr form it0 it" and "opr \<noteq> ''delete''" and "ef_type form \<in> {''notmatch'', ''mustnotmatch''}"
    and "ef_key form \<noteq> []" and "gget ls (ef_key form) = Some v" and "v \<in> set (split_value (ef_value form))"
  shows "\<not> admits (default_item it) ls"
proof -
  have refuse: "\<not> excludes (or_empty m) ls" if m: "listed m (ef_key form) = Some (set (split_value (ef_value form)))" for m
  proof -
    from m obtain vals where vals: "gget (or_empty m) (ef_key form) = Some vals"
      "set (ListMapString vals) = set (split_value (ef_value form))"
      by (auto simp: listed_def)
    have "in_values vals v" using vals(2) assms(6) by (simp add: in_values_def)
    with excludes_listed [OF map_of_SomeD [OF vals(1)] assms(4,5)] show ?thesis by blast
  qed
  from assms(3) consider "ef_type form = ''notmatch''" | "ef_type form = ''mustnotmatch''" by blast
  then show ?thesis
  proof cases
    case 1
    then have "item_field (ef_type form) = Some (ci_NotMatch, \<lambda>m it. it\<lparr>ci_NotMatch := m\<rparr>)"
      by (simp add: item_field.simps)
    from edited_listed [OF assms(1) this, of "ef_key form"] assms(2)
    have l: "listed (ci_NotMatch it) (ef_key form) = Some (set (split_value (ef_value form)))" by simp
    then have "default_item it = it" by (auto simp: listed_def default_item_def split: option.splits)
    with refuse [OF l] show ?thesis by (simp add: admits_def)
  next
    case 2
    then have "item_field (ef_type form) = Some (ci_MustNotMatch, \<lambda>m it. it\<lparr>ci_MustNotMatch := m\<rparr>)"
      by (simp add: item_field.simps)
    from edited_listed [OF assms(1) this, of "ef_key form"] assms(2)
    have l: "listed (ci_MustNotMatch it) (ef_key form) = Some (set (split_value (ef_value form)))" by simp
    have "ci_MustNotMatch (default_item it) = ci_MustNotMatch it"
      by (simp add: default_item_def split: option.splits)
    with refuse [OF l] show ?thesis by (simp add: admits_def)
  qed
qed

lemma server_selector_verdict:
  assumes "entry_ok (decode (config_text (Some cm))) ns"
  shows "\<exists>sel. server_selector decode cm ns = Done (Inr sel) \<and>
    (\<forall>ls. selector_Matches sel ls \<longleftrightarrow> ns_verdict (decode (config_text (Some cm))) ns ls)"
  using selector_verdict [OF assms] by (simp add: server_selector_def config_of_decode ns_effective_def)

lemma verdict_of_call:
  assumes "getConfigCM now now2 got cache = (cm, cache')"
    and "entry_ok (decode (config_text (Some cm))) (pod_namespace pd)"
  shows "ns_PodMatchNode decode now now2 got cache pd nd =
    (Done (Inr (ns_verdict (decode (config_text (Some cm))) (pod_namespace pd) (node_labels nd))), cache')"
  using selector_verdict [OF assms(2)] assms(1) by (auto simp: predicate_cases ns_match_def)

lemma not_listed: "x \<notin> set (map node_name (filter P nodes)) \<longleftrightarrow> \<not> (\<exists>nd \<in> set nodes. node_name nd = x \<and> P nd)"
  by auto

lemma refresh_loop_calls:
  "snd (snd (refresh_loop delete okNodes pods)) =
     map (\<lambda>pd. DeletePodCall (pod_namespace pd) (pod_name pd))
       (filter (\<lambda>pd. pod_node pd \<noteq> [] \<and> pod_node pd \<notin> set okNodes) pods)"
  by (induction pods) (auto split: prod.splits option.splits)

lemma refresh_run:
  assumes "an_nodes env = Inr nodes" and "an_pods env ns = Inr pods"
    and "getNsNodeSelectorConfigMap True env st = (r, st1)"
    and "server_selector decode (ns_heap st1 ! r) ns = Done (Inr sel)"
  shows "\<exists>msg data. NsNodeSelectorRefresh decode ns env st = (Done (reply 0 msg data),
    snd (snd (refresh_loop (an_delete env)
      (map node_name (filter (\<lambda>nd. selector_Matches sel (node_labels nd)) nodes)) pods)), st1)"
  using assms by (auto simp: NsNodeSelectorRefresh_def Let_def split: prod.splits)

definition values_at :: "label_values \<Rightarrow> string \<Rightarrow> string set" where
  "values_at m k = (case listed (Some m) k of None \<Rightarrow> {} | Some vs \<Rightarrow> vs)"

lemma add_label_values: "values_at (add_label kv m) k = values_at m k \<union> (if k = fst kv then {snd kv} else {})"
proof (cases "gget m (fst kv)")
  case None
  then show ?thesis by (auto simp: values_at_def add_label_def gm.get_put ListMapString_def)
next
  case (Some vm)
  have "set (ListMapString (Some (gput (snd kv) () (or_empty vm)))) = insert (snd kv) (set (ListMapString vm))"
    by (auto simp: ListMapString_def dom_update image_iff update_conv' map_of_eq_None_iff
        simp flip: dom_map_of_conv_image_fst)
  with Some show ?thesis by (auto simp: values_at_def add_label_def gm.get_put)
qed

lemma fold_add_label: "values_at (fold add_label kvs m) k = values_at m k \<union> {v. (k, v) \<in> set kvs}"
  by (induction kvs arbitrary: m) (auto simp: add_label_values)

lemma fold_add_labels:
  "values_at (fold (\<lambda>nd m. fold add_label (node_labels nd) m) nodes m) k =
     values_at m k \<union> {v. \<exists>nd \<in> set nodes. (k, v) \<in> set (node_labels nd)}"
  by (induction nodes arbitrary: m) (auto simp: fold_add_label)

end
