(* ===== verification/NsRules.thy ===== *)
theory NsRules
  imports NsEdit
begin

text \<open>
  The abstract view of the namespace configuration: the rules, a set of values for each
  namespace, part and key.  The defaults of the code are in it, so a namespace without an entry
  has rules too.  The predicate's verdict and the effect of an edit are stated on rules, and
  what the JSON codec has to do for them.
\<close>

section \<open>Rules\<close>

type_synonym item_rules = "string \<Rightarrow> string \<Rightarrow> string set option"
type_synonym rules = "string \<Rightarrow> item_rules"

definition item_rules :: "ns_config_item \<Rightarrow> item_rules" where
  "item_rules it part k = (case item_field part of None \<Rightarrow> None | Some (get, put) \<Rightarrow> listed (get it) k)"

text \<open>The entry in force for a namespace, with the default added.\<close>

definition item_in_force :: "error + ns_config option \<Rightarrow> string \<Rightarrow> ns_config_item" where
  "item_in_force decoded ns =
     default_item (case decoded of Inr (Some m) \<Rightarrow> item_or_zero m ns | _ \<Rightarrow> empty_item)"

definition rules_of :: "error + ns_config option \<Rightarrow> rules" where
  "rules_of decoded ns = item_rules (item_in_force decoded ns)"

lemma item_rules_simps [simp]:
  "item_rules it ''match'' k = listed (ci_Match it) k"
  "item_rules it ''mustmatch'' k = listed (ci_MustMatch it) k"
  "item_rules it ''notmatch'' k = listed (ci_NotMatch it) k"
  "item_rules it ''mustnotmatch'' k = listed (ci_MustNotMatch it) k"
  by (simp_all add: item_rules_def item_field.simps)

section \<open>The verdict\<close>

text \<open>A rule holds of a value it lists, of every value for the wildcard, and empty only of the empty value.\<close>

definition rule_holds :: "string set \<Rightarrow> string \<Rightarrow> bool" where
  "rule_holds vs v \<longleftrightarrow> [] \<in> vs \<or> ''*'' \<in> vs \<or> v \<in> vs \<or> (vs = {} \<and> v = [])"

definition demands :: "(string \<Rightarrow> string set option) \<Rightarrow> (string, string) gomap \<Rightarrow> bool" where
  "demands R ls \<longleftrightarrow> (\<forall>k vs. k \<noteq> [] \<longrightarrow> R k = Some vs \<longrightarrow> (\<exists>v. gget ls k = Some v \<and> rule_holds vs v))"

definition forbids :: "(string \<Rightarrow> string set option) \<Rightarrow> (string, string) gomap \<Rightarrow> bool" where
  "forbids R ls \<longleftrightarrow> (\<forall>k vs v. k \<noteq> [] \<longrightarrow> R k = Some vs \<longrightarrow> gget ls k = Some v \<longrightarrow> \<not> rule_holds vs v)"

definition rules_admit :: "item_rules \<Rightarrow> (string, string) gomap \<Rightarrow> bool" where
  "rules_admit R ls \<longleftrightarrow> demands (R ''match'') ls \<and> demands (R ''mustmatch'') ls \<and>
     forbids (R ''notmatch'') ls \<and> forbids (R ''mustnotmatch'') ls"

lemma rule_holds_in_values: "rule_holds (set (ListMapString vals)) v \<longleftrightarrow> in_values vals v"
  by (auto simp: rule_holds_def in_values_def wildcard_iff)

lemma requires_all:
  "requires lvs ls \<longleftrightarrow>
     (\<forall>(k, vals) \<in> set lvs. k \<noteq> [] \<longrightarrow> (\<exists>v. gget ls k = Some v \<and> in_values vals v))"
  by (induction lvs ls rule: requires.induct) (auto split: option.splits)

lemma excludes_all:
  "excludes lvs ls \<longleftrightarrow>
     (\<forall>(k, vals) \<in> set lvs. \<forall>v. k \<noteq> [] \<longrightarrow> gget ls k = Some v \<longrightarrow> \<not> in_values vals v)"
  by (induction lvs ls rule: excludes.induct) (auto split: option.splits)

text \<open>Go's maps have every key once.\<close>

definition part_wf :: "label_values option \<Rightarrow> bool" where
  "part_wf m \<longleftrightarrow> gwf (or_empty m)"

definition item_wf :: "ns_config_item \<Rightarrow> bool" where
  "item_wf it \<longleftrightarrow> part_wf (ci_Match it) \<and> part_wf (ci_MustMatch it) \<and> part_wf (ci_NotMatch it) \<and>
     part_wf (ci_MustNotMatch it)"

lemma part_entries:
  "part_wf m \<Longrightarrow> (k, vals) \<in> set (or_empty m) \<longleftrightarrow> gget (or_empty m) k = Some vals"
  by (simp add: part_wf_def gwf_def gkeys_def)

lemma requires_demands:
  assumes "part_wf m"
  shows "requires (or_empty m) ls \<longleftrightarrow> demands (listed m) ls"
  using part_entries [OF assms]
  by (fastforce simp: requires_all demands_def listed_def rule_holds_in_values)

lemma excludes_forbids:
  assumes "part_wf m"
  shows "excludes (or_empty m) ls \<longleftrightarrow> forbids (listed m) ls"
  using part_entries [OF assms]
  by (fastforce simp: excludes_all forbids_def listed_def rule_holds_in_values)

lemma admits_rules:
  assumes "item_wf it"
  shows "admits it ls \<longleftrightarrow> rules_admit (item_rules it) ls"
proof -
  have "item_rules it ''match'' = listed (ci_Match it)" "item_rules it ''mustmatch'' = listed (ci_MustMatch it)"
    "item_rules it ''notmatch'' = listed (ci_NotMatch it)" "item_rules it ''mustnotmatch'' = listed (ci_MustNotMatch it)"
    by (auto simp: fun_eq_iff)
  with assms show ?thesis
    by (simp add: admits_def rules_admit_def item_wf_def requires_demands excludes_forbids)
qed

lemma verdict_in_force: "ns_verdict decoded ns ls \<longleftrightarrow> admits (item_in_force decoded ns) ls"
proof -
  have "admits (default_item empty_item) ls \<longleftrightarrow> gget ls Nsnodeselector_systemlabel = None"
    by (auto simp: admits_def default_item_def empty_item_def Nsnodeselector_systemlabel_def in_values_def wildcard_iff
        ListMapString_def split: option.splits)
  then show ?thesis
    by (auto simp: ns_verdict_def item_in_force_def item_or_zero_def split: sum.splits option.splits)
qed

definition config_wf :: "ns_config \<Rightarrow> bool" where
  "config_wf c \<longleftrightarrow> (\<forall>ns it. gget c ns = Some it \<longrightarrow> item_wf it)"

definition decodes_maps :: "(string \<Rightarrow> error + ns_config option) \<Rightarrow> bool" where
  "decodes_maps decode \<longleftrightarrow> (\<forall>s c. decode s = Inr (Some c) \<longrightarrow> config_wf c)"

lemma default_item_wf: "item_wf it \<Longrightarrow> item_wf (default_item it)"
  by (auto simp: item_wf_def default_item_def part_wf_def gwf_def gkeys_def split: option.splits)

lemma empty_item_wf: "item_wf empty_item"
  by (simp add: item_wf_def empty_item_def part_wf_def gwf_def gkeys_def)

lemma in_force_wf:
  assumes "decodes_maps decode"
  shows "item_wf (item_in_force (decode s) ns)"
  using assms empty_item_wf
  by (auto simp: item_in_force_def item_or_zero_def decodes_maps_def config_wf_def intro!: default_item_wf
      split: sum.splits option.splits)

lemma verdict_rules:
  assumes "decodes_maps decode"
  shows "ns_verdict (decode s) ns ls \<longleftrightarrow> rules_admit (rules_of (decode s) ns) ls"
  by (simp add: verdict_in_force admits_rules [OF in_force_wf [OF assms]] rules_of_def)

section \<open>An edit\<close>

definition edit_rules :: "string \<Rightarrow> edit_form \<Rightarrow> rules \<Rightarrow> rules" where
  "edit_rules opr form R =
     (\<lambda>ns part k. if ns = ef_namespace form \<and> part = ef_type form \<and> k = ef_key form
        then (if opr = ''delete'' then None else Some (set (split_value (ef_value form))))
        else R ns part k)"

lemma default_item_idem: "default_item (default_item it) = default_item it"
  by (simp add: default_item_def split: option.splits)

lemma default_in_force: "default_item (item_in_force d ns) = item_in_force d ns"
  by (simp add: item_in_force_def default_item_idem)

lemma item_or_zero_put: "item_or_zero (gput n it c) ns = (if ns = n then it else item_or_zero c ns)"
  by (simp add: item_or_zero_def gm.get_put)

lemma in_force_put: "item_in_force (Inr (Some (gput n it c))) ns = default_item (if ns = n then it else item_or_zero c ns)"
  by (simp add: item_in_force_def item_or_zero_put)

lemma default_item_id: "ci_NotMatch it \<noteq> None \<Longrightarrow> default_item it = it"
  by (auto simp: default_item_def)

lemma default_item_NotMatch: "ci_NotMatch (default_item it) \<noteq> None"
  by (auto simp: default_item_def split: option.splits)

lemma edit_item_not_nil:
  assumes "edit_item opr form it = Done (Inr it')" and "item_field (ef_type form) = Some (get, put)"
  shows "get it' \<noteq> None"
proof -
  from assms obtain m' where e: "edit_values opr (ef_key form) (ef_value form) (or_empty (get it)) = Done (Inr m')"
    and it': "it' = put m' it"
    by (auto simp: edit_item_def split: outcome.splits sum.splits)
  from edit_values_effect [OF e] item_field_frame [OF assms(2,2), of m' it] show ?thesis by (auto simp: it')
qed

lemma edited_rules:
  assumes "edit_item opr form it = Done (Inr it')"
  shows "item_rules it' = (\<lambda>part k. if part = ef_type form \<and> k = ef_key form
     then (if opr = ''delete'' then None else Some (set (split_value (ef_value form)))) else item_rules it part k)"
proof (intro ext)
  fix part k
  have ed: "edited opr form it it'" by (rule edit_item_effect [OF assms])
  obtain get0 put0 where f0: "item_field (ef_type form) = Some (get0, put0)"
    using assms by (auto simp: edit_item_def split: option.splits)
  show "item_rules it' part k = (if part = ef_type form \<and> k = ef_key form
     then (if opr = ''delete'' then None else Some (set (split_value (ef_value form)))) else item_rules it part k)"
  proof (cases "item_field part")
    case None
    with f0 show ?thesis by (auto simp: item_rules_def)
  next
    case (Some gp)
    then obtain get put where f: "item_field part = Some (get, put)" by (cases gp) auto
    show ?thesis
    proof (cases "part = ef_type form")
      case True
      with f edited_listed [OF ed, of get put k] show ?thesis by (simp add: item_rules_def)
    next
      case False
      with ed f have "get it' = get it" unfolding edited_def by force
      with f False show ?thesis by (simp add: item_rules_def)
    qed
  qed
qed

text \<open>An accepted edit keeps the entry free of the default.\<close>

lemma edit_keeps_default:
  assumes "edit_item opr form it = Done (Inr it')" and "ci_NotMatch it \<noteq> None"
  shows "default_item it' = it'"
proof (rule default_item_id)
  have ed: "edited opr form it it'" by (rule edit_item_effect [OF assms(1)])
  have f: "item_field ''notmatch'' = Some (ci_NotMatch, \<lambda>m it. it\<lparr>ci_NotMatch := m\<rparr>)" by (simp add: item_field.simps)
  show "ci_NotMatch it' \<noteq> None"
  proof (cases "ef_type form = ''notmatch''")
    case True
    with edit_item_not_nil [OF assms(1)] f show ?thesis by simp
  next
    case False
    with ed f have "ci_NotMatch it' = ci_NotMatch it" unfolding edited_def by force
    with assms(2) show ?thesis by simp
  qed
qed

text \<open>What is read, with the namespaces of the cluster: the entries in force.\<close>

lemma add_namespaces_gget:
  "add_namespaces nss (Some m) = Done ret \<Longrightarrow>
   \<exists>m'. ret = Some m' \<and> (\<forall>ns. gget m' ns = (if gget m ns = None \<and> ns \<in> set nss then Some empty_item else gget m ns))"
proof (induction nss arbitrary: m)
  case (Cons ns nss)
  show ?case
  proof (cases "gget m ns")
    case None
    with Cons.prems have "add_namespaces nss (Some (gput ns empty_item m)) = Done ret" by simp
    from Cons.IH [OF this] None show ?thesis by (auto simp: gm.get_put)
  next
    case (Some it)
    with Cons show ?thesis by force
  qed
qed auto

lemma config_read:
  assumes "decode (config_text (Some cm)) = Inr dec"
    and "GetNsConfigByConfigMap decode (Some cm) (Some nss) = Done config" and "nss \<noteq> []"
  shows "\<exists>c. config = Some c \<and> (\<forall>ns. gget c ns =
    (if ns \<in> set nss \<or> gget (or_empty dec) ns \<noteq> None then Some (item_in_force (Inr dec) ns) else None))"
proof -
  obtain m where m: "dec = Some m"
    using assms by (cases dec; cases nss) (auto simp: GetNsConfigByConfigMap_def)
  then obtain ret where ret: "add_namespaces nss (Some m) = Done ret"
    and config: "config = map_option (map (\<lambda>(ns, item). (ns, default_item item))) ret"
    using assms by (auto simp: GetNsConfigByConfigMap_def split: outcome.splits)
  from add_namespaces_gget [OF ret] obtain m' where m': "ret = Some m'"
    "\<forall>ns. gget m' ns = (if gget m ns = None \<and> ns \<in> set nss then Some empty_item else gget m ns)" by blast
  show ?thesis
    unfolding config m'(1)
    by (auto simp: gget_map_item m'(2) item_in_force_def item_or_zero_def m split: option.splits)
qed

text \<open>An accepted edit of a namespace of the cluster changes one rule.\<close>

lemma edited_config_rules:
  assumes "edited_config decode nss opr form cm = Some c" and "decode (config_text (Some cm)) = Inr dec"
    and "ef_namespace form \<in> set nss"
  shows "rules_of (Inr (Some c)) = edit_rules opr form (rules_of (decode (config_text (Some cm))))"
proof -
  let ?n = "ef_namespace form"
  from assms(1) obtain config it where
    read: "GetNsConfigByConfigMap decode (Some cm) (Some nss) = Done config"
    and ed: "edit_item opr form (item_or_zero (or_empty config) ?n) = Done (Inr it)"
    and c: "c = gput ?n it (or_empty config)"
    by (auto simp: edited_config_def split: outcome.splits sum.splits)
  have "nss \<noteq> []" using assms(3) by auto
  from config_read [OF assms(2) read this] obtain c0 where c0: "config = Some c0"
    "\<forall>ns. gget c0 ns = (if ns \<in> set nss \<or> gget (or_empty dec) ns \<noteq> None then Some (item_in_force (Inr dec) ns) else None)"
    by blast
  have base: "item_or_zero (or_empty config) ?n = item_in_force (Inr dec) ?n"
    using assms(3) c0 by (simp add: item_or_zero_def)
  have "ci_NotMatch (item_or_zero (or_empty config) ?n) \<noteq> None"
    unfolding base item_in_force_def by (rule default_item_NotMatch)
  from edit_keeps_default [OF ed this] have new: "item_in_force (Inr (Some c)) ?n = it"
    by (simp add: item_in_force_def item_or_zero_def c gm.get_put)
  have other: "item_in_force (Inr (Some c)) ns = item_in_force (Inr dec) ns" if "ns \<noteq> ?n" for ns
  proof (cases "ns \<in> set nss \<or> gget (or_empty dec) ns \<noteq> None")
    case True
    with c0 have "item_or_zero (or_empty config) ns = item_in_force (Inr dec) ns" by (simp add: item_or_zero_def)
    with that show ?thesis
      by (simp add: in_force_put c default_in_force)
  next
    case False
    with that c0 show ?thesis
      by (auto simp: item_in_force_def item_or_zero_def c gm.get_put split: option.splits)
  qed
  show ?thesis
  proof (intro ext)
    fix ns part k
    show "rules_of (Inr (Some c)) ns part k =
        edit_rules opr form (rules_of (decode (config_text (Some cm)))) ns part k"
      using new other [of ns] edited_rules [OF ed]
      by (cases "ns = ?n") (simp_all add: rules_of_def edit_rules_def assms(2) base)
  qed
qed

section \<open>The codec\<close>

text \<open>
  Two configurations that differ in the order of their maps only: as JSON writes and reads
  them.
\<close>

definition same_part :: "label_values option \<Rightarrow> label_values option \<Rightarrow> bool" where
  "same_part m m' \<longleftrightarrow> (m = None \<longleftrightarrow> m' = None) \<and> listed m = listed m'"

definition same_item :: "ns_config_item \<Rightarrow> ns_config_item \<Rightarrow> bool" where
  "same_item it it' \<longleftrightarrow> same_part (ci_Match it) (ci_Match it') \<and> same_part (ci_MustMatch it) (ci_MustMatch it') \<and>
     same_part (ci_NotMatch it) (ci_NotMatch it') \<and> same_part (ci_MustNotMatch it) (ci_MustNotMatch it')"

definition same_config :: "ns_config \<Rightarrow> ns_config \<Rightarrow> bool" where
  "same_config c c' \<longleftrightarrow> (\<forall>ns. rel_option same_item (gget c ns) (gget c' ns))"

lemma same_item_refl [simp]: "same_item it it"
  by (simp add: same_item_def same_part_def)

lemma same_config_refl [simp]: "same_config c c"
  by (simp add: same_config_def option.rel_refl)

lemma same_item_rules:
  assumes "same_item it it'"
  shows "item_rules (default_item it) = item_rules (default_item it')"
proof (intro ext)
  fix part k
  show "item_rules (default_item it) part k = item_rules (default_item it') part k"
    using assms
    by (cases "ci_NotMatch it"; cases "ci_NotMatch it'")
      (simp_all add: item_rules_def item_field.simps same_item_def same_part_def default_item_def)
qed

lemma same_config_rules:
  assumes "same_config c c'"
  shows "rules_of (Inr (Some c)) = rules_of (Inr (Some c'))"
proof
  fix ns
  have "rel_option same_item (gget c ns) (gget c' ns)" using assms by (simp add: same_config_def)
  then show "rules_of (Inr (Some c)) ns = rules_of (Inr (Some c')) ns"
    by (cases "gget c ns"; cases "gget c' ns")
      (simp_all add: rules_of_def item_in_force_def item_or_zero_def same_item_rules)
qed

text \<open>The codec reads back what it wrote, up to the order of the maps.\<close>

definition reads_back :: "(string \<Rightarrow> error + ns_config option) \<Rightarrow> (ns_config \<Rightarrow> string) \<Rightarrow> ns_config \<Rightarrow> bool" where
  "reads_back decode encode c \<longleftrightarrow>
     encode c \<noteq> [] \<and> (\<exists>c'. decode (encode c) = Inr (Some c') \<and> same_config c c')"

lemma reads_back_rules:
  "reads_back decode encode c \<Longrightarrow> rules_of (decode (encode c)) = rules_of (Inr (Some c))"
  using same_config_rules by (auto simp: reads_back_def)

lemma written_text:
  "encode c \<noteq> [] \<Longrightarrow> cm_data cm = Some (gput nsnodeselector_itemname (encode c) d) \<Longrightarrow>
   config_text (Some cm) = encode c"
  by (simp add: config_text_def gget_str_def gm.get_put)

end
