(* ===== verification/NsStore.thy ===== *)
theory NsStore
  imports NsRules
begin

text \<open>
  The namespace selector server together with the config map that the API server stores, when
  this process is the only one that writes it and its requests for it do not fail: the cached
  copies are the stored one, so the caches are not observable; the stored rules are the
  accepted edits in their order; and the predicate decides by them.  And what one failed read
  does.
\<close>

section \<open>The store\<close>

definition stored_cm :: "config_map option \<Rightarrow> config_map" where
  "stored_cm store = (case store of None \<Rightarrow> empty_config_map | Some cm \<Rightarrow> cm)"

text \<open>
  The API server's answers for the config map: the stored one or \<^verbatim>\<open>NotFound\<close>, and an object that
  is created or updated is returned.  The other answers are arbitrary.
\<close>

definition answers_from :: "config_map option \<Rightarrow> api_env \<Rightarrow> bool" where
  "answers_from store env \<longleftrightarrow>
     (case store of
        None \<Rightarrow> (\<exists>err. an_get env = Inl err) \<and>
          (\<exists>err. an_current env nsnodeselector_configmap_ns nsnodeselector_configmap_name = Inl (True, err))
      | Some cm \<Rightarrow> an_get env = Inr (Some cm) \<and>
          an_current env nsnodeselector_configmap_ns nsnodeselector_configmap_name = Inr cm) \<and>
     (\<forall>cm. an_create env cm = Inr cm) \<and> (\<forall>cm. an_update env cm = Inr cm)"

fun store_call :: "api_call \<Rightarrow> config_map option \<Rightarrow> config_map option" where
  "store_call (CreateCM cm) store = Some cm"
| "store_call (UpdateCM cm) store = Some cm"
| "store_call (DeletePodCall ns n) store = store"

definition selector_named :: "config_map \<Rightarrow> bool" where
  "selector_named cm \<longleftrightarrow> cm_namespace cm = nsnodeselector_configmap_ns \<and> cm_name cm = nsnodeselector_configmap_name"

text \<open>Every copy in memory is the stored config map.\<close>

definition coherent :: "server_state \<Rightarrow> config_map option \<Rightarrow> bool" where
  "coherent st store \<longleftrightarrow> ns_wf st \<and> selector_named (stored_cm store) \<and>
     (\<forall>r. ns_cached st = Some r \<or> sc_cm st = Some r \<longrightarrow> ns_heap st ! r = stored_cm store) \<and>
     (store = None \<longrightarrow> ns_cached st = None)"

section \<open>Readers\<close>

text \<open>
  What the handlers rely on when they read the configuration: they get the stored one, and the
  copies stay current.
\<close>

locale config_reader =
  fixes read :: "api_env \<Rightarrow> server_state \<Rightarrow> nat \<times> server_state"
  assumes reads_stored: "coherent st store \<Longrightarrow> answers_from store env \<Longrightarrow> read env st = (r, st1) \<Longrightarrow>
      ns_heap st1 ! r = stored_cm store \<and> r < length (ns_heap st1) \<and> coherent st1 store"
begin

lemma reads_same:
  assumes "coherent st store" and "coherent st' store" and "answers_from store env"
  shows "ns_heap (snd (read env st)) ! fst (read env st) = ns_heap (snd (read env st')) ! fst (read env st')"
  using reads_stored [OF assms(1,3), of "fst (read env st)" "snd (read env st)"]
    reads_stored [OF assms(2,3), of "fst (read env st')" "snd (read env st')"]
  by simp

lemma reads_config:
  assumes "coherent st store" and "answers_from store env" and "read env st = (r, st1)"
  shows "GetNsConfigByConfigMap decode (Some (ns_heap st1 ! r)) nss = GetNsConfigByConfigMap decode (Some (stored_cm store)) nss"
    and "server_selector decode (ns_heap st1 ! r) ns = server_selector decode (stored_cm store) ns"
  using reads_stored [OF assms] by simp_all

lemma keeps_coherent:
  "coherent st store \<Longrightarrow> answers_from store env \<Longrightarrow> read env st = (r, st1) \<Longrightarrow> coherent st1 store"
  using reads_stored by blast

end

lemma empty_named: "selector_named empty_config_map"
  by (simp add: selector_named_def empty_config_map_def)

lemma getSelectorConfigMap_stored:
  assumes "coherent st store" and "answers_from store env" and "getSelectorConfigMap env st = (r, st1)"
  shows "ns_heap st1 ! r = stored_cm store \<and> r < length (ns_heap st1) \<and> coherent st1 store \<and>
    (ns_cached st1 = None \<or> ns_cached st1 = Some r)"
proof -
  have wf: "ns_wf st" using assms(1) by (simp add: coherent_def)
  note spec = getSelectorConfigMap_spec [OF assms(3) wf]
  show ?thesis
  proof (cases "getSelectorConfigMap env st = fetch_selector_cm env st")
    case False
    then have "ns_cached st = Some r" "st1 = st"
      using assms(3) by (auto simp: getSelectorConfigMap_def split: option.splits if_splits)
    with assms(1) spec show ?thesis by (simp add: coherent_def)
  next
    case True
    with assms(3) have f: "fetch_selector_cm env st = (r, st1)" by simp
    have old: "ns_heap st1 ! x = ns_heap st ! x" if "ns_cached st = Some x \<or> sc_cm st = Some x" for x
      using that wf spec by (auto simp: ns_wf_def intro!: heap_grows_object)
    show ?thesis
      using assms(1,2) f spec old
      by (cases store) (auto simp: fetch_selector_cm_def cm_alloc_def answers_from_def coherent_def stored_cm_def)
  qed
qed

lemma getNsNodeSelectorConfigMap_stored:
  assumes "coherent st store" and "answers_from store env" and "getNsNodeSelectorConfigMap b env st = (r, st1)"
  shows "ns_heap st1 ! r = stored_cm store \<and> r < length (ns_heap st1) \<and> coherent st1 store \<and> sc_cm st1 = Some r \<and>
    (b \<longrightarrow> ns_cached st1 = None \<or> ns_cached st1 = Some r)"
proof -
  have wf: "ns_wf st" using assms(1) by (simp add: coherent_def)
  note spec = getNsNodeSelectorConfigMap_spec [OF assms(3) wf]
  obtain r2 st2 where get: "getSelectorConfigMap env st = (r2, st2)" by fastforce
  note got = getSelectorConfigMap_stored [OF assms(1,2) get]
  show ?thesis
  proof (cases "st1 = st2\<lparr>sc_cm := Some r2, sc_cm_at := ck_stored env\<rparr> \<and> r = r2")
    case True
    with got spec show ?thesis by (auto simp: coherent_def)
  next
    case False
    with assms(3) get have "\<not> b" "st1 = st" "sc_cm st = Some r"
      by (auto simp: getNsNodeSelectorConfigMap_def split: option.splits if_splits)
    with assms(1) spec show ?thesis by (auto simp: coherent_def)
  qed
qed

interpretation predicate_reader: config_reader getSelectorConfigMap
  by unfold_locales (blast dest: getSelectorConfigMap_stored)

interpretation server_reader: config_reader "getNsNodeSelectorConfigMap b" for b
  by unfold_locales (blast dest: getNsNodeSelectorConfigMap_stored)

section \<open>Requests\<close>

text \<open>An edit that is not accepted only reads.\<close>

lemma edit_not_accepted:
  assumes "NsNodeSelectorAddUpdateOrDelete decode encode opr form env st = (res, calls, st')"
    and "getNsNodeSelectorConfigMap True env st = (r, st1)"
    and "\<not> operation_ok opr \<or> cm_data (ns_heap st1 ! r) = None \<or>
      edited_config decode (namespaces_or_empty env) opr form (ns_heap st1 ! r) = None"
  shows "calls = [] \<and> (st' = st \<or> st' = st1) \<and> (\<forall>msg data. res \<noteq> Done (reply 0 msg data))"
  using assms
  by (auto simp: NsNodeSelectorAddUpdateOrDelete_def operation_ok_def edited_config_def reply_def Let_def
      SetNsNodeSelectorConfigMapNsConfig_def
      split: if_splits outcome.splits sum.splits option.splits prod.splits)

text \<open>An accepted one is stored, and the copies follow.\<close>

lemma edit_stored:
  fixes encode :: "ns_config \<Rightarrow> string"
  assumes "coherent st store" and "answers_from store env" and "operation_ok opr"
    and "getNsNodeSelectorConfigMap True env st = (r, st1)"
    and "edited_config decode (namespaces_or_empty env) opr form (stored_cm store) = Some c"
    and "cm_data (stored_cm store) = Some d"
  defines "cm \<equiv> (stored_cm store)\<lparr>cm_data := Some (gput nsnodeselector_itemname (encode c) d)\<rparr>"
  shows "\<exists>call st'. NsNodeSelectorAddUpdateOrDelete decode encode opr form env st = (Done (reply 0 OKMsg []), [call], st') \<and>
    store_call call store = Some cm \<and> coherent st' (Some cm)"
proof -
  note got = getNsNodeSelectorConfigMap_stored [OF assms(1,2,4)]
  then have heap: "ns_heap st1 ! r = stored_cm store" and r: "r < length (ns_heap st1)"
    and co: "coherent st1 store" and cached: "ns_cached st1 = None \<or> ns_cached st1 = Some r" by auto
  have named: "selector_named (stored_cm store)" using assms(1) by (simp add: coherent_def)
  have "\<exists>call. CreateOrUpdateSchedulerPolicyConfigMap env cm = (Inr cm, [call]) \<and> store_call call store = Some cm"
    using assms(2) named
    by (cases store) (auto simp: CreateOrUpdateSchedulerPolicyConfigMap_def answers_from_def selector_named_def
        stored_cm_def cm_def Let_def)
  then obtain call where call: "CreateOrUpdateSchedulerPolicyConfigMap env cm = (Inr cm, [call])"
    "store_call call store = Some cm" by blast
  let ?st' = "st1\<lparr>ns_heap := (ns_heap st1)[r := cm] @ [cm], sc_cm := Some (length (ns_heap st1))\<rparr>"
  have "NsNodeSelectorAddUpdateOrDelete decode encode opr form env st = (Done (reply 0 OKMsg []), [call], ?st')"
    using edit_accepted [OF assms(3,4), of decode form c d encode] assms(5,6) heap r call
    by (simp add: cm_def)
  moreover have "coherent ?st' (Some cm)"
    using co named r cached
    by (auto simp: coherent_def ns_wf_def selector_named_def stored_cm_def cm_def nth_append split: option.splits)
  ultimately show ?thesis using call(2) by blast
qed

lemma refresh_loop_stores: "fold store_call (snd (snd (refresh_loop delete okNodes pods))) store = store"
  by (simp add: refresh_loop_calls) (induction pods, simp_all)

text \<open>One request: the copies stay current.\<close>

lemma handle_coherent:
  assumes "coherent st store" and "answers_from store env" and "ns_handle cd req env st = (res, calls, st')"
  shows "coherent st' (fold store_call calls store)"
proof (cases req)
  case (EditConfig opr form)
  with assms(3) have run: "NsNodeSelectorAddUpdateOrDelete (un_config cd) (en_config cd) opr form env st = (res, calls, st')"
    by simp
  obtain r st1 where get: "getNsNodeSelectorConfigMap True env st = (r, st1)" by fastforce
  note got = getNsNodeSelectorConfigMap_stored [OF assms(1,2) get]
  show ?thesis
  proof (cases "operation_ok opr \<and> (\<exists>d. cm_data (stored_cm store) = Some d) \<and>
      (\<exists>c. edited_config (un_config cd) (namespaces_or_empty env) opr form (stored_cm store) = Some c)")
    case True
    with edit_stored [OF assms(1,2) _ get, of opr "un_config cd" form _ _ "en_config cd"] run show ?thesis by fastforce
  next
    case False
    with edit_not_accepted [OF run get] got assms(1) show ?thesis by auto
  qed
next
  case (Refresh ns)
  with assms show ?thesis
    by (auto simp: NsNodeSelectorRefresh_def Let_def refresh_loop_stores
        dest!: server_reader.keeps_coherent [OF assms(1,2)] split: sum.splits prod.splits outcome.splits
        dest: arg_cong [where f = "\<lambda>x. fold store_call (snd (snd x)) store"])
qed (use assms in \<open>auto simp: NsNodeSelectorGet_def CheckNamespaceSchedulerNodes_def NsNodeSelectorNodeLabels_def Let_def
    dest: server_reader.keeps_coherent split: sum.splits prod.splits outcome.splits\<close>)

text \<open>And the reply and the calls are those from any other current state, a cold one say.\<close>

lemma edit_same:
  assumes "coherent st store" and "coherent st' store" and "answers_from store env"
  shows "fst (NsNodeSelectorAddUpdateOrDelete decode encode opr form env st) =
      fst (NsNodeSelectorAddUpdateOrDelete decode encode opr form env st') \<and>
    fst (snd (NsNodeSelectorAddUpdateOrDelete decode encode opr form env st)) =
      fst (snd (NsNodeSelectorAddUpdateOrDelete decode encode opr form env st'))"
proof -
  obtain r st1 r' st1' where get: "getNsNodeSelectorConfigMap True env st = (r, st1)"
    "getNsNodeSelectorConfigMap True env st' = (r', st1')" by fastforce
  have heap: "ns_heap st1 ! r = stored_cm store" "ns_heap st1' ! r' = stored_cm store"
    "r < length (ns_heap st1)" "r' < length (ns_heap st1')"
    using server_reader.reads_stored [OF assms(1,3) get(1)] server_reader.reads_stored [OF assms(2,3) get(2)] by blast+
  let ?cm = "stored_cm store"
  show ?thesis
  proof (cases "operation_ok opr")
    case False
    then show ?thesis by (simp add: NsNodeSelectorAddUpdateOrDelete_def operation_ok_def)
  next
    case op: True
    then have op: "(opr \<noteq> ''delete'' \<and> opr \<noteq> ''add'' \<and> opr \<noteq> ''update'') = False" by (auto simp: operation_ok_def)
    note edit_def = NsNodeSelectorAddUpdateOrDelete_def [of decode encode opr form env, unfolded op if_False]
    show ?thesis
    proof (cases "GetNsConfigByConfigMap decode (Some ?cm) (Some (namespaces_or_empty env))")
      case Panic
      then show ?thesis by (simp add: edit_def get heap)
    next
      case read: (Done config)
      show ?thesis
      proof (cases "edit_item opr form (item_or_zero (or_empty config) (ef_namespace form))")
        case Panic
        with read show ?thesis by (simp add: edit_def get heap Let_def)
      next
        case edit: (Done e)
        show ?thesis
        proof (cases "(\<exists>msg. e = Inl msg) \<or> cm_data ?cm = None")
          case True
          with read edit show ?thesis
            by (cases e) (auto simp: edit_def get heap Let_def SetNsNodeSelectorConfigMapNsConfig_def)
        next
          case False
          then obtain item d where ok: "e = Inr item" "cm_data ?cm = Some d" by (cases e) auto
          obtain w calls where w: "CreateOrUpdateSchedulerPolicyConfigMap env (?cm\<lparr>cm_data := Some (gput
              nsnodeselector_itemname (encode (gput (ef_namespace form) item (or_empty config))) d)\<rparr>) = (w, calls)"
            by fastforce
          from read edit ok w show ?thesis
            by (cases w) (simp_all add: edit_def get heap Let_def
                SetNsNodeSelectorConfigMapNsConfig_def cm_alloc_def)
        qed
      qed
    qed
  qed
qed

lemma handle_same:
  assumes "coherent st store" and "coherent st' store" and "answers_from store env"
  shows "fst (ns_handle cd req env st) = fst (ns_handle cd req env st') \<and>
    fst (snd (ns_handle cd req env st)) = fst (snd (ns_handle cd req env st'))"
proof -
  have read: "ns_heap st1 ! r = stored_cm store \<and> ns_heap st1' ! r' = stored_cm store"
    if "getNsNodeSelectorConfigMap b env st = (r, st1)" "getNsNodeSelectorConfigMap b env st' = (r', st1')" for b r st1 r' st1'
    using server_reader.reads_stored [OF assms(1,3) that(1)] server_reader.reads_stored [OF assms(2,3) that(2)] by blast
  show ?thesis
  proof (cases req)
    case (EditConfig opr form)
    with edit_same [OF assms] show ?thesis by simp
  qed (auto simp: NsNodeSelectorGet_def CheckNamespaceSchedulerNodes_def NsNodeSelectorNodeLabels_def
      NsNodeSelectorRefresh_def Let_def dest: read split: sum.splits prod.splits outcome.splits)
qed

lemma predicate_call_stored:
  assumes "coherent st store" and "answers_from store env"
  shows "\<exists>st'. ns_predicate_call cd env pd nd st =
      (Done (ns_match (ns_effective (un_config cd (config_text (Some (stored_cm store))))) pd nd), st') \<and> coherent st' store"
proof -
  obtain r st1 where get: "getSelectorConfigMap env st = (r, st1)" by fastforce
  with predicate_reader.reads_stored [OF assms get] show ?thesis
    by (simp add: ns_predicate_call_def config_of_decode ns_effective_def)
qed

section \<open>Runs\<close>

text \<open>
  The process with its store: requests and calls of the predicate in any order, at any clock
  readings, and the edits that were accepted, with the namespaces read and the configuration written.
\<close>

record log_entry =
  le_operation :: string
  le_form :: edit_form
  le_namespaces :: "string list"
  le_config :: ns_config

definition edit_log ::
  "ns_codec \<Rightarrow> ns_request \<Rightarrow> api_env \<Rightarrow> config_map option \<Rightarrow> response outcome \<Rightarrow> log_entry list" where
  "edit_log cd req env store res =
     (case req of
        EditConfig opr form \<Rightarrow>
          (case edited_config (un_config cd) (namespaces_or_empty env) opr form (stored_cm store) of
             Some c \<Rightarrow>
               if res = Done (reply 0 OKMsg [])
               then [\<lparr>le_operation = opr, le_form = form, le_namespaces = namespaces_or_empty env, le_config = c\<rparr>]
               else []
           | None \<Rightarrow> [])
      | _ \<Rightarrow> [])"

inductive store_run ::
  "ns_codec \<Rightarrow> int \<Rightarrow> config_map option \<Rightarrow> log_entry list \<Rightarrow> server_state \<Rightarrow> config_map option \<Rightarrow> bool"
  for cd timeout store0 where
  start: "selector_named (stored_cm store0) \<Longrightarrow> store_run cd timeout store0 [] (server_init timeout) store0"
| http: "store_run cd timeout store0 log st store \<Longrightarrow> answers_from store env \<Longrightarrow>
    ns_handle cd req env st = (res, calls, st') \<Longrightarrow>
    store_run cd timeout store0 (log @ edit_log cd req env store res) st' (fold store_call calls store)"
| predicate: "store_run cd timeout store0 log st store \<Longrightarrow> answers_from store env \<Longrightarrow>
    ns_predicate_call cd env pd nd st = (res, st') \<Longrightarrow> store_run cd timeout store0 log st' store"

lemma init_coherent: "selector_named (stored_cm store) \<Longrightarrow> coherent (server_init timeout) store"
  by (simp add: coherent_def ns_wf_def server_init_def)

lemma store_run_coherent: "store_run cd timeout store0 log st store \<Longrightarrow> coherent st store"
proof (induction rule: store_run.induct)
  case start
  then show ?case by (rule init_coherent)
next
  case (http log st store env req res calls st')
  then show ?case by (blast intro: handle_coherent)
next
  case (predicate log st store env pd nd res st')
  then show ?case using predicate_call_stored [OF predicate.IH predicate.hyps(2), of cd pd nd] by auto
qed

text \<open>The configuration in the store keeps decoding, and its rules are the edits.\<close>

definition store_rules :: "(string \<Rightarrow> error + ns_config option) \<Rightarrow> config_map option \<Rightarrow> rules" where
  "store_rules decode store = rules_of (decode (config_text (Some (stored_cm store))))"

definition log_ok :: "ns_codec \<Rightarrow> log_entry \<Rightarrow> bool" where
  "log_ok cd e \<longleftrightarrow> ef_namespace (le_form e) \<in> set (le_namespaces e) \<and>
     reads_back (un_config cd) (en_config cd) (le_config e)"

definition apply_edits :: "log_entry list \<Rightarrow> rules \<Rightarrow> rules" where
  "apply_edits log R = foldl (\<lambda>R e. edit_rules (le_operation e) (le_form e) R) R log"

lemma edit_reply_stored:
  assumes "coherent st store" and "answers_from store env"
    and "NsNodeSelectorAddUpdateOrDelete decode encode opr form env st = (res, calls, st')"
  shows "(\<exists>c d. edited_config decode (namespaces_or_empty env) opr form (stored_cm store) = Some c \<and>
      res = Done (reply 0 OKMsg []) \<and> fold store_call calls store =
        Some ((stored_cm store)\<lparr>cm_data := Some (gput nsnodeselector_itemname (encode c) d)\<rparr>)) \<or>
    (res \<noteq> Done (reply 0 OKMsg []) \<and> fold store_call calls store = store)"
proof -
  obtain r st1 where get: "getNsNodeSelectorConfigMap True env st = (r, st1)" by fastforce
  have heap: "ns_heap st1 ! r = stored_cm store" using server_reader.reads_stored [OF assms(1,2) get] by blast
  show ?thesis
  proof (cases "operation_ok opr \<and> (\<exists>d. cm_data (stored_cm store) = Some d) \<and>
      (\<exists>c. edited_config decode (namespaces_or_empty env) opr form (stored_cm store) = Some c)")
    case True
    then obtain c d where "operation_ok opr" "cm_data (stored_cm store) = Some d"
      "edited_config decode (namespaces_or_empty env) opr form (stored_cm store) = Some c" by blast
    with edit_stored [OF assms(1,2) _ get, of opr decode form c d encode] assms(3) show ?thesis by auto
  next
    case False
    with edit_not_accepted [OF assms(3) get] heap show ?thesis by auto
  qed
qed

lemma calls_without_edit:
  assumes "ns_handle cd req env st = (res, calls, st')" and "\<forall>opr form. req \<noteq> EditConfig opr form"
  shows "fold store_call calls store = store"
proof (cases req)
  case (Refresh ns)
  have "fold store_call calls store = store"
    if "refresh_loop delete okNodes pods = (a, b, calls)" for delete okNodes pods a b
    using refresh_loop_stores [of delete okNodes pods store] that by simp
  with assms(1) Refresh show ?thesis
    by (auto simp: NsNodeSelectorRefresh_def Let_def split: sum.splits prod.splits outcome.splits)
qed (use assms in \<open>auto simp: NsNodeSelectorGet_def CheckNamespaceSchedulerNodes_def NsNodeSelectorNodeLabels_def Let_def
    split: sum.splits prod.splits outcome.splits\<close>)

lemma store_run_rules:
  assumes "store_run cd timeout store0 log st store"
    and "\<exists>dec. un_config cd (config_text (Some (stored_cm store0))) = Inr dec" and "list_all (log_ok cd) log"
  shows "store_rules (un_config cd) store = apply_edits log (store_rules (un_config cd) store0) \<and>
    (\<exists>dec. un_config cd (config_text (Some (stored_cm store))) = Inr dec)"
  using assms
proof (induction rule: store_run.induct)
  case start
  then show ?case by (simp add: apply_edits_def)
next
  case (http log st store env req res calls st')
  then have ok: "list_all (log_ok cd) (edit_log cd req env store res)"
    and IH: "store_rules (un_config cd) store = apply_edits log (store_rules (un_config cd) store0)"
    and dec: "\<exists>dec. un_config cd (config_text (Some (stored_cm store))) = Inr dec" by simp_all
  have co: "coherent st store" by (rule store_run_coherent [OF http.hyps(1)])
  show ?case
  proof (cases req)
    case (EditConfig opr form)
    with http.hyps(3) have "NsNodeSelectorAddUpdateOrDelete (un_config cd) (en_config cd) opr form env st = (res, calls, st')"
      by simp
    from edit_reply_stored [OF co http.hyps(2) this] show ?thesis
    proof
      assume "\<exists>c d. edited_config (un_config cd) (namespaces_or_empty env) opr form (stored_cm store) = Some c \<and>
        res = Done (reply 0 OKMsg []) \<and> fold store_call calls store =
          Some ((stored_cm store)\<lparr>cm_data := Some (gput nsnodeselector_itemname (en_config cd c) d)\<rparr>)"
      then obtain c d where c: "edited_config (un_config cd) (namespaces_or_empty env) opr form (stored_cm store) = Some c"
        and res: "res = Done (reply 0 OKMsg [])" and new: "fold store_call calls store =
          Some ((stored_cm store)\<lparr>cm_data := Some (gput nsnodeselector_itemname (en_config cd c) d)\<rparr>)" by blast
      have log: "edit_log cd req env store res = [\<lparr>le_operation = opr, le_form = form,
          le_namespaces = namespaces_or_empty env, le_config = c\<rparr>]"
        using c res EditConfig by (simp add: edit_log_def)
      with ok have ns: "ef_namespace form \<in> set (namespaces_or_empty env)" and rb: "reads_back (un_config cd) (en_config cd) c"
        by (simp_all add: log_ok_def)
      have text_eq: "config_text (Some (stored_cm (fold store_call calls store))) = en_config cd c"
        unfolding new using rb by (intro written_text) (simp_all add: reads_back_def stored_cm_def)
      from dec obtain dec where "un_config cd (config_text (Some (stored_cm store))) = Inr dec" by blast
      from edited_config_rules [OF c this ns] reads_back_rules [OF rb]
      have "store_rules (un_config cd) (fold store_call calls store) = edit_rules opr form (store_rules (un_config cd) store)"
        by (simp add: store_rules_def text_eq)
      with IH rb show ?thesis by (auto simp: log apply_edits_def text_eq reads_back_def)
    next
      assume no: "res \<noteq> Done (reply 0 OKMsg []) \<and> fold store_call calls store = store"
      then have "edit_log cd req env store res = []" using EditConfig by (simp add: edit_log_def split: option.splits)
      with no IH dec show ?thesis by simp
    qed
  qed (use calls_without_edit [OF http.hyps(3)] IH dec in \<open>auto simp: edit_log_def\<close>)
qed simp

end
