(* ===== verification/NsService.thy ===== *)
theory NsService
  imports NsEdit
begin

text \<open>
  The properties of the namespace selector server: its panics, its edits (what they write, when
  they are refused, what a failed or a stale write leaves), the pods it deletes, and its answers.
\<close>

section \<open>Samples\<close>

text \<open>A cluster for the examples: one namespace, two nodes, one pod on each.\<close>

definition sample_env :: api_env where
  "sample_env = \<lparr>ck_server = 2, ck_since = 3, ck_fetched = 4, ck_stored = 5, an_get = Inr (Some sample_cm),
     an_namespaces = Inr [''ns''], an_nodes = Inr [labelled_node [(''zone'', ''b'')],
       \<lparr>node_name = ''n2'', node_labels = [(''zone'', ''b''), (''old'', ''x'')], node_annotations = None\<rparr>],
     an_pods = (\<lambda>ns. Inr [sample_pod ''a'' ''n1'', sample_pod ''b'' ''n2'', sample_pod ''c'' []]),
     an_delete = (\<lambda>ns n. None), an_current = (\<lambda>ns n. Inr sample_cm),
     an_create = Inr, an_update = Inr\<rparr>"

definition sample_form :: edit_form where
  "sample_form = \<lparr>ef_namespace = ''ns'', ef_type = ''mustnotmatch'', ef_key = ''gpu'', ef_value = ''a,b''\<rparr>"

definition sample_edited_item :: ns_config_item where
  "sample_edited_item = \<lparr>ci_Match = Some [(''zone'', Some [(''a'', ()), (''b'', ())])], ci_MustMatch = None,
     ci_NotMatch = Some [(Nsnodeselector_systemlabel, Some [(''*'', ())])],
     ci_MustNotMatch = Some [(''old'', Some [(''*'', ())]), (''gpu'', Some [(''a'', ()), (''b'', ())])]\<rparr>"

definition sample_decode2 :: "string \<Rightarrow> error + ns_config option" where
  "sample_decode2 s = (if s = ''c2'' then Inr (Some [(''ns'', sample_edited_item)]) else sample_ns_decode s)"

definition sample_encode :: "ns_config \<Rightarrow> string" where
  "sample_encode c = ''c2''"

definition sample_ns_codec :: ns_codec where
  "sample_ns_codec = \<lparr>un_config = sample_decode2, en_config = sample_encode, en_labels = (\<lambda>_. [])\<rparr>"

definition sample_cached :: server_state where
  "sample_cached = \<lparr>ns_heap = [sample_cm], ns_cached = Some 0, ns_cached_at = 4, sc_cm = Some 0, sc_cm_at = 5,
     sc_timeout = 10\<rparr>"

lemma sample_get: "getNsNodeSelectorConfigMap True sample_env (server_init 10) = (0, sample_cached)"
  by (simp add: getNsNodeSelectorConfigMap_def getSelectorConfigMap_def fetch_selector_cm_def server_init_def
      sample_env_def cm_alloc_def sample_cached_def)

lemma sample_get_cached: "getNsNodeSelectorConfigMap b sample_env sample_cached = (0, sample_cached)"
  by (simp add: getNsNodeSelectorConfigMap_def getSelectorConfigMap_def sample_env_def sample_cached_def
      nsNodeSelectorConfigMapCacheTimeOut_def)

lemma sample_wf: "ns_wf (server_init 10)" "ns_wf sample_cached"
  by (simp_all add: ns_wf_def server_init_def sample_cached_def)

section \<open>Panics\<close>

lemma add_namespaces_panics: "add_namespaces nss ret = Panic \<longleftrightarrow> ret = None \<and> nss \<noteq> []"
proof -
  have some: "add_namespaces nss (Some m) \<noteq> Panic" for m
    by (induction nss arbitrary: m) (auto split: option.splits)
  show ?thesis
  proof (cases ret)
    case None
    then show ?thesis by (cases nss) simp_all
  qed (simp add: some)
qed

lemma config_panics:
  "GetNsConfigByConfigMap decode cm (Some nss) = Panic \<longleftrightarrow> decode (config_text cm) = Inr None \<and> nss \<noteq> []"
  "GetNsConfigByConfigMap decode cm None \<noteq> Panic"
  by (auto simp: GetNsConfigByConfigMap_def simp flip: add_namespaces_panics split: sum.splits outcome.splits)

text \<open>
  C33 (error). Which requests end in a panic, exactly: showing and editing when the text of the configuration is
  that of a nil map (as \<open>null\<close> is) and the cluster lists a namespace, which is then written to the nil map;
  and an edit that would be accepted when the config map has no data.  Checks, refreshes and the
  list of the labels never panic.
\<close>

theorem server_panics_exactly:
  assumes "getNsNodeSelectorConfigMap (\<exists>opr form. req = EditConfig opr form) env st = (r, st1)"
  shows "fst (ns_handle cd req env st) = Panic \<longleftrightarrow>
    (let nil_map = un_config cd (config_text (Some (ns_heap st1 ! r))) = Inr None \<and> namespaces_or_empty env \<noteq> []
     in case req of
          GetConfig \<Rightarrow> nil_map
        | EditConfig opr form \<Rightarrow> operation_ok opr \<and>
            (nil_map \<or> cm_data (ns_heap st1 ! r) = None \<and>
               edited_config (un_config cd) (namespaces_or_empty env) opr form (ns_heap st1 ! r) \<noteq> None)
        | _ \<Rightarrow> False)"
proof (cases req)
  case GetConfig
  with assms show ?thesis
    by (simp add: NsNodeSelectorGet_def config_panics flip: config_panics(1) split: outcome.split)
next
  case (EditConfig opr form)
  have item: "edit_item opr form it \<noteq> Panic" for it
    using edit_values_total by (auto simp: edit_item_def split: option.splits outcome.splits sum.splits)
  from EditConfig assms have get: "getNsNodeSelectorConfigMap True env st = (r, st1)" by simp
  have op: "(opr \<noteq> ''delete'' \<and> opr \<noteq> ''add'' \<and> opr \<noteq> ''update'') \<longleftrightarrow> \<not> operation_ok opr"
    by (auto simp: operation_ok_def)
  show ?thesis
    unfolding EditConfig ns_handle.simps NsNodeSelectorAddUpdateOrDelete_def op get
    by (auto simp: edited_config_def config_panics(1) [symmetric] item Let_def SetNsNodeSelectorConfigMapNsConfig_def
        split: outcome.splits sum.splits option.splits prod.splits)
next
  case (CheckNamespace ns)
  then show ?thesis
    using config_panics(2) by (auto simp: CheckNamespaceSchedulerNodes_def server_selector_def Let_def split: sum.splits outcome.splits prod.splits)
next
  case (Refresh ns)
  then show ?thesis
    using config_panics(2) by (auto simp: NsNodeSelectorRefresh_def server_selector_def Let_def split: sum.splits outcome.splits prod.splits)
qed (auto simp: NsNodeSelectorNodeLabels_def split: sum.splits)

theorem server_panics_exactly_witness:
  "fst (ns_handle (sample_ns_codec\<lparr>un_config := \<lambda>_. Inr None\<rparr>) GetConfig sample_env sample_cached) = Panic \<and>
   fst (ns_handle sample_ns_codec (EditConfig ''drop'' sample_form) sample_env sample_cached) \<noteq> Panic"
  using server_panics_exactly [of GetConfig sample_env sample_cached 0 sample_cached "sample_ns_codec\<lparr>un_config := \<lambda>_. Inr None\<rparr>"]
    server_panics_exactly [of "EditConfig ''drop'' sample_form" sample_env sample_cached 0 sample_cached sample_ns_codec]
  by (simp add: sample_get_cached operation_ok_def namespaces_or_empty_def sample_env_def [THEN arg_cong, of an_namespaces])

section \<open>Edits\<close>

text \<open>
  C11 (functional). A successful edit makes one call to the API server. What it writes is the
  configuration that was read, with the namespaces of the cluster added, changed in one place:
  under the form's key in the form's part of the form's namespace stand exactly the
  comma-separated values of the form (nothing after a delete); every other key, part and
  namespace, and every other entry of the config map's data, is as it was.
\<close>

theorem edit_changes_one_entry:
  assumes "NsNodeSelectorAddUpdateOrDelete decode encode opr form env st = (Done (reply 0 msg data), calls, st')"
    and "getNsNodeSelectorConfigMap True env st = (r, st1)" and "ns_wf st"
  shows "\<exists>config c it d call.
    GetNsConfigByConfigMap decode (Some (ns_heap st1 ! r)) (Some (namespaces_or_empty env)) = Done config \<and>
    (\<forall>ns. ns \<noteq> ef_namespace form \<longrightarrow> gget c ns = gget (or_empty config) ns) \<and>
    gget c (ef_namespace form) = Some it \<and>
    edited opr form (item_or_zero (or_empty config) (ef_namespace form)) it \<and>
    cm_data (ns_heap st1 ! r) = Some d \<and> calls = [call] \<and>
    call_data call = Some (gput nsnodeselector_itemname (encode c) d)"
proof -
  obtain c d where op: "operation_ok opr"
    and c: "edited_config decode (namespaces_or_empty env) opr form (ns_heap st1 ! r) = Some c"
    and d: "cm_data (ns_heap st1 ! r) = Some d"
    using edit_ok_inv [OF assms(1,2)] by blast
  have r: "r < length (ns_heap st1)" using getNsNodeSelectorConfigMap_spec [OF assms(2,3)] by blast
  let ?cm = "(ns_heap st1 ! r)\<lparr>cm_data := Some (gput nsnodeselector_itemname (encode c) d)\<rparr>"
  obtain w where w: "CreateOrUpdateSchedulerPolicyConfigMap env ?cm = (w, calls)" "\<nexists>err. w = Inl err"
    using edit_accepted [OF op assms(2) c d r, where encode = encode] assms(1)
    by (auto simp: reply_def split: prod.splits sum.splits)
  then have "\<exists>call. calls = [call] \<and> call_data call = cm_data ?cm"
    using write_calls [of env ?cm]
    by (auto simp: CreateOrUpdateSchedulerPolicyConfigMap_def Let_def split: sum.splits prod.splits if_splits)
  with edited_config_lookup [OF c] d show ?thesis by auto
qed

lemma sample_edit:
  "NsNodeSelectorAddUpdateOrDelete sample_decode2 sample_encode ''add'' sample_form sample_env (server_init 10) =
     (Done (reply 0 OKMsg []), [UpdateCM (sample_cm\<lparr>cm_data := Some [(nsnodeselector_itemname, ''c2'')]\<rparr>)],
      sample_cached\<lparr>ns_heap := [sample_cm\<lparr>cm_data := Some [(nsnodeselector_itemname, ''c2'')]\<rparr>,
        sample_cm\<lparr>cm_data := Some [(nsnodeselector_itemname, ''c2'')]\<rparr>], sc_cm := Some 1\<rparr>)"
  unfolding NsNodeSelectorAddUpdateOrDelete_def sample_get by code_simp

lemma edit_changes_one_entry_witness:
  "\<exists>(c :: ns_config) it. gget c ''ns'' = Some it \<and> listed (ci_MustNotMatch it) ''gpu'' = Some {''a'', ''b''} \<and>
     listed (ci_MustNotMatch it) ''old'' = Some {''*''}"
proof -
  have conf: "GetNsConfigByConfigMap sample_decode2 (Some (ns_heap sample_cached ! 0))
      (Some (namespaces_or_empty sample_env)) = Done (Some [(''ns'', default_item sample_ns_item)])"
    by code_simp
  have f: "item_field (ef_type sample_form) = Some (ci_MustNotMatch, \<lambda>m it. it\<lparr>ci_MustNotMatch := m\<rparr>)"
    by (simp add: item_field.simps sample_form_def)
  have "item_or_zero (or_empty (Some [(''ns'', default_item sample_ns_item)])) (ef_namespace sample_form) =
      default_item sample_ns_item"
    by (simp add: item_or_zero_def sample_form_def)
  then obtain c it where "gget c (ef_namespace sample_form) = Some it" "edited ''add'' sample_form (default_item sample_ns_item) it"
    using edit_changes_one_entry [OF sample_edit sample_get sample_wf(1)] conf by auto
  moreover have "listed (ci_MustNotMatch it) k = (if k = ''gpu'' then Some {''a'', ''b''}
      else if k = ''old'' then Some {''*''} else None)" for k
  proof -
    have "listed (ci_MustNotMatch (default_item sample_ns_item)) k = (if k = ''old'' then Some {''*''} else None)"
      by (simp add: default_item_def sample_ns_item_def listed_def ListMapString_def)
    moreover have "split_value (ef_value sample_form) = [''a'', ''b'']" by code_simp
    ultimately show ?thesis
      using edited_listed [OF \<open>edited ''add'' sample_form (default_item sample_ns_item) it\<close> f, of k]
      by (simp add: sample_form_def)
  qed
  ultimately show ?thesis by (intro exI [of _ c] exI [of _ it]) (simp add: sample_form_def)
qed

text \<open>
  C31 (error). An edit with an unknown operation or part, an add of a key that is there, and an
  update or delete of one that is not, are answered with code 1 and the reason, ask the API
  server for no change and leave every config map in memory as it was.
\<close>

theorem edit_refused_is_harmless:
  assumes "NsNodeSelectorAddUpdateOrDelete decode encode opr form env st = (Done (reply 1 msg data), calls, st')"
    and "ns_wf st" and "\<forall>err. msg \<noteq> ErrorText err"
  shows "calls = [] \<and> heap_grows st st' \<and>
    (msg = UnknownOperation opr \<and> \<not> operation_ok opr \<or>
     msg = UnknownMatchType (ef_type form) \<and> item_field (ef_type form) = None \<or>
     msg = KeyExisted (ef_key form) \<and> opr = ''add'' \<or>
     msg = KeyNotExist (ef_key form) \<and> opr \<in> {''delete'', ''update''})"
proof -
  obtain r st1 where get: "getNsNodeSelectorConfigMap True env st = (r, st1)" by fastforce
  have grows: "heap_grows st st1" using getNsNodeSelectorConfigMap_spec [OF get assms(2)] by blast
  show ?thesis
  proof (cases "operation_ok opr")
    case False
    with assms(1) show ?thesis
      by (simp add: NsNodeSelectorAddUpdateOrDelete_def operation_ok_def reply_def)
  next
    case True
    then have op: "(opr \<noteq> ''delete'' \<and> opr \<noteq> ''add'' \<and> opr \<noteq> ''update'') = False" by (auto simp: operation_ok_def)
    note run = assms(1) [unfolded NsNodeSelectorAddUpdateOrDelete_def op get]
    obtain it where "edit_item opr form it = Done (Inl msg)" "calls = []" "st' = st1"
      using run assms(3)
      by (simp add: Let_def reply_def split: outcome.splits sum.splits prod.splits) blast
    with edit_item_refused [of opr form it msg] grows True show ?thesis
      by (auto simp: operation_ok_def)
  qed
qed

lemma edit_refused_is_harmless_witness:
  "NsNodeSelectorAddUpdateOrDelete sample_decode2 sample_encode ''delete'' sample_form sample_env sample_cached =
     (Done (reply 1 (KeyNotExist ''gpu'') []), [], sample_cached) \<and> heap_grows sample_cached sample_cached"
proof -
  have run: "NsNodeSelectorAddUpdateOrDelete sample_decode2 sample_encode ''delete'' sample_form sample_env sample_cached =
      (Done (reply 1 (KeyNotExist ''gpu'') []), [], sample_cached)"
    unfolding NsNodeSelectorAddUpdateOrDelete_def sample_get_cached by code_simp
  from edit_refused_is_harmless [OF run sample_wf(2)] run show ?thesis by blast
qed

text \<open>
  C12 (safety). A rule reaches the scheduler: after a successful add or update of key and values
  in the part NotMatch or MustNotMatch, once the predicate works with a config map that has the
  data written (with a decoder that reads back what was encoded), it refuses every node that
  carries the key with one of the values to the pods of that namespace.
\<close>

theorem edit_then_predicate:
  assumes "NsNodeSelectorAddUpdateOrDelete decode encode opr form env st = (Done (reply 0 msg data), [call], st')"
    and "getNsNodeSelectorConfigMap True env st = (r, st1)" and "ns_wf st" and "opr \<noteq> ''delete''"
    and "edited_config decode (namespaces_or_empty env) opr form (ns_heap st1 ! r) = Some c"
    and "decode (encode c) = Inr (Some c)" and "encode c \<noteq> []"
    and "getConfigCM now now2 got cache = (cm, cache')" and "cm_data cm = call_data call"
    and "entry_ok (Inr (Some c)) (ef_namespace form)" and "pod_namespace pd = ef_namespace form"
    and "ef_type form \<in> {''notmatch'', ''mustnotmatch''}" and "ef_key form \<noteq> []"
    and "gget (node_labels nd) (ef_key form) = Some v" and "v \<in> set (split_value (ef_value form))"
  shows "ns_PodMatchNode decode now now2 got cache pd nd = (Done (Inr False), cache')"
proof -
  from edit_ok_inv [OF assms(1,2)] obtain d where op: "operation_ok opr" and d: "cm_data (ns_heap st1 ! r) = Some d"
    by blast
  have r: "r < length (ns_heap st1)" using getNsNodeSelectorConfigMap_spec [OF assms(2,3)] by blast
  have "cm_data cm = Some (gput nsnodeselector_itemname (encode c) d)"
    using edit_accepted [OF op assms(2,5) d r, where encode = encode] assms(1,9)
    by (auto simp: CreateOrUpdateSchedulerPolicyConfigMap_def Let_def reply_def split: sum.splits prod.splits if_splits)
  then have text_eq: "decode (config_text (Some cm)) = Inr (Some c)"
    using assms(6,7) by (simp add: config_text_def gget_str_def gm.get_put)
  obtain config it where it: "gget c (ef_namespace form) = Some it"
    "edited opr form (item_or_zero (or_empty config) (ef_namespace form)) it"
    using edited_config_lookup [OF assms(5)] by blast
  have "\<not> admits (default_item it) (node_labels nd)"
    using edited_excludes [OF it(2) assms(4,12,13,14,15)] .
  then have "\<not> ns_verdict (Inr (Some c)) (pod_namespace pd) (node_labels nd)"
    using it(1) assms(11) by (simp add: ns_verdict_def)
  with verdict_of_call [OF assms(8), of decode pd nd] text_eq assms(10,11) show ?thesis by simp
qed

lemma edit_then_predicate_witness:
  "ns_PodMatchNode sample_decode2 0 1 (Inr (Some (sample_cm\<lparr>cm_data := Some [(nsnodeselector_itemname, ''c2'')]\<rparr>)))
     cold_cache (sample_pod ''p'' []) (labelled_node [(''zone'', ''a''), (''gpu'', ''b'')]) =
   (Done (Inr False), \<lparr>nsNodeSelectorConfigMap = Some (sample_cm\<lparr>cm_data := Some [(nsnodeselector_itemname, ''c2'')]\<rparr>),
      nsNodeSelectorConfigMapUpdateTime = 1\<rparr>)"
proof -
  have conf: "edited_config sample_decode2 (namespaces_or_empty sample_env) ''add'' sample_form (ns_heap sample_cached ! 0) =
      Some [(''ns'', sample_edited_item)]"
    by code_simp
  have ok: "entry_ok (Inr (Some [(''ns'', sample_edited_item)])) (ef_namespace sample_form)" by code_simp
  have val: "''b'' \<in> set (split_value (ef_value sample_form))" by code_simp
  let ?cm = "sample_cm\<lparr>cm_data := Some [(nsnodeselector_itemname, ''c2'')]\<rparr>"
  have read: "getConfigCM 0 1 (Inr (Some ?cm)) cold_cache =
      (?cm, \<lparr>nsNodeSelectorConfigMap = Some ?cm, nsNodeSelectorConfigMapUpdateTime = 1\<rparr>)"
    by (simp add: getConfigCM_def cold_cache_def)
  show ?thesis
    by (rule edit_then_predicate [OF sample_edit sample_get sample_wf(1) _ conf _ _ read _ ok _ _ _ _ val])
      (simp_all add: sample_form_def sample_encode_def sample_decode2_def sample_pod_def labelled_node_def)
qed

section \<open>Failed and stale writes\<close>

text \<open>
  C40 (error). A write that fails is answered with code 1, yet the edit stays in the object that
  the predicate and the server share: while that object is fresh, the predicate's next call
  works with the configuration that was never stored.
\<close>

theorem failed_write_stays_cached:
  assumes "ns_cached st = Some r" and "ck_since env - ns_cached_at st \<le> nsNodeSelectorConfigMapCacheTimeOut"
    and "ns_wf st" and "operation_ok opr" and "cm_data (ns_heap st ! r) = Some d"
    and "edited_config decode (namespaces_or_empty env) opr form (ns_heap st ! r) = Some c"
    and "an_current env (cm_namespace (ns_heap st ! r)) (cm_name (ns_heap st ! r)) = Inl (False, err)"
    and "encode c \<noteq> []" and "now - ns_cached_at st \<le> nsNodeSelectorConfigMapCacheTimeOut"
  shows "\<exists>st' cm. NsNodeSelectorAddUpdateOrDelete decode encode opr form env st =
      (Done (reply 1 (ErrorText err) []), [], st') \<and>
    getConfigCM now now2 got (cache_view st') = (cm, cache_view st') \<and> config_text (Some cm) = encode c"
proof -
  have r: "r < length (ns_heap st)" using assms(1,3) by (simp add: ns_wf_def)
  let ?st1 = "st\<lparr>sc_cm := Some r, sc_cm_at := ck_stored env\<rparr>"
  let ?cm = "(ns_heap st ! r)\<lparr>cm_data := Some (gput nsnodeselector_itemname (encode c) d)\<rparr>"
  let ?st' = "?st1\<lparr>ns_heap := (ns_heap st)[r := ?cm]\<rparr>"
  have "NsNodeSelectorAddUpdateOrDelete decode encode opr form env st = (Done (reply 1 (ErrorText err) []), [], ?st')"
    using edit_accepted [OF assms(4) getNsNodeSelectorConfigMap_fresh [OF assms(1,2)], where encode = encode] assms r
    by (simp add: CreateOrUpdateSchedulerPolicyConfigMap_def)
  moreover have "getConfigCM now now2 got (cache_view ?st') = (?cm, cache_view ?st')"
    using assms(1,9) r by (simp add: getConfigCM_def cache_view_def)
  moreover have "config_text (Some ?cm) = encode c"
    using assms(8) by (simp add: config_text_def gget_str_def gm.get_put)
  ultimately show ?thesis by blast
qed

definition sample_down_env :: api_env where
  "sample_down_env = sample_env\<lparr>an_current := \<lambda>ns n. Inl (False, External ''timeout'')\<rparr>"

lemma failed_write_stays_cached_witness:
  "\<exists>st' cm. NsNodeSelectorAddUpdateOrDelete sample_decode2 sample_encode ''add'' sample_form sample_down_env sample_cached =
      (Done (reply 1 (ErrorText (External ''timeout'')) []), [], st') \<and>
    getConfigCM 6 7 (Inr None) (cache_view st') = (cm, cache_view st') \<and> config_text (Some cm) = ''c2''"
proof -
  have conf: "edited_config sample_decode2 (namespaces_or_empty sample_down_env) ''add'' sample_form (ns_heap sample_cached ! 0) =
      Some [(''ns'', sample_edited_item)]"
    by code_simp
  show ?thesis
    using failed_write_stays_cached [of sample_cached 0 sample_down_env "''add''" _ sample_decode2 sample_form
        "[(''ns'', sample_edited_item)]" "External ''timeout''" sample_encode 6 7 "Inr None"] conf sample_wf(2)
    by (simp add: sample_cached_def sample_cm_def empty_config_map_def sample_down_env_def sample_env_def operation_ok_def
        sample_encode_def nsNodeSelectorConfigMapCacheTimeOut_def)
qed

text \<open>
  An edit that finds a copy younger than five seconds does not look at what the API
  server holds, although it asks for an uncached read: the data written over the current config
  map are computed from the copy alone, so a change another instance made in the meantime is
  lost.
\<close>

theorem edit_overwrites_from_copy:
  assumes "ns_cached st = Some r" and "ck_since env - ns_cached_at st \<le> nsNodeSelectorConfigMapCacheTimeOut"
    and "ns_wf st" and "operation_ok opr" and "cm_data (ns_heap st ! r) = Some d"
    and "edited_config decode (namespaces_or_empty env) opr form (ns_heap st ! r) = Some c"
    and "an_current env (cm_namespace (ns_heap st ! r)) (cm_name (ns_heap st ! r)) = Inr cur"
  shows "fst (snd (NsNodeSelectorAddUpdateOrDelete decode encode opr form env st)) =
    [UpdateCM (cur\<lparr>cm_data := Some (gput nsnodeselector_itemname (encode c) d)\<rparr>)]"
proof -
  have r: "r < length (ns_heap st)" using assms(1,3) by (simp add: ns_wf_def)
  show ?thesis
    using edit_accepted [OF assms(4) getNsNodeSelectorConfigMap_fresh [OF assms(1,2)], where encode = encode] assms r
    by (simp add: CreateOrUpdateSchedulerPolicyConfigMap_def Let_def split: sum.splits)
qed

text \<open>Here another instance has stored \<open>c9\<close>, which the write replaces.\<close>

definition sample_raced_env :: api_env where
  "sample_raced_env = sample_env\<lparr>an_current := \<lambda>ns n. Inr (sample_cm\<lparr>cm_data := Some [(nsnodeselector_itemname, ''c9'')]\<rparr>),
     an_get := Inr (Some (sample_cm\<lparr>cm_data := Some [(nsnodeselector_itemname, ''c9'')]\<rparr>))\<rparr>"

lemma edit_overwrites_from_copy_witness:
  "fst (snd (NsNodeSelectorAddUpdateOrDelete sample_decode2 sample_encode ''add'' sample_form sample_raced_env sample_cached)) =
    [UpdateCM (sample_cm\<lparr>cm_data := Some [(nsnodeselector_itemname, ''c2'')]\<rparr>)]"
proof -
  have conf: "edited_config sample_decode2 (namespaces_or_empty sample_raced_env) ''add'' sample_form (ns_heap sample_cached ! 0) =
      Some [(''ns'', sample_edited_item)]"
    by code_simp
  show ?thesis
    using edit_overwrites_from_copy [of sample_cached 0 sample_raced_env "''add''" _ sample_decode2 sample_form
        "[(''ns'', sample_edited_item)]" _ sample_encode] conf sample_wf(2)
    by (simp add: sample_cached_def sample_cm_def empty_config_map_def sample_raced_env_def sample_env_def operation_ok_def
        sample_encode_def nsNodeSelectorConfigMapCacheTimeOut_def)
qed

section \<open>Enforcing and checking\<close>

text \<open>The deletions of a refresh, by the verdict of the whole configuration.\<close>

lemma refresh_calls:
  assumes "an_nodes env = Inr nodes" and "an_pods env ns = Inr pods"
    and "getNsNodeSelectorConfigMap True env st = (r, st1)"
    and "entry_ok (decode (config_text (Some (ns_heap st1 ! r)))) ns"
  shows "\<exists>msg data. NsNodeSelectorRefresh decode ns env st = (Done (reply 0 msg data),
    map (\<lambda>pd. DeletePodCall (pod_namespace pd) (pod_name pd))
      (filter (\<lambda>pd. pod_node pd \<noteq> [] \<and> \<not> (\<exists>nd \<in> set nodes. node_name nd = pod_node pd \<and>
         ns_verdict (decode (config_text (Some (ns_heap st1 ! r)))) ns (node_labels nd))) pods), st1)"
proof -
  obtain sel where sel: "server_selector decode (ns_heap st1 ! r) ns = Done (Inr sel)"
    and verdict: "\<And>ls. selector_Matches sel ls \<longleftrightarrow> ns_verdict (decode (config_text (Some (ns_heap st1 ! r)))) ns ls"
    using server_selector_verdict [where decode = decode, OF assms(4)] by blast
  let ?ok = "map node_name (filter (\<lambda>nd. selector_Matches sel (node_labels nd)) nodes)"
  have ok: "pod_node pd \<notin> set ?ok \<longleftrightarrow> \<not> (\<exists>nd \<in> set nodes. node_name nd = pod_node pd \<and>
      ns_verdict (decode (config_text (Some (ns_heap st1 ! r)))) ns (node_labels nd))" for pd
    using not_listed [of "pod_node pd" "\<lambda>nd. selector_Matches sel (node_labels nd)" nodes] by (simp only: verdict)
  from refresh_run [OF assms(1-3) sel] show ?thesis
    unfolding refresh_loop_calls ok .
qed

text \<open>
  Pods that the configuration wants off their node: on a node that is gone or that \<^verbatim>\<open>MustMatch\<close> or
  \<^verbatim>\<open>MustNotMatch\<close> forbid; and pods it has nothing against: without a node or on an admitted one.
\<close>

definition forbidden :: "error + ns_config option \<Rightarrow> string \<Rightarrow> node list \<Rightarrow> pod \<Rightarrow> bool" where
  "forbidden decoded ns nodes pd \<longleftrightarrow> pod_node pd \<noteq> [] \<and>
     (\<forall>nd \<in> set nodes. node_name nd = pod_node pd \<longrightarrow> \<not> must_verdict decoded ns (node_labels nd))"

definition unobjectionable :: "error + ns_config option \<Rightarrow> string \<Rightarrow> node list \<Rightarrow> pod \<Rightarrow> bool" where
  "unobjectionable decoded ns nodes pd \<longleftrightarrow> pod_node pd = [] \<or>
     (\<exists>nd \<in> set nodes. node_name nd = pod_node pd \<and> ns_verdict decoded ns (node_labels nd))"

text \<open>
  C14 (safety). A refresh spares what the rules admit and clears what they must not hold: it
  asks for the deletion of pods of the namespace's list only, in its order and once each; among them is every pod on a
  node that is gone or that \<^verbatim>\<open>MustMatch\<close> or \<^verbatim>\<open>MustNotMatch\<close> forbid, and no pod without a node or on a node
  that the configuration admits. It changes no config map.  (What happens to pods that only
  \<^verbatim>\<open>Match\<close> or \<^verbatim>\<open>NotMatch\<close> refuse is the next property.)
\<close>

theorem refresh_clears_forbidden:
  assumes "an_nodes env = Inr nodes" and "an_pods env ns = Inr pods"
    and "getNsNodeSelectorConfigMap True env st = (r, st1)"
    and "entry_ok (decode (config_text (Some (ns_heap st1 ! r)))) ns"
  shows "\<exists>msg data doomed. NsNodeSelectorRefresh decode ns env st = (Done (reply 0 msg data),
      map (\<lambda>pd. DeletePodCall (pod_namespace pd) (pod_name pd)) (filter doomed pods), st1) \<and>
    (\<forall>pd \<in> set pods. forbidden (decode (config_text (Some (ns_heap st1 ! r)))) ns nodes pd \<longrightarrow> doomed pd) \<and>
    (\<forall>pd \<in> set pods. unobjectionable (decode (config_text (Some (ns_heap st1 ! r)))) ns nodes pd \<longrightarrow> \<not> doomed pd)"
proof -
  let ?D = "decode (config_text (Some (ns_heap st1 ! r)))"
  let ?doomed = "\<lambda>pd. pod_node pd \<noteq> [] \<and> \<not> (\<exists>nd \<in> set nodes. node_name nd = pod_node pd \<and> ns_verdict ?D ns (node_labels nd))"
  from refresh_calls [where decode = decode, OF assms] obtain msg data where
    "NsNodeSelectorRefresh decode ns env st = (Done (reply 0 msg data),
      map (\<lambda>pd. DeletePodCall (pod_namespace pd) (pod_name pd)) (filter ?doomed pods), st1)" by blast
  then show ?thesis
    by (intro exI [of _ msg] exI [of _ data] exI [of _ ?doomed]) (auto simp: verdict_halves forbidden_def unobjectionable_def)
qed

lemma sample_text: "sample_decode2 (config_text (Some (ns_heap sample_cached ! 0))) = Inr (Some [(''ns'', sample_ns_item)])"
  by code_simp

lemma sample_entry_ok: "entry_ok (sample_decode2 (config_text (Some (ns_heap sample_cached ! 0)))) ''ns''"
  by (simp add: sample_text entry_ok_def sample_item_ok)

theorem refresh_clears_forbidden_witness:
  "DeletePodCall ''ns'' ''b'' \<in> set (fst (snd (NsNodeSelectorRefresh sample_decode2 ''ns'' sample_env sample_cached))) \<and>
   DeletePodCall ''ns'' ''a'' \<notin> set (fst (snd (NsNodeSelectorRefresh sample_decode2 ''ns'' sample_env sample_cached)))"
proof -
  have nodes: "an_nodes sample_env = Inr [labelled_node [(''zone'', ''b'')],
      \<lparr>node_name = ''n2'', node_labels = [(''zone'', ''b''), (''old'', ''x'')], node_annotations = None\<rparr>]"
    and pods: "an_pods sample_env ''ns'' = Inr [sample_pod ''a'' ''n1'', sample_pod ''b'' ''n2'', sample_pod ''c'' []]"
    by (simp_all add: sample_env_def)
  have v: "ns_verdict (Inr (Some [(''ns'', sample_ns_item)])) ''ns'' [(''zone'', ''b'')]"
    "\<not> must_verdict (Inr (Some [(''ns'', sample_ns_item)])) ''ns'' [(''zone'', ''b''), (''old'', ''x'')]"
    by code_simp+
  let ?pods = "[sample_pod ''a'' ''n1'', sample_pod ''b'' ''n2'', sample_pod ''c'' []]"
    and ?nodes = "[labelled_node [(''zone'', ''b'')],
      \<lparr>node_name = ''n2'', node_labels = [(''zone'', ''b''), (''old'', ''x'')], node_annotations = None\<rparr>]"
    and ?D = "Inr (Some [(''ns'', sample_ns_item)])"
  have "forbidden ?D ''ns'' ?nodes (sample_pod ''b'' ''n2'')" "unobjectionable ?D ''ns'' ?nodes (sample_pod ''a'' ''n1'')"
    using v by (simp_all add: forbidden_def unobjectionable_def sample_pod_def labelled_node_def)
  moreover obtain msg data doomed where "NsNodeSelectorRefresh sample_decode2 ''ns'' sample_env sample_cached =
      (Done (reply 0 msg data), map (\<lambda>pd. DeletePodCall (pod_namespace pd) (pod_name pd)) (filter doomed ?pods), sample_cached)"
    and "\<forall>pd \<in> set ?pods. forbidden ?D ''ns'' ?nodes pd \<longrightarrow> doomed pd"
    and "\<forall>pd \<in> set ?pods. unobjectionable ?D ''ns'' ?nodes pd \<longrightarrow> \<not> doomed pd"
    using refresh_clears_forbidden [where decode = sample_decode2, OF nodes pods sample_get_cached sample_entry_ok, unfolded sample_text]
    by blast
  ultimately show ?thesis by (simp add: sample_pod_def)
qed

text \<open>
  C32 (error). The refresh does not tell the rules apart: a pod on a listed node that
  \<^verbatim>\<open>Match\<close> or \<^verbatim>\<open>NotMatch\<close> do not admit is deleted like one that \<^verbatim>\<open>MustMatch\<close> or \<^verbatim>\<open>MustNotMatch\<close> forbid, although
  the comments at the declaration of \<^verbatim>\<open>NsConfigItem\<close> say that such a pod will not be deleted.
\<close>

theorem refresh_deletes_despite_comment:
  assumes "an_nodes env = Inr nodes" and "an_pods env ns = Inr pods"
    and "getNsNodeSelectorConfigMap True env st = (r, st1)"
    and "entry_ok (decode (config_text (Some (ns_heap st1 ! r)))) ns"
    and "pd \<in> set pods" and "nd \<in> set nodes" and "pod_node pd = node_name nd" and "node_name nd \<noteq> []"
    and "distinct (map node_name nodes)"
    and "\<not> soft_verdict (decode (config_text (Some (ns_heap st1 ! r)))) ns (node_labels nd)"
  shows "DeletePodCall (pod_namespace pd) (pod_name pd) \<in> set (fst (snd (NsNodeSelectorRefresh decode ns env st)))"
proof -
  have "nd' = nd" if "nd' \<in> set nodes" "node_name nd' = pod_node pd" for nd'
    using that assms(6,7,9) inj_onD [of node_name "set nodes" nd' nd] by (simp add: distinct_map)
  then have "\<not> (\<exists>nd' \<in> set nodes. node_name nd' = pod_node pd \<and>
      ns_verdict (decode (config_text (Some (ns_heap st1 ! r)))) ns (node_labels nd'))"
    using assms(10) unfolding verdict_halves by blast
  moreover have "pod_node pd \<noteq> []" using assms(7,8) by simp
  moreover obtain msg data where "NsNodeSelectorRefresh decode ns env st = (Done (reply 0 msg data),
      map (\<lambda>pd. DeletePodCall (pod_namespace pd) (pod_name pd))
        (filter (\<lambda>pd. pod_node pd \<noteq> [] \<and> \<not> (\<exists>nd' \<in> set nodes. node_name nd' = pod_node pd \<and>
          ns_verdict (decode (config_text (Some (ns_heap st1 ! r)))) ns (node_labels nd'))) pods), st1)"
    using refresh_calls [where decode = decode, OF assms(1-4)] by blast
  ultimately show ?thesis using assms(5) by (simp add: image_iff) blast
qed

text \<open>The node \<open>n1\<close> became a system node, which only the default of \<^verbatim>\<open>NotMatch\<close> excludes.\<close>

theorem refresh_deletes_despite_comment_witness:
  "must_verdict (Inr (Some [(''ns'', sample_ns_item)])) ''ns'' [(''zone'', ''b''), (Nsnodeselector_systemlabel, ''yes'')] \<and>
   DeletePodCall ''ns'' ''a'' \<in> set (fst (snd (NsNodeSelectorRefresh sample_decode2 ''ns''
     (sample_env\<lparr>an_nodes := Inr [labelled_node [(''zone'', ''b''), (Nsnodeselector_systemlabel, ''yes'')]]\<rparr>) sample_cached)))"
proof
  let ?ls = "[(''zone'', ''b''), (Nsnodeselector_systemlabel, ''yes'')]"
  show "must_verdict (Inr (Some [(''ns'', sample_ns_item)])) ''ns'' ?ls" by code_simp
  have soft: "\<not> soft_verdict (Inr (Some [(''ns'', sample_ns_item)])) ''ns'' ?ls" by code_simp
  have get: "getNsNodeSelectorConfigMap True (sample_env\<lparr>an_nodes := Inr [labelled_node ?ls]\<rparr>) sample_cached = (0, sample_cached)"
    by (simp add: getNsNodeSelectorConfigMap_def getSelectorConfigMap_def sample_env_def sample_cached_def
        nsNodeSelectorConfigMapCacheTimeOut_def)
  have "DeletePodCall (pod_namespace (sample_pod ''a'' ''n1'')) (pod_name (sample_pod ''a'' ''n1'')) \<in>
      set (fst (snd (NsNodeSelectorRefresh sample_decode2 ''ns'' (sample_env\<lparr>an_nodes := Inr [labelled_node ?ls]\<rparr>) sample_cached)))"
    by (rule refresh_deletes_despite_comment [where decode = sample_decode2 and nd = "labelled_node ?ls" and nodes = "[labelled_node ?ls]"
        and pods = "[sample_pod ''a'' ''n1'', sample_pod ''b'' ''n2'', sample_pod ''c'' []]", OF _ _ get sample_entry_ok])
      (use soft in \<open>simp_all add: sample_text sample_env_def sample_pod_def labelled_node_def\<close>)
  then show "DeletePodCall ''ns'' ''a'' \<in> set (fst (snd (NsNodeSelectorRefresh sample_decode2 ''ns''
     (sample_env\<lparr>an_nodes := Inr [labelled_node ?ls]\<rparr>) sample_cached)))" by (simp add: sample_pod_def)
qed

text \<open>
  C22 (equivalence). The check of a namespace lists exactly the nodes that the predicate admits
  for the pods of that namespace under the same configuration, in the order of the cluster's
  list; it answers with code 1 exactly when the predicate would give an error on every node.
  It asks for no change.
\<close>

theorem check_agrees_with_predicate:
  assumes "an_nodes env = Inr nodes" and "getNsNodeSelectorConfigMap False env st = (r, st1)"
    and "GetNsConfigByConfigMap decode (Some (ns_heap st1 ! r)) None = Done config" and "pod_namespace pd = ns"
  shows "\<exists>m. CheckNamespaceSchedulerNodes decode ns env st = (Done (Reply m), [], st1) \<and>
    (rm_code m = 0 \<and> rm_data m =
       ''['' @ join_with '','' (map node_name (filter (\<lambda>nd. ns_match config pd nd = Inr True) nodes)) @ '']'' \<or>
     rm_code m = 1 \<and> (\<forall>nd. \<exists>err. ns_match config pd nd = Inl err))"
  using assms
  by (cases "GetNsLabelSelector config ns")
    (simp_all add: CheckNamespaceSchedulerNodes_def server_selector_def reply_def ns_match_def Let_def)

lemma check_agrees_with_predicate_witness:
  "\<exists>m. CheckNamespaceSchedulerNodes sample_decode2 ''ns'' sample_env sample_cached = (Done (Reply m), [], sample_cached) \<and>
     rm_code m = 0 \<and> rm_data m = ''[n1]''"
proof -
  let ?config = "Some [(''ns'', default_item sample_ns_item)]"
  have conf: "GetNsConfigByConfigMap sample_decode2 (Some (ns_heap sample_cached ! 0)) None = Done ?config"
    by code_simp
  have nodes: "an_nodes sample_env = Inr [labelled_node [(''zone'', ''b'')],
      \<lparr>node_name = ''n2'', node_labels = [(''zone'', ''b''), (''old'', ''x'')], node_annotations = None\<rparr>]"
    by (simp add: sample_env_def)
  have m: "ns_match ?config (sample_pod ''p'' []) (labelled_node [(''zone'', ''b'')]) = Inr True"
    "ns_match ?config (sample_pod ''p'' []) \<lparr>node_name = ''n2'', node_labels = [(''zone'', ''b''), (''old'', ''x'')],
       node_annotations = None\<rparr> = Inr False"
    by code_simp+
  have "pod_namespace (sample_pod ''p'' []) = ''ns''" by (simp add: sample_pod_def)
  from check_agrees_with_predicate [OF nodes sample_get_cached conf this]
  obtain m where run: "CheckNamespaceSchedulerNodes sample_decode2 ''ns'' sample_env sample_cached = (Done (Reply m), [], sample_cached)"
    and cases: "rm_code m = 0 \<and> rm_data m = ''[n1]'' \<or>
      rm_code m = 1 \<and> (\<forall>nd. \<exists>err. ns_match ?config (sample_pod ''p'' []) nd = Inl err)"
    using m by (auto simp: labelled_node_def)
  from cases m(1) have "rm_code m = 0 \<and> rm_data m = ''[n1]''" by (metis sum.distinct(1))
  with run show ?thesis by blast
qed

text \<open>
  The list of node labels has, under each key, exactly the values that some
  node has there, and the wildcard under the system label; the reply has code 1, the code of an
  error.
\<close>

theorem all_labels_exact:
  assumes "an_nodes env = Inr nodes"
  shows "NsNodeSelectorNodeLabels encode_kvs env st =
      (Done (reply 1 OKMsg (encode_kvs (kv_list (all_labels nodes)))), [], st) \<and>
    (v \<in> (case listed (Some (all_labels nodes)) k of None \<Rightarrow> {} | Some vs \<Rightarrow> vs) \<longleftrightarrow>
      (k, v) = (Nsnodeselector_systemlabel, ''*'') \<or> (\<exists>nd \<in> set nodes. (k, v) \<in> set (node_labels nd)))"
proof -
  have "v \<in> values_at (all_labels nodes) k \<longleftrightarrow>
      (k, v) = (Nsnodeselector_systemlabel, ''*'') \<or> (\<exists>nd \<in> set nodes. (k, v) \<in> set (node_labels nd))"
    using fold_add_labels [of nodes "[(Nsnodeselector_systemlabel, Some [(''*'', ())])]"]
    by (auto simp: all_labels_def values_at_def ListMapString_def split: if_splits)
  then show ?thesis using assms by (simp add: NsNodeSelectorNodeLabels_def values_at_def)
qed

lemma all_labels_exact_witness:
  "''x'' \<in> (case listed (Some (all_labels [labelled_node [(''zone'', ''b'')],
      \<lparr>node_name = ''n2'', node_labels = [(''zone'', ''b''), (''old'', ''x'')], node_annotations = None\<rparr>])) ''old'' of
      None \<Rightarrow> {} | Some vs \<Rightarrow> vs)"
  using all_labels_exact [of sample_env "[labelled_node [(''zone'', ''b'')],
      \<lparr>node_name = ''n2'', node_labels = [(''zone'', ''b''), (''old'', ''x'')], node_annotations = None\<rparr>]"
      "\<lambda>_. []" sample_cached "''x''" "''old''"]
  by (simp add: sample_env_def)

end
