(* ===== verification/Affinity.thy ===== *)
theory Affinity
  imports PredicatePlugin Samples
begin

text \<open>
  \<^verbatim>\<open>pkg/algorithm/predicate/hostpathpv_affinity.go\<close>: a pod that comes back goes to a node
  which holds its data.  \<open>api\<close> is the pod lookup of the API client, \<open>ca\<close> the caches.
\<close>

section \<open>The predicate\<close>

definition affinityName :: string where
  "affinityName = ''hostpathpvaffinity''"

text \<open>The loop of the branch keep/not shared over the mount records.\<close>

fun free_dir_loop ::
  "codec \<Rightarrow> pod_lister \<Rightarrow> pv \<Rightarrow> string \<Rightarrow> hp_mount_info list \<Rightarrow> bool \<Rightarrow> error + bool" where
  "free_dir_loop cd c v nodeName [] hasEmptyItem =
     (if hasEmptyItem then Inr False else Inr True)"
| "free_dir_loop cd c v nodeName (info # infos) hasEmptyItem =
     (case IsHostPathPVHasEmptyItemForNode cd v (hm_node info) c of
        Inl err \<Rightarrow> Inl (newPredicateError affinityName (NodeEmptyItem nodeName))
      | Inr ok \<Rightarrow>
          if ok = True then
            if nodeName = hm_node info then Inr True
            else free_dir_loop cd c v nodeName infos True
          else free_dir_loop cd c v nodeName infos hasEmptyItem)"

text \<open>The mount list, an error of the decoder being dropped by the code.\<close>

definition mounts_or_empty :: "codec \<Rightarrow> pv \<Rightarrow> hp_mount_info list" where
  "mounts_or_empty cd v =
     (case GetHostPathPVMountInfoList cd v of Inl _ \<Rightarrow> [] | Inr ms \<Rightarrow> ms)"

definition podPVMatchNode ::
  "codec \<Rightarrow> (string \<Rightarrow> string \<Rightarrow> error + pod) \<Rightarrow> informers \<Rightarrow> pod \<Rightarrow> node \<Rightarrow> volume \<Rightarrow> error + bool" where
  "podPVMatchNode cd api ca pd nd podVolume =
     (case GetPodVolumePV pd podVolume (pvInfo ca) (pvcInfo ca) of
        Inl err \<Rightarrow> Inl (newPredicateError affinityName (NodeGetPodVolumePv (node_name nd)))
      | Inr None \<Rightarrow> Inr True
      | Inr (Some v) \<Rightarrow>
          (let mountInfos = mounts_or_empty cd v;
               isShare = IsSharedHostPathPV (Some v);
               isKeep = IsKeepHostPathPV (Some v)
           in if isShare \<and> isKeep then
                if length mountInfos = 0 then
                  (case GetHostPathPVUsedNodeMap api v (podInfo ca) of
                     Inl err \<Rightarrow> Inl (newPredicateError affinityName (NodeUsedNodeMap (node_name nd)))
                   | Inr nodesMap \<Rightarrow>
                       if length nodesMap = 0 then Inr True
                       else if gget nodesMap (node_name nd) = Some True then Inr True
                       else Inr False)
                else if find_node mountInfos (node_name nd) \<noteq> None then Inr True
                else Inr False
              else if isShare \<and> \<not> isKeep then Inr True
              else if \<not> isShare \<and> isKeep then
                if length mountInfos = 0 then Inr True
                else free_dir_loop cd (podInfo ca) v (node_name nd) mountInfos False
              else Inr True))"

fun volumes_match :: "(volume \<Rightarrow> error + bool) \<Rightarrow> volume list \<Rightarrow> error + bool" where
  "volumes_match m [] = Inr True"
| "volumes_match m (v # vs) =
     (case m v of
        Inl err \<Rightarrow> Inl err
      | Inr ok \<Rightarrow> if ok = False then Inr False else volumes_match m vs)"

definition affinity_PodMatchNode ::
  "codec \<Rightarrow> (string \<Rightarrow> string \<Rightarrow> error + pod) \<Rightarrow> informers \<Rightarrow> pod \<Rightarrow> node \<Rightarrow> error + bool" where
  "affinity_PodMatchNode cd api ca pd nd =
     volumes_match (podPVMatchNode cd api ca pd nd) (pod_volumes pd)"

section \<open>Its loops\<close>

lemma volumes_match_True: "volumes_match m vs = Inr True \<longleftrightarrow> (\<forall>v \<in> set vs. m v = Inr True)"
  by (induction vs) (auto split: sum.splits)

lemma volumes_match_error: "volumes_match m vs = Inl e \<Longrightarrow> \<exists>v \<in> set vs. m v = Inl e"
  by (induction vs) (auto split: sum.splits if_splits)

lemma free_dir_loop_ok:
  assumes "\<forall>i \<in> set infos. IsHostPathPVHasEmptyItemForNode cd v (hm_node i) c = Inr (free (hm_node i))"
  shows "free_dir_loop cd c v n infos h =
    Inr ((n \<in> hm_node ` set infos \<and> free n) \<or> (\<not> h \<and> (\<forall>i \<in> set infos. \<not> free (hm_node i))))"
  using assms by (induction infos arbitrary: h) auto

interpretation aff: volume_predicate "affinity_PodMatchNode cd api ca" for cd api ca
proof unfold_locales
  fix q :: pod and nd :: node
  assume "no_claims q"
  then show "affinity_PodMatchNode cd api ca q nd = Inr True"
    by (simp add: affinity_PodMatchNode_def volumes_match_True podPVMatchNode_def
        GetPodVolumePV_def no_claims_def)
qed

section \<open>Free directories\<close>

text \<open>The running pods of a claim on a node, and whether its directories there outnumber them.\<close>

definition users_on :: "pod list \<Rightarrow> claim_ref \<Rightarrow> string \<Rightarrow> pod list" where
  "users_on pods r n =
     filter (\<lambda>p. (n = [] \<or> pod_node p = n) \<and> isPodUsePVC p (ref_namespace r) (ref_name r) \<and> isPodReady p) pods"

definition has_free_dir :: "hp_mount_info list \<Rightarrow> pod list \<Rightarrow> claim_ref \<Rightarrow> string \<Rightarrow> bool" where
  "has_free_dir ms pods r n =
     (case find_node ms n of
        None \<Rightarrow> False
      | Some i \<Rightarrow> length (users_on pods r n) < length (hm_mounts i))"

lemma users_on_filter:
  "pl_list c = Inr pods \<Longrightarrow>
   FilterByNodeAndPVC c n (ref_namespace r) (ref_name r) False = Inr (users_on pods r n)"
  by (simp add: FilterByNodeAndPVC_ok users_on_def)

lemma has_empty_item_keep:
  assumes "IsKeepHostPathPV (Some v)" and "\<not> IsSharedHostPathPV (Some v)"
    and "GetHostPathPVMountInfoList cd v = Inr ms" and "pv_claim_ref v = Some r"
    and "pl_list c = Inr pods"
  shows "IsHostPathPVHasEmptyItemForNode cd v n c = Inr (has_free_dir ms pods r n)"
  using assms keep_is_common [of "Some v"]
  by (auto simp: IsHostPathPVHasEmptyItemForNode_def has_free_dir_def users_on_filter
      split: option.splits)

lemma mounts_or_empty_ok:
  "GetHostPathPVMountInfoList cd v = Inr ms \<Longrightarrow> mounts_or_empty cd v = ms"
  by (simp add: mounts_or_empty_def)

lemma has_free_dir_recorded: "has_free_dir ms pods r n \<Longrightarrow> n \<in> hm_node ` set ms"
  by (auto simp: has_free_dir_def dest: find_node_Some split: option.splits)

section \<open>The verdict for kept volumes\<close>

lemma keep_verdict:
  assumes "GetPodVolumePV pd vol (pvInfo ca) (pvcInfo ca) = Inr (Some v)"
    and "IsKeepHostPathPV (Some v)" and "\<not> IsSharedHostPathPV (Some v)"
    and "GetHostPathPVMountInfoList cd v = Inr ms" and "pv_claim_ref v = Some r"
    and "pl_list (podInfo ca) = Inr pods"
  shows "podPVMatchNode cd api ca pd nd vol =
    Inr (has_free_dir ms pods r (node_name nd) \<or> (\<forall>i \<in> set ms. \<not> has_free_dir ms pods r (hm_node i)))"
proof (cases "ms = []")
  case True
  with assms show ?thesis by (simp add: podPVMatchNode_def mounts_or_empty_ok)
next
  case False
  have "\<forall>i \<in> set ms. IsHostPathPVHasEmptyItemForNode cd v (hm_node i) (podInfo ca) =
      Inr (has_free_dir ms pods r (hm_node i))"
    using has_empty_item_keep [OF assms(2-6)] by simp
  then have "free_dir_loop cd (podInfo ca) v (node_name nd) ms False =
      Inr ((node_name nd \<in> hm_node ` set ms \<and> has_free_dir ms pods r (node_name nd)) \<or>
        (\<forall>i \<in> set ms. \<not> has_free_dir ms pods r (hm_node i)))"
    using free_dir_loop_ok [where free = "has_free_dir ms pods r"] by simp
  then show ?thesis
    using False assms has_free_dir_recorded [of ms pods r "node_name nd"]
    by (auto simp: podPVMatchNode_def mounts_or_empty_ok)
qed

section \<open>Properties\<close>

text \<open>
  C13 (functional).  A volume that is kept and not shared: a node passes exactly when it holds
  a directory of the volume that no running pod uses, or when no recorded node has one (a
  new directory is then created anywhere).
\<close>

theorem keep_not_shared_spec:
  assumes "GetPodVolumePV pd vol (pvInfo ca) (pvcInfo ca) = Inr (Some v)"
    and "IsKeepHostPathPV (Some v)" and "\<not> IsSharedHostPathPV (Some v)"
    and "GetHostPathPVMountInfoList cd v = Inr ms" and "pv_claim_ref v = Some r"
    and "pl_list (podInfo ca) = Inr pods"
  shows "podPVMatchNode cd api ca pd nd vol =
    Inr (has_free_dir ms pods r (node_name nd) \<or> (\<forall>i \<in> set ms. \<not> has_free_dir ms pods r (hm_node i)))"
  by (rule keep_verdict [OF assms])

theorem keep_not_shared_spec_witness:
  "podPVMatchNode sample_codec sample_api
     (sample_caches (sample_pv [(PVVolumeHostPathMountNode, ''m1'')] 6) [])
     (sample_pod ''p1'' []) (sample_node ''n2'') sample_vol = Inr False"
proof -
  let ?v = "sample_pv [(PVVolumeHostPathMountNode, ''m1'')] 6"
  have "podPVMatchNode sample_codec sample_api (sample_caches ?v []) (sample_pod ''p1'' [])
      (sample_node ''n2'') sample_vol =
    Inr (has_free_dir [sample_record ''n1'' [sample_mount ''/d1/a'' 4]] []
           \<lparr>ref_namespace = ''ns'', ref_name = ''c1''\<rparr> (node_name (sample_node ''n2'')) \<or>
         (\<forall>i \<in> set [sample_record ''n1'' [sample_mount ''/d1/a'' 4]].
           \<not> has_free_dir [sample_record ''n1'' [sample_mount ''/d1/a'' 4]] []
             \<lparr>ref_namespace = ''ns'', ref_name = ''c1''\<rparr> (hm_node i)))"
    by (rule keep_not_shared_spec [where v = ?v]) (simp_all add: eval_defs)
  then show ?thesis
    by (simp add: has_free_dir_def users_on_def sample_record_def sample_node_def)
qed

text \<open>
  C24 (functional).  A volume that is kept and shared: with mount records a node passes exactly
  when it is recorded; without any, when no running pod of the volume is placed yet or one
  of them is placed on this node, the API server being asked for pods the cache shows
  unplaced.
\<close>

theorem keep_shared_spec:
  assumes "GetPodVolumePV pd vol (pvInfo ca) (pvcInfo ca) = Inr (Some v)"
    and "IsKeepHostPathPV (Some v)" and "IsSharedHostPathPV (Some v)"
    and "GetHostPathPVMountInfoList cd v = Inr ms" and "pv_claim_ref v = Some r"
    and "pl_list (podInfo ca) = Inr pods"
    and "GetHostPathPVUsedNodeMap api v (podInfo ca) = Inr m"
  shows "podPVMatchNode cd api ca pd nd vol =
    Inr (if ms \<noteq> [] then node_name nd \<in> hm_node ` set ms
         else (let used = node_of_user api ` set (users_on pods r []) - {[]}
               in used = {} \<or> node_name nd \<in> used))"
proof (cases "ms = []")
  case True
  have loop: "used_nodes_loop api (users_on pods r []) [] = Inr m"
    using assms(5,6,7) by (simp add: GetHostPathPVUsedNodeMap_def users_on_filter)
  have keys: "set (gkeys m) = node_of_user api ` set (users_on pods r []) - {[]}"
    using used_nodes_loop_keys [OF loop] by (simp add: gkeys_def)
  have empty: "m = [] \<longleftrightarrow> set (gkeys m) = {}"
    by (simp add: gkeys_def)
  have "gget m n \<noteq> Some False" for n
    using used_nodes_loop_values [OF loop] by simp
  then have "gget m n = Some True \<longleftrightarrow> n \<in> set (gkeys m)" for n
    using gget_gkeys [of m n] by (metis option.exhaust option.distinct(1))
  with True assms show ?thesis
    by (simp only: podPVMatchNode_def mounts_or_empty_ok keys [symmetric] Let_def length_0_conv empty
        sum.case option.case if_True if_False simp_thms)
      (simp split: if_splits)
next
  case False
  with assms show ?thesis
    by (simp add: podPVMatchNode_def mounts_or_empty_ok flip: find_node_exists)
qed

theorem keep_shared_spec_witness:
  "podPVMatchNode sample_codec sample_api
     (sample_caches (sample_pv [(PVHostPathQuotaForOnePod, ''false'')] 6) [sample_pod ''p0'' ''n1''])
     (sample_pod ''p1'' []) (sample_node ''n2'') sample_vol = Inr False"
proof -
  let ?v = "sample_pv [(PVHostPathQuotaForOnePod, ''false'')] 6"
  have "podPVMatchNode sample_codec sample_api (sample_caches ?v [sample_pod ''p0'' ''n1''])
      (sample_pod ''p1'' []) (sample_node ''n2'') sample_vol =
    Inr (if ([] :: hp_mount_info list) \<noteq> [] then node_name (sample_node ''n2'') \<in> hm_node ` set ([] :: hp_mount_info list)
         else (let used = node_of_user sample_api ` set (users_on [sample_pod ''p0'' ''n1'']
                   \<lparr>ref_namespace = ''ns'', ref_name = ''c1''\<rparr> []) - {[]}
               in used = {} \<or> node_name (sample_node ''n2'') \<in> used))"
    by (rule keep_shared_spec [where v = ?v and m = "[(''n1'', True)]"])
      (simp_all add: eval_defs GetHostPathPVUsedNodeMap_def FilterByNodeAndPVC_ok isPodUsePVC_iff)
  then show ?thesis
    by (simp add: users_on_def node_of_user_def eval_defs isPodUsePVC_iff)
qed

text \<open>
  C4 (safety).  A pod is only let onto a node whose data it needs: when the affinity predicate
  passes a node and one of the pod's volumes, kept and not shared, has an unused directory
  somewhere, this node has an unused directory of it.
\<close>

theorem affinity_returns_to_data:
  assumes "affinity_PodMatchNode cd api ca pd nd = Inr True"
    and "vol \<in> set (pod_volumes pd)"
    and "GetPodVolumePV pd vol (pvInfo ca) (pvcInfo ca) = Inr (Some v)"
    and "IsKeepHostPathPV (Some v)" and "\<not> IsSharedHostPathPV (Some v)"
    and "GetHostPathPVMountInfoList cd v = Inr ms" and "pv_claim_ref v = Some r"
    and "pl_list (podInfo ca) = Inr pods"
    and "has_free_dir ms pods r n"
  shows "has_free_dir ms pods r (node_name nd)"
proof -
  from assms(1,2) have "podPVMatchNode cd api ca pd nd vol = Inr True"
    by (simp add: affinity_PodMatchNode_def volumes_match_True)
  then have "has_free_dir ms pods r (node_name nd) \<or> (\<forall>i \<in> set ms. \<not> has_free_dir ms pods r (hm_node i))"
    by (simp add: keep_verdict [OF assms(3-8)])
  with has_free_dir_recorded [OF assms(9)] assms(9) show ?thesis by auto
qed

theorem affinity_returns_to_data_witness:
  "has_free_dir [sample_record ''n1'' [sample_mount ''/d1/a'' 4]] []
     \<lparr>ref_namespace = ''ns'', ref_name = ''c1''\<rparr> (node_name (sample_node ''n1''))"
  by (rule affinity_returns_to_data
      [where cd = sample_codec and api = sample_api and vol = sample_vol and n = "''n1''"
        and v = "sample_pv [(PVVolumeHostPathMountNode, ''m1'')] 6"
        and ca = "sample_caches (sample_pv [(PVVolumeHostPathMountNode, ''m1'')] 6) []"
        and pd = "sample_pod ''p1'' []"])
    (simp_all add: eval_defs affinity_PodMatchNode_def podPVMatchNode_def mounts_or_empty_def
      IsHostPathPVHasEmptyItemForNode_def FilterByNodeAndPVC_ok has_free_dir_def users_on_def)

text \<open>
  C36 (liveness).  When one kept, not shared volume leaves a pod a node among the candidates, exactly:
  there is a candidate, and one with a free directory of the volume if any recorded node has
  one; so all candidates are refused when the free directories are on other nodes only.  In particular some
  candidate passes whenever the candidates include every recorded node.
\<close>

theorem affinity_some_node_passes:
  assumes "GetPodVolumePV pd vol (pvInfo ca) (pvcInfo ca) = Inr (Some v)"
    and "IsKeepHostPathPV (Some v)" and "\<not> IsSharedHostPathPV (Some v)"
    and "GetHostPathPVMountInfoList cd v = Inr ms" and "pv_claim_ref v = Some r"
    and "pl_list (podInfo ca) = Inr pods"
  shows "((\<exists>nd \<in> set nds. podPVMatchNode cd api ca pd nd vol = Inr True) \<longleftrightarrow>
      nds \<noteq> [] \<and> ((\<exists>i \<in> set ms. has_free_dir ms pods r (hm_node i)) \<longrightarrow> (\<exists>nd \<in> set nds. has_free_dir ms pods r (node_name nd)))) \<and>
    (nds \<noteq> [] \<and> hm_node ` set ms \<subseteq> node_name ` set nds \<longrightarrow> (\<exists>nd \<in> set nds. podPVMatchNode cd api ca pd nd vol = Inr True))"
proof -
  let ?free = "\<exists>i \<in> set ms. has_free_dir ms pods r (hm_node i)"
  have "(\<exists>nd \<in> set nds. podPVMatchNode cd api ca pd nd vol = Inr True) \<longleftrightarrow>
      nds \<noteq> [] \<and> ((\<exists>i \<in> set ms. has_free_dir ms pods r (hm_node i)) \<longrightarrow> (\<exists>nd \<in> set nds. has_free_dir ms pods r (node_name nd)))"
    unfolding keep_verdict [OF assms] by (cases "?free"; cases nds) auto
  moreover have "?free \<longrightarrow> (\<exists>nd \<in> set nds. has_free_dir ms pods r (node_name nd))"
    if "hm_node ` set ms \<subseteq> node_name ` set nds"
    using that by fastforce
  ultimately show ?thesis by simp
qed

theorem affinity_some_node_passes_witness:
  "(\<exists>nd \<in> set [sample_node ''n2'', sample_node ''n1''].
     podPVMatchNode sample_codec sample_api
       (sample_caches (sample_pv [(PVVolumeHostPathMountNode, ''m1'')] 6) [])
       (sample_pod ''p1'' []) nd sample_vol = Inr True) \<and>
   \<not> (\<exists>nd \<in> set [sample_node ''n2''].
     podPVMatchNode sample_codec sample_api
       (sample_caches (sample_pv [(PVVolumeHostPathMountNode, ''m1'')] 6) [])
       (sample_pod ''p1'' []) nd sample_vol = Inr True)"
proof -
  note passes = affinity_some_node_passes
      [where v = "sample_pv [(PVVolumeHostPathMountNode, ''m1'')] 6" and pods = "[]"
        and ms = "[sample_record ''n1'' [sample_mount ''/d1/a'' 4]]" and cd = sample_codec and api = sample_api
        and ca = "sample_caches (sample_pv [(PVVolumeHostPathMountNode, ''m1'')] 6) []"
        and pd = "sample_pod ''p1'' []" and vol = sample_vol
        and r = "\<lparr>ref_namespace = ''ns'', ref_name = ''c1''\<rparr>"]
  show ?thesis
    using passes [of "[sample_node ''n2'', sample_node ''n1'']"] passes [of "[sample_node ''n2'']"]
    by (simp add: eval_defs has_free_dir_def users_on_def)
qed

text \<open>
  An undecodable mount annotation is read as "no mounts": the affinity predicate
  then passes every node for a kept, not shared volume, wherever its data is.
\<close>

theorem undecodable_mounts_pass_everywhere:
  assumes "GetPodVolumePV pd vol (pvInfo ca) (pvcInfo ca) = Inr (Some v)"
    and "IsKeepHostPathPV (Some v)" and "\<not> IsSharedHostPathPV (Some v)"
    and "GetHostPathPVMountInfoList cd v = Inl e"
  shows "podPVMatchNode cd api ca pd nd vol = Inr True"
  using assms by (simp add: podPVMatchNode_def mounts_or_empty_def)

theorem undecodable_mounts_pass_everywhere_witness:
  "podPVMatchNode sample_codec sample_api
     (sample_caches (sample_pv [(PVVolumeHostPathMountNode, ''bad'')] 6) [])
     (sample_pod ''p1'' []) (sample_node ''n2'') sample_vol = Inr True"
  by (rule undecodable_mounts_pass_everywhere
      [where v = "sample_pv [(PVVolumeHostPathMountNode, ''bad'')] 6" and e = "External ''json''"])
    (simp_all add: eval_defs)

end
