(* ===== verification/FilterService.thy ===== *)
theory FilterService
  imports Affinity DiskPressure
begin

text \<open>
  The filter extender as a service: what the handler answers for any predicate, what the two
  hostpath predicates answer for pods without claims, and what the life cycle of the registry
  (registrations, initialisation, readiness, routes) guarantees.
\<close>

section \<open>The handler\<close>

text \<open>
  C9 (functional).  The answer to a request: the nodes the predicate passes, in the order of
  the request; every node with an error is reported as failed, with an error the predicate
  gave for a node of that name; no other node is.  A node the predicate refuses without an
  error is in neither part.
\<close>

theorem filter_partition:
  assumes "ea_pod args = Some q" and "ea_nodes args = Some nds"
  shows "\<exists>failed. Predicate_Handler mtch args =
      Done \<lparr>fr_nodes = Some (filter (\<lambda>nd. mtch q nd = Inr True) nds), fr_failed = Some failed, fr_error = None\<rparr> \<and>
    (\<forall>k. gget failed k \<noteq> None \<longleftrightarrow> (\<exists>nd \<in> set nds. node_name nd = k \<and> (\<exists>e. mtch q nd = Inl e))) \<and>
    (\<forall>k e. gget failed k = Some e \<longrightarrow> (\<exists>nd \<in> set nds. node_name nd = k \<and> mtch q nd = Inl e))"
proof -
  let ?f = "fold (\<lambda>nd m. case mtch q nd of Inl err \<Rightarrow> gput (node_name nd) err m | Inr _ \<Rightarrow> m) nds []"
  have args: "args = \<lparr>ea_pod = Some q, ea_nodes = Some nds\<rparr>" using assms by simp
  have "Predicate_Handler mtch args = Done \<lparr>fr_nodes = Some (filter (\<lambda>nd. mtch q nd = Inr True) nds),
      fr_failed = Some ?f, fr_error = None\<rparr>"
    by (simp add: args Predicate_Handler_Some passes_def [abs_def])
  moreover have "gget ?f k \<noteq> None \<longleftrightarrow> (\<exists>nd \<in> set nds. node_name nd = k \<and> (\<exists>e. mtch q nd = Inl e))" for k
    using failed_keys [of mtch q nds "[]" k] by simp
  moreover have "gget ?f k = Some e \<Longrightarrow> \<exists>nd \<in> set nds. node_name nd = k \<and> mtch q nd = Inl e" for k e
    using failed_reason [of mtch q nds "[]" k e] by simp
  ultimately show ?thesis by blast
qed

definition sample_request_args :: "node list \<Rightarrow> extender_args" where
  "sample_request_args nds = \<lparr>ea_pod = Some (sample_pod ''p1'' []), ea_nodes = Some nds\<rparr>"

theorem filter_partition_witness:
  "\<exists>failed. Predicate_Handler (pressure_PodMatchNode sample_codec (sample_caches (sample_pv [] 6) []))
      (sample_request_args [sample_node ''n1'', sample_node ''n2'']) =
    Done \<lparr>fr_nodes = Some (filter (\<lambda>nd. pressure_PodMatchNode sample_codec (sample_caches (sample_pv [] 6) [])
        (sample_pod ''p1'' []) nd = Inr True) [sample_node ''n1'', sample_node ''n2'']),
      fr_failed = Some failed, fr_error = None\<rparr>"
  using filter_partition [of "sample_request_args [sample_node ''n1'', sample_node ''n2'']" "sample_pod ''p1'' []"
      "[sample_node ''n1'', sample_node ''n2'']"
      "pressure_PodMatchNode sample_codec (sample_caches (sample_pv [] 6) [])"]
  unfolding sample_request_args_def extender_args.simps by blast

text \<open>
  The hostpath predicates stay out of the way of other pods: a pod none of whose
  volumes is a claim passes every node of the request, with no failure, whatever the caches,
  the decoders and the API server answer.
\<close>

theorem pods_without_claims_pass:
  assumes "no_claims q"
  shows "Predicate_Handler (affinity_PodMatchNode cd api ca) \<lparr>ea_pod = Some q, ea_nodes = Some nds\<rparr> =
      Done \<lparr>fr_nodes = Some nds, fr_failed = Some [], fr_error = None\<rparr> \<and>
    Predicate_Handler (pressure_PodMatchNode cd ca) \<lparr>ea_pod = Some q, ea_nodes = Some nds\<rparr> =
      Done \<lparr>fr_nodes = Some nds, fr_failed = Some [], fr_error = None\<rparr>"
  using aff.handler_no_claims [OF assms] pressure.handler_no_claims [OF assms] by blast

theorem pods_without_claims_pass_witness:
  "Predicate_Handler (affinity_PodMatchNode sample_codec sample_api (sample_caches (sample_pv [] 6) []))
      \<lparr>ea_pod = Some (sample_pod ''p1'' []\<lparr>pod_volumes := [\<lparr>vol_claim = None\<rparr>]\<rparr>), ea_nodes = Some [sample_node ''n1'']\<rparr> =
      Done \<lparr>fr_nodes = Some [sample_node ''n1''], fr_failed = Some [], fr_error = None\<rparr>"
  using pods_without_claims_pass [of "sample_pod ''p1'' []\<lparr>pod_volumes := [\<lparr>vol_claim = None\<rparr>]\<rparr>" sample_codec sample_api
      "sample_caches (sample_pv [] 6) []" "[sample_node ''n1'']"]
  by (simp add: no_claims_def)

text \<open>
  The outcomes of the route: a missing body is a 400 and an undecodable one a 200
  whose result holds only the error; the handler runs only on a decoded request, and it
  panics exactly when the request has no node list, or nodes but no pod.
\<close>

theorem route_outcomes:
  "predicateRoute decode encode mtch None = BadRequest ''Please send a request body'' \<and>
   (decode text = Inl err \<longrightarrow> encode \<lparr>fr_nodes = None, fr_failed = None, fr_error = Some err\<rparr> = Inr b \<longrightarrow>
     predicateRoute decode encode mtch (Some text) = Ok200 b) \<and>
   (Predicate_Handler mtch args = Panic \<longleftrightarrow>
     ea_nodes args = None \<or> (ea_pod args = None \<and> ea_nodes args \<noteq> Some []))"
proof -
  have loop: "handler_loop mtch p nds s f = Panic \<longleftrightarrow> p = None \<and> nds \<noteq> []" for p nds s f
    by (cases p; cases nds) (simp_all add: handler_loop_Some del: handler_loop.simps(2), simp)
  have "Predicate_Handler mtch args = Panic \<longleftrightarrow>
      ea_nodes args = None \<or> (ea_pod args = None \<and> ea_nodes args \<noteq> Some [])"
  proof (cases "ea_nodes args")
    case (Some items)
    then show ?thesis
      using loop [of "ea_pod args" items "[]" "[]"]
      by (cases "handler_loop mtch (ea_pod args) items [] []") (auto simp: Predicate_Handler_def)
  qed (simp add: Predicate_Handler_def)
  then show ?thesis by (simp add: predicateRoute_def)
qed

theorem route_outcomes_witness:
  "predicateRoute (\<lambda>t. Inl (External t)) (\<lambda>r. Inr r) (pressure_PodMatchNode sample_codec (sample_caches (sample_pv [] 6) []))
      (Some ''{'') = Ok200 \<lparr>fr_nodes = None, fr_failed = None, fr_error = Some (External ''{'')\<rparr> \<and>
   Predicate_Handler (pressure_PodMatchNode sample_codec (sample_caches (sample_pv [] 6) []))
      \<lparr>ea_pod = None, ea_nodes = Some [sample_node ''n1'']\<rparr> = Panic"
  using route_outcomes [of "\<lambda>t. Inl (External t)" "\<lambda>r. Inr r"
      "pressure_PodMatchNode sample_codec (sample_caches (sample_pv [] 6) [])" "''{''" "External ''{''"
      "\<lparr>fr_nodes = None, fr_failed = None, fr_error = Some (External ''{'')\<rparr>"
      "\<lparr>ea_pod = None, ea_nodes = Some [sample_node ''n1'']\<rparr>"]
  by simp

section \<open>The life cycle\<close>

text \<open>
  C37 (invariant).  In every reachable state of the registry no two predicates share a name, none
  is empty, and the routes that are installed are pairwise distinct.
\<close>

theorem reachable_names_distinct:
  assumes "predicate_reach st"
  shows "distinct (map p_name (predicateList st)) \<and> [] \<notin> set (map p_name (predicateList st)) \<and>
    (\<forall>paths. predicate_InstallHttpServer prefix st = Inr paths \<longrightarrow> distinct paths)"
proof -
  have ok: "distinct (map p_name (predicateList st))" "[] \<notin> set (map p_name (predicateList st))"
    using predicate_reach_names_ok [OF assms] unfolding names_ok_def by blast+
  have "map (\<lambda>p. route_path prefix predicatesPrefix (p_name p)) (predicateList st) =
      map (route_path prefix predicatesPrefix) (map p_name (predicateList st))"
    by simp
  with ok show ?thesis
    by (simp add: predicate_InstallHttpServer_def route_paths_distinct del: map_map)
qed

definition sample_predicate :: "string \<Rightarrow> predicate" where
  "sample_predicate n = \<lparr>p_name = n, p_init = None, p_started = False, p_synced = True, p_match = (\<lambda>_ _. Inr True)\<rparr>"

definition sample_started :: registry_state where
  "sample_started = snd (predicate_Init (snd (predicate_Regist (sample_predicate pressureName)
     (snd (predicate_Regist (sample_predicate affinityName) init_registry)))))"

lemma sample_started_reach: "predicate_reach sample_started"
  unfolding sample_started_def
  by (rule predicate_reach.step [OF predicate_reach.step [OF predicate_reach.step [OF predicate_reach.start
        predicate_step.regist] predicate_step.regist] predicate_step.init])
    (simp_all add: sample_predicate_def)

theorem reachable_names_distinct_witness:
  "map p_name (predicateList sample_started) = [affinityName, pressureName] \<and>
   distinct (map p_name (predicateList sample_started))"
  using reachable_names_distinct [OF sample_started_reach]
  by (simp add: sample_started_def predicate_Init_def predicate_Regist_def init_registry_def sample_predicate_def
      affinityName_def pressureName_def)

text \<open>
  Start-up: when predicates with distinct non-empty names are registered in
  an empty registry and all of them initialise, \<^verbatim>\<open>Init\<close> succeeds, the predicates keep their
  order, there is one route for each, and the server is ready exactly when all informers are
  synced; before \<^verbatim>\<open>Init\<close> it is not ready and installs no route.
\<close>

theorem startup:
  assumes "distinct (map p_name ps)" and "[] \<notin> set (map p_name ps)" and "\<forall>p \<in> set ps. p_init p = None"
  defines "st \<equiv> fold (\<lambda>p s. snd (predicate_Regist p s)) ps init_registry"
  shows "predicate_Ready st = Done False \<and>
    predicate_InstallHttpServer prefix st = Inl NotInited \<and>
    fst (predicate_Init st) = None \<and>
    predicate_Ready (snd (predicate_Init st)) = Done (\<forall>p \<in> set ps. p_synced p) \<and>
    predicate_InstallHttpServer prefix (snd (predicate_Init st)) =
      Inr (map (\<lambda>p. route_path prefix predicatesPrefix (p_name p)) ps)"
proof -
  have regs: "fold (\<lambda>p s. snd (predicate_Regist p s)) qs s = s\<lparr>predicateList := predicateList s @ qs\<rparr>"
    if "distinct (map p_name (predicateList s @ qs))" "[] \<notin> set (map p_name qs)" for qs s
    using that by (induction qs arbitrary: s) (auto simp: predicate_Regist_def)
  have st: "st = \<lparr>predicateList = ps, inited = False\<rparr>"
    unfolding st_def using regs [of init_registry ps] assms(1,2) by (simp add: init_registry_def)
  have loop: "init_loop qs = (None, map (\<lambda>p. p\<lparr>p_started := True\<rparr>) qs)" if "\<forall>p \<in> set qs. p_init p = None" for qs
    using that by (induction qs) auto
  have ini: "predicate_Init st = (None, \<lparr>predicateList = map (\<lambda>p. p\<lparr>p_started := True\<rparr>) ps, inited = True\<rparr>)"
    by (simp add: st predicate_Init_def loop [OF assms(3)])
  have "ready_loop (map (\<lambda>p. p\<lparr>p_started := True\<rparr>) ps) = Done (\<forall>p \<in> set ps. p_synced p)"
    using ready_loop_started [of "map (\<lambda>p. p\<lparr>p_started := True\<rparr>) ps"] by simp
  then show ?thesis
    by (simp add: ini) (simp add: st predicate_Ready_def predicate_InstallHttpServer_def comp_def)
qed

theorem startup_witness:
  "predicate_Ready sample_started = Done True"
  using startup [of "[sample_predicate affinityName, sample_predicate pressureName]" "''api''"]
  by (simp add: sample_started_def sample_predicate_def affinityName_def pressureName_def)

text \<open>
  A registration after \<^verbatim>\<open>Init\<close> is accepted, because the error built for it is
  dropped; from then on, as long as the other predicates are synced, every readiness check
  panics on the predicate that was never initialised.
\<close>

theorem late_registration_panics:
  assumes "inited st" and "\<forall>q \<in> set (predicateList st). p_started q \<and> p_synced q"
    and "\<not> p_started p" and "p_name p \<noteq> []" and "p_name p \<notin> set (map p_name (predicateList st))"
  shows "fst (predicate_Regist p st) = None \<and> predicate_Ready (snd (predicate_Regist p st)) = Panic"
  using assms ready_loop_late [of "predicateList st" p]
  by (simp add: predicate_Regist_def predicate_Ready_def)

theorem late_registration_panics_witness:
  "fst (predicate_Regist (sample_predicate ''late'') sample_started) = None \<and>
   predicate_Ready (snd (predicate_Regist (sample_predicate ''late'') sample_started)) = Panic"
  by (rule late_registration_panics)
    (simp_all add: sample_started_def predicate_Init_def predicate_Regist_def init_registry_def sample_predicate_def
      affinityName_def pressureName_def)

end
