(* ===== verification/NsSystem.thy ===== *)
theory NsSystem
  imports NsStore NsService FilterService
begin

text \<open>
  The namespace rules from the edits over HTTP to the nodes a pod is offered: the filter request
  to the namespace predicate with its reads of the configuration, and the properties of the runs
  of server, predicate and store.
\<close>

section \<open>A filter request to the namespace predicate\<close>

text \<open>
  \<^verbatim>\<open>Handler\<close> with this predicate: every node's check may read the configuration anew, so each
  node comes with the clock and the answers at its turn.
\<close>

fun ns_filter_loop ::
  "ns_codec \<Rightarrow> pod option \<Rightarrow> (node \<times> api_env) list \<Rightarrow> node list \<Rightarrow> (string, error) gomap \<Rightarrow> server_state \<Rightarrow>
   (node list \<times> (string, error) gomap) outcome \<times> server_state" where
  "ns_filter_loop cd pd [] sched failed st = (Done (sched, failed), st)"
| "ns_filter_loop cd pd ((nd, env) # nds) sched failed st =
     (case pd of
        None \<Rightarrow> (Panic, st)
      | Some q \<Rightarrow>
          (case ns_predicate_call cd env q nd st of
             (Panic, st1) \<Rightarrow> (Panic, st1)
           | (Done (Inl err), st1) \<Rightarrow> ns_filter_loop cd pd nds sched (gput (node_name nd) err failed) st1
           | (Done (Inr result), st1) \<Rightarrow>
               if result then ns_filter_loop cd pd nds (sched @ [nd]) failed st1
               else ns_filter_loop cd pd nds sched failed st1))"

definition ns_filter ::
  "ns_codec \<Rightarrow> pod option \<Rightarrow> (node \<times> api_env) list option \<Rightarrow> server_state \<Rightarrow> filter_result outcome \<times> server_state" where
  "ns_filter cd pd items st =
     (case items of
        None \<Rightarrow> (Panic, st)
      | Some nds \<Rightarrow>
          (case ns_filter_loop cd pd nds [] [] st of
             (Panic, st1) \<Rightarrow> (Panic, st1)
           | (Done (sched, failed), st1) \<Rightarrow>
               (Done \<lparr>fr_nodes = Some sched, fr_failed = Some failed, fr_error = None\<rparr>, st1)))"

text \<open>On current copies it is the handler with the stored configuration, the same for all nodes.\<close>

lemma ns_filter_loop_stored:
  assumes "coherent st store" and "\<forall>(nd, env) \<in> set nds. answers_from store env"
  shows "\<exists>st'. ns_filter_loop cd pd nds sched failed st =
      (handler_loop (ns_match (ns_effective (un_config cd (config_text (Some (stored_cm store)))))) pd (map fst nds) sched failed, st') \<and>
    coherent st' store"
  using assms
proof (induction cd pd nds sched failed st rule: ns_filter_loop.induct)
  case (2 cd pd nd env nds sched failed st)
  show ?case
  proof (cases pd)
    case None
    with 2(4) show ?thesis by auto
  next
    case (Some q)
    let ?c = "ns_effective (un_config cd (config_text (Some (stored_cm store))))"
    from 2(5) have env: "answers_from store env" and rest: "\<forall>(nd, env) \<in> set nds. answers_from store env" by auto
    obtain st1 where call: "ns_predicate_call cd env q nd st = (Done (ns_match ?c q nd), st1)" and co: "coherent st1 store"
      using predicate_call_stored [OF 2(4) env] by blast
    show ?thesis
    proof (cases "ns_match ?c q nd")
      case (Inl err)
      with 2(1) [OF Some call [symmetric] refl _ co rest] Some call show ?thesis by simp
    next
      case (Inr result)
      with 2(2,3) [OF Some call [symmetric] refl _ _ co rest] Some call show ?thesis by (cases result) simp_all
    qed
  qed
qed auto

lemma ns_filter_stored:
  assumes "coherent st store" and "\<forall>(nd, env) \<in> set nds. answers_from store env"
  shows "\<exists>st'. ns_filter cd pd (Some nds) st =
      (Predicate_Handler (ns_match (ns_effective (un_config cd (config_text (Some (stored_cm store))))))
        \<lparr>ea_pod = pd, ea_nodes = Some (map fst nds)\<rparr>, st') \<and> coherent st' store"
  using ns_filter_loop_stored [OF assms, of cd pd "[]" "[]"]
  by (auto simp: ns_filter_def Predicate_Handler_def split: outcome.splits)

text \<open>A configuration that gives every node a verdict leaves no failures.\<close>

lemma handler_all_verdicts:
  assumes "\<And>nd. mtch q nd = Inr (ok nd)"
  shows "Predicate_Handler mtch \<lparr>ea_pod = Some q, ea_nodes = Some nds\<rparr> =
    Done \<lparr>fr_nodes = Some (filter ok nds), fr_failed = Some [], fr_error = None\<rparr>"
proof -
  have "fold (\<lambda>nd m. case mtch q nd of Inl err \<Rightarrow> gput (node_name nd) err m | Inr _ \<Rightarrow> m) nds []
      = ([] :: (string, error) gomap)"
    by (induction nds) (simp_all add: assms)
  moreover have "filter (passes mtch q) nds = filter ok nds" by (rule filter_cong) (simp_all add: passes_def assms)
  ultimately show ?thesis by (simp add: Predicate_Handler_Some)
qed

lemma match_in_force:
  assumes "decodes_maps decode" and "entry_ok (decode s) (pod_namespace q)"
  shows "ns_match (ns_effective (decode s)) q nd = Inr (rules_admit (rules_of (decode s) (pod_namespace q)) (node_labels nd))"
  using selector_verdict [OF assms(2)] verdict_rules [OF assms(1)] by (auto simp: ns_match_def)

section \<open>Properties of the runs\<close>

text \<open>A run with one edit, and the answers afterwards.\<close>

definition sample_edited_cm :: config_map where
  "sample_edited_cm = sample_cm\<lparr>cm_data := Some [(nsnodeselector_itemname, ''c2'')]\<rparr>"

definition sample_edited_state :: server_state where
  "sample_edited_state = sample_cached\<lparr>ns_heap := [sample_edited_cm, sample_edited_cm], sc_cm := Some 1\<rparr>"

definition sample_log :: "log_entry list" where
  "sample_log = [\<lparr>le_operation = ''add'', le_form = sample_form, le_namespaces = [''ns''],
     le_config = [(''ns'', sample_edited_item)]\<rparr>]"

definition sample_later_env :: api_env where
  "sample_later_env = sample_env\<lparr>an_get := Inr (Some sample_edited_cm), an_current := (\<lambda>_ _. Inr sample_edited_cm)\<rparr>"

lemma sample_answers: "answers_from (Some sample_cm) sample_env" "answers_from (Some sample_edited_cm) sample_later_env"
  by (simp_all add: answers_from_def sample_env_def sample_later_env_def)

lemma sample_store_run: "store_run sample_ns_codec 10 (Some sample_cm) sample_log sample_edited_state (Some sample_edited_cm)"
proof -
  have named: "selector_named (stored_cm (Some sample_cm))"
    by (simp add: selector_named_def stored_cm_def sample_cm_def empty_config_map_def)
  have run: "ns_handle sample_ns_codec (EditConfig ''add'' sample_form) sample_env (server_init 10) =
      (Done (reply 0 OKMsg []), [UpdateCM sample_edited_cm], sample_edited_state)"
    using sample_edit by (simp add: sample_ns_codec_def sample_edited_cm_def sample_edited_state_def)
  have "edited_config sample_decode2 (namespaces_or_empty sample_env) ''add'' sample_form sample_cm =
      Some [(''ns'', sample_edited_item)]"
    by code_simp
  then have "edit_log sample_ns_codec (EditConfig ''add'' sample_form) sample_env (Some sample_cm) (Done (reply 0 OKMsg [])) =
      sample_log"
    by (simp add: edit_log_def stored_cm_def sample_ns_codec_def sample_log_def namespaces_or_empty_def) (simp add: sample_env_def)
  with store_run.http [OF store_run.start [OF named] sample_answers(1) run] show ?thesis by simp
qed

lemma sample_log_ok: "list_all (log_ok sample_ns_codec) sample_log"
  by (simp add: sample_log_def log_ok_def reads_back_def sample_ns_codec_def sample_encode_def sample_decode2_def
      sample_form_def)

lemma sample_decodes: "decodes_maps (un_config sample_ns_codec)"
  by (auto simp: decodes_maps_def sample_ns_codec_def sample_decode2_def sample_ns_decode_def config_wf_def item_wf_def
      part_wf_def gwf_def gkeys_def sample_edited_item_def sample_ns_item_def split: if_splits)

lemma sample_texts:
  "un_config sample_ns_codec (config_text (Some (stored_cm (Some sample_cm)))) = Inr (Some [(''ns'', sample_ns_item)])"
  "un_config sample_ns_codec (config_text (Some (stored_cm (Some sample_edited_cm)))) = Inr (Some [(''ns'', sample_edited_item)])"
  by code_simp+

text \<open>
  While only this process writes the config map, and its requests for it are
  answered, every copy in memory, the predicate's and the server's, is the stored config map,
  after any requests, edits and checks of the predicate and at any age of the copies.
\<close>

theorem cached_copies_current:
  assumes "store_run cd timeout store0 log st store"
  shows "(\<forall>r. ns_cached st = Some r \<longrightarrow> ns_heap st ! r = stored_cm store) \<and>
    (\<forall>r. sc_cm st = Some r \<longrightarrow> ns_heap st ! r = stored_cm store)"
  using store_run_coherent [OF assms] by (simp add: coherent_def)

lemma cached_copies_current_witness:
  "ns_heap sample_edited_state ! 0 = sample_edited_cm \<and> ns_heap sample_edited_state ! 1 = sample_edited_cm"
  using cached_copies_current [OF sample_store_run]
  by (simp add: sample_edited_state_def sample_cached_def stored_cm_def)

text \<open>
  C15 (equivalence). In such a run the caches cannot be observed: every request gets the reply,
  and makes the calls to the API server, that a process without any copy would give and make,
  and every check of the predicate has the same result.
\<close>

theorem caches_transparent:
  assumes "store_run cd timeout store0 log st store" and "answers_from store env"
  shows "fst (ns_handle cd req env st) = fst (ns_handle cd req env (server_init timeout)) \<and>
    fst (snd (ns_handle cd req env st)) = fst (snd (ns_handle cd req env (server_init timeout))) \<and>
    fst (ns_predicate_call cd env pd nd st) = fst (ns_predicate_call cd env pd nd (server_init timeout))"
proof -
  have co: "coherent st store" by (rule store_run_coherent [OF assms(1)])
  then have cold: "coherent (server_init timeout) store"
    by (intro init_coherent) (simp add: coherent_def)
  from handle_same [OF co cold assms(2)] predicate_call_stored [OF co assms(2), of cd pd nd]
    predicate_call_stored [OF cold assms(2), of cd pd nd]
  show ?thesis by auto
qed

lemma caches_transparent_witness:
  "fst (ns_handle sample_ns_codec (Refresh ''ns'') sample_later_env sample_edited_state) =
     fst (ns_handle sample_ns_codec (Refresh ''ns'') sample_later_env (server_init 10))"
  using caches_transparent [OF sample_store_run sample_answers(2)] by blast

text \<open>
  C6 (refinement). The stored configuration refines a set of rules: after any such run its rules
  are those at the start with the accepted edits applied in their order, each an update of the one rule its
  form names; refused edits, the other requests and the scheduler's calls change no rule. The edits are of
  namespaces of the cluster, and what was written is read back by the codec up to the order of its maps.
\<close>

theorem stored_rules_are_the_edits:
  assumes "store_run cd timeout store0 log st store"
    and "un_config cd (config_text (Some (stored_cm store0))) = Inr dec" and "list_all (log_ok cd) log"
  shows "store_rules (un_config cd) store = apply_edits log (store_rules (un_config cd) store0)"
  using store_run_rules [OF assms(1) _ assms(3)] assms(2) by blast

lemma stored_rules_are_the_edits_witness:
  "store_rules sample_decode2 (Some sample_edited_cm) ''ns'' ''mustnotmatch'' ''gpu'' = Some {''a'', ''b''} \<and>
   store_rules sample_decode2 (Some sample_edited_cm) ''ns'' ''match'' ''zone'' = Some {''a'', ''b''}"
proof -
  have "set (split_value ''a,b'') = {''a'', ''b''}" by code_simp
  moreover have "store_rules sample_decode2 (Some sample_cm) ''ns'' ''match'' ''zone'' = Some {''a'', ''b''}"
    using sample_texts(1)
    by (simp add: store_rules_def sample_ns_codec_def rules_of_def item_in_force_def item_or_zero_def default_item_def
        sample_ns_item_def ListMapString_def)
  moreover have "store_rules sample_decode2 (Some sample_edited_cm) =
      apply_edits sample_log (store_rules sample_decode2 (Some sample_cm))"
    using stored_rules_are_the_edits [OF sample_store_run sample_texts(1) sample_log_ok] by (simp add: sample_ns_codec_def)
  ultimately show ?thesis by (simp add: apply_edits_def sample_log_def edit_rules_def sample_form_def)
qed

text \<open>
  C3 (functional). From the edits to the scheduler: after any such run, a filter request to the
  namespace predicate returns exactly the nodes that the rules of the pod's namespace admit, in
  the order of the request and without failures, where the rules are those at the start with the
  accepted edits; all nodes of the request are judged by the same rules, however many times
  the configuration is read in between. The entry of the namespace has label keys and values.
\<close>

theorem filter_obeys_edits:
  assumes "store_run cd timeout store0 log st store"
    and "un_config cd (config_text (Some (stored_cm store0))) = Inr dec" and "list_all (log_ok cd) log"
    and "decodes_maps (un_config cd)" and "\<forall>(nd, env) \<in> set nds. answers_from store env"
    and "entry_ok (un_config cd (config_text (Some (stored_cm store)))) (pod_namespace q)"
  shows "\<exists>st'. ns_filter cd (Some q) (Some nds) st =
    (Done \<lparr>fr_nodes = Some (filter (\<lambda>nd. rules_admit (apply_edits log (store_rules (un_config cd) store0) (pod_namespace q))
        (node_labels nd)) (map fst nds)), fr_failed = Some [], fr_error = None\<rparr>, st')"
proof -
  have rules: "rules_of (un_config cd (config_text (Some (stored_cm store)))) = apply_edits log (store_rules (un_config cd) store0)"
    using store_run_rules [OF assms(1) _ assms(3)] assms(2) by (auto simp: store_rules_def)
  show ?thesis
    using ns_filter_stored [OF store_run_coherent [OF assms(1)] assms(5), of cd "Some q"]
      handler_all_verdicts [of "ns_match (ns_effective (un_config cd (config_text (Some (stored_cm store)))))" q
        "\<lambda>nd. rules_admit (rules_of (un_config cd (config_text (Some (stored_cm store)))) (pod_namespace q)) (node_labels nd)"
        "map fst nds", OF match_in_force [OF assms(4,6)]]
    by (auto simp: rules)
qed

lemma filter_obeys_edits_witness:
  "\<exists>st'. ns_filter sample_ns_codec (Some (sample_pod ''p'' []))
      (Some [(labelled_node [(''zone'', ''b'')], sample_later_env),
             (labelled_node [(''zone'', ''a''), (''gpu'', ''b'')], sample_later_env)]) sample_edited_state =
     (Done \<lparr>fr_nodes = Some [labelled_node [(''zone'', ''b'')]], fr_failed = Some [], fr_error = None\<rparr>, st')"
proof -
  let ?dec = "un_config sample_ns_codec" and ?s = "config_text (Some (stored_cm (Some sample_edited_cm)))"
  have rules: "rules_admit (apply_edits sample_log (store_rules ?dec (Some sample_cm)) ''ns'') ls \<longleftrightarrow>
      ns_verdict (Inr (Some [(''ns'', sample_edited_item)])) ''ns'' ls" for ls
    using store_run_rules [OF sample_store_run _ sample_log_ok] sample_texts verdict_rules [OF sample_decodes, of ?s "''ns''" ls]
    by (auto simp: store_rules_def)
  have v: "ns_verdict (Inr (Some [(''ns'', sample_edited_item)])) ''ns'' [(''zone'', ''b'')]"
    "\<not> ns_verdict (Inr (Some [(''ns'', sample_edited_item)])) ''ns'' [(''zone'', ''a''), (''gpu'', ''b'')]"
    by code_simp+
  have ok: "entry_ok (?dec ?s) (pod_namespace (sample_pod ''p'' []))"
    unfolding sample_texts by code_simp
  have ns: "pod_namespace (sample_pod ''p'' []) = ''ns''" by (simp add: sample_pod_def)
  show ?thesis
    using filter_obeys_edits [OF sample_store_run sample_texts(1) sample_log_ok sample_decodes _ ok,
        of "[(labelled_node [(''zone'', ''b'')], sample_later_env),
          (labelled_node [(''zone'', ''a''), (''gpu'', ''b'')], sample_later_env)]"] v sample_answers(2)
    by (simp add: rules ns labelled_node_def)
qed

section \<open>A failed read\<close>

text \<open>
  C34 (error). An edit whose read of the configuration fails, with no fresh copy at hand, works
  on an empty configuration and stores the result over the current one: when the reply is a
  success, what was stored has the rule of the edit and otherwise the defaults only, so the rules of all
  namespaces are lost.
\<close>

theorem failed_read_drops_rules:
  assumes "NsNodeSelectorAddUpdateOrDelete decode encode opr form env st = (Done (reply 0 msg data), calls, st')"
    and "ns_wf st"
    and "case ns_cached st of None \<Rightarrow> True | Some r \<Rightarrow> nsNodeSelectorConfigMapCacheTimeOut < ck_since env - ns_cached_at st"
    and "an_get env = Inl err"
    and "an_current env nsnodeselector_configmap_ns nsnodeselector_configmap_name = Inr cur"
    and "decode ''{}'' = Inr (Some [])" and "ef_namespace form \<in> set (namespaces_or_empty env)"
    and "edited_config decode (namespaces_or_empty env) opr form empty_config_map = Some c" and "reads_back decode encode c"
  shows "\<exists>cm. calls = [UpdateCM cm] \<and> rules_of (decode (config_text (Some cm))) = edit_rules opr form (rules_of (Inr (Some [])))"
proof -
  obtain r st1 where get: "getNsNodeSelectorConfigMap True env st = (r, st1)" by fastforce
  obtain r2 st2 where f: "fetch_selector_cm env st = (r2, st2)" by fastforce
  have "getSelectorConfigMap env st = fetch_selector_cm env st"
    using assms(3) by (auto simp: getSelectorConfigMap_def split: option.splits)
  with get f have "r = r2" "ns_heap st1 = ns_heap st2"
    by (auto simp: getNsNodeSelectorConfigMap_def split: option.splits)
  with fetch_selector_cm_spec [OF f assms(2)] assms(4)
  have heap: "ns_heap st1 ! r = empty_config_map" and r: "r < length (ns_heap st1)" by simp_all
  have op: "operation_ok opr" using edit_ok_inv [OF assms(1) get] by blast
  have data: "cm_data (ns_heap st1 ! r) = Some []" by (simp add: heap empty_config_map_def)
  let ?cm = "cur\<lparr>cm_data := Some (gput nsnodeselector_itemname (encode c) [])\<rparr>"
  have "calls = [UpdateCM ?cm]"
    using edit_accepted [OF op get _ data r, of decode form c encode] assms(1,5,8)
    by (auto simp: heap CreateOrUpdateSchedulerPolicyConfigMap_def Let_def reply_def empty_config_map_def split: sum.splits)
  moreover have "config_text (Some ?cm) = encode c"
    using assms(9) written_text [of encode c ?cm "[]"] by (simp add: reads_back_def)
  moreover have "config_text (Some empty_config_map) = ''{}''" by code_simp
  ultimately show ?thesis
    using edited_config_rules [OF assms(8) _ assms(7), of "Some []"] reads_back_rules [OF assms(9)] assms(6) by auto
qed

text \<open>Here the rule for the zone, in the stored configuration, is dropped by an edit of another key.\<close>

definition sample_unread_env :: api_env where
  "sample_unread_env = sample_env\<lparr>an_get := Inl (External ''timeout'')\<rparr>"

definition sample_bare_item :: ns_config_item where
  "sample_bare_item = (default_item empty_item)\<lparr>ci_MustNotMatch := Some [(''gpu'', Some [(''a'', ()), (''b'', ())])]\<rparr>"

definition sample_decode3 :: "string \<Rightarrow> error + ns_config option" where
  "sample_decode3 s = (if s = ''c3'' then Inr (Some [(''ns'', sample_bare_item)]) else sample_ns_decode s)"

lemma failed_read_drops_rules_witness:
  "\<exists>cm. fst (snd (NsNodeSelectorAddUpdateOrDelete sample_decode3 (\<lambda>_. ''c3'') ''add'' sample_form sample_unread_env (server_init 10)))
      = [UpdateCM cm] \<and>
     rules_of (sample_decode3 (config_text (Some sample_cm))) ''ns'' ''match'' ''zone'' = Some {''a'', ''b''} \<and>
     rules_of (sample_decode3 (config_text (Some cm))) ''ns'' ''match'' ''zone'' = None"
proof -
  let ?cm = "sample_cm\<lparr>cm_data := Some [(nsnodeselector_itemname, ''c3'')]\<rparr>"
  let ?run = "NsNodeSelectorAddUpdateOrDelete sample_decode3 (\<lambda>_. ''c3'') ''add'' sample_form sample_unread_env (server_init 10)"
  have fst: "fst ?run = Done (reply 0 OKMsg []) \<and> fst (snd ?run) = [UpdateCM ?cm]" by code_simp
  then have run: "?run = (Done (reply 0 OKMsg []), [UpdateCM ?cm], snd (snd ?run))" by (simp add: prod_eq_iff)
  have conf: "edited_config sample_decode3 (namespaces_or_empty sample_unread_env) ''add'' sample_form empty_config_map =
      Some [(''ns'', sample_bare_item)]"
    by code_simp
  have rb: "reads_back sample_decode3 (\<lambda>_. ''c3'') [(''ns'', sample_bare_item)]"
    by (simp add: reads_back_def sample_decode3_def)
  have "\<exists>cm. [UpdateCM ?cm] = [UpdateCM cm] \<and>
      rules_of (sample_decode3 (config_text (Some cm))) = edit_rules ''add'' sample_form (rules_of (Inr (Some [])))"
    by (rule failed_read_drops_rules [OF run sample_wf(1) _ _ _ _ _ conf rb, of "External ''timeout''" sample_cm])
      (simp_all add: server_init_def sample_unread_env_def sample_env_def sample_decode3_def sample_ns_decode_def
        namespaces_or_empty_def sample_form_def)
  then have "rules_of (sample_decode3 (config_text (Some ?cm))) ''ns'' ''match'' ''zone'' = None"
    by (simp add: edit_rules_def sample_form_def rules_of_def item_in_force_def item_or_zero_def default_item_def empty_item_def listed_def)
  moreover have "sample_decode3 (config_text (Some sample_cm)) = Inr (Some [(''ns'', sample_ns_item)])" by code_simp
  then have "rules_of (sample_decode3 (config_text (Some sample_cm))) ''ns'' ''match'' ''zone'' = Some {''a'', ''b''}"
    by (simp add: rules_of_def item_in_force_def item_or_zero_def default_item_def sample_ns_item_def ListMapString_def)
  ultimately show ?thesis using fst by simp
qed

end
