(* ===== verification/NsShow.thy ===== *)
theory NsShow
  imports NsSystem
begin

text \<open>
  What an administrator sees: the reply to a GET of the configuration, in a run of server,
  predicate and store.
\<close>

section \<open>What is shown\<close>

definition shown_part :: "config_ret \<Rightarrow> string \<Rightarrow> key_value list" where
  "shown_part cr part =
     or_empty (if part = ''match'' then cr_match cr else if part = ''mustmatch'' then cr_mustMatch cr
       else if part = ''notmatch'' then cr_notMatch cr else if part = ''mustnotmatch'' then cr_mustNotMatch cr else None)"

text \<open>An entry shows rules: a line for each key that is not empty, with the values of the rule.\<close>

definition shows_rules :: "key_value list \<Rightarrow> (string \<Rightarrow> string set option) \<Rightarrow> bool" where
  "shows_rules kvs R \<longleftrightarrow>
     (\<forall>k. (\<exists>v. (k, v) \<in> set kvs) \<longleftrightarrow> k \<noteq> [] \<and> R k \<noteq> None) \<and>
     (\<forall>(k, v) \<in> set kvs. \<exists>vs. R k = Some (set vs) \<and> v = join_with '','' vs)"

lemma kv_list_set:
  "(k, v) \<in> set (kv_list lvs) \<longleftrightarrow> k \<noteq> [] \<and> (\<exists>vals. (k, vals) \<in> set lvs \<and> v = join_with '','' (ListMapString vals))"
  by (induction lvs rule: kv_list.induct) auto

lemma shows_listed:
  assumes "part_wf m"
  shows "shows_rules (or_empty (map_option kv_list m)) (listed m)"
  using part_entries [OF assms]
  by (cases m) (auto simp: shows_rules_def kv_list_set listed_def, blast)

lemma shown_item:
  assumes "item_wf it"
  shows "shows_rules (shown_part (show_item it) part) (item_rules it part)"
proof (cases "item_field part")
  case None
  then have "part \<notin> {''match'', ''mustmatch'', ''notmatch'', ''mustnotmatch''}" by (auto simp: item_field.simps)
  with None show ?thesis by (simp add: shown_part_def shows_rules_def item_rules_def)
next
  case (Some gp)
  then have "part = ''match'' \<or> part = ''mustmatch'' \<or> part = ''notmatch'' \<or> part = ''mustnotmatch''"
    by (rule contrapos_pp) (simp add: item_field.simps)
  moreover have "item_rules it ''match'' = listed (ci_Match it)" "item_rules it ''mustmatch'' = listed (ci_MustMatch it)"
    "item_rules it ''notmatch'' = listed (ci_NotMatch it)" "item_rules it ''mustnotmatch'' = listed (ci_MustNotMatch it)"
    by (auto simp: fun_eq_iff)
  ultimately show ?thesis using assms by (auto simp: shown_part_def show_item_def item_wf_def shows_listed)
qed

lemma show_in_force:
  assumes "coherent st store" and "answers_from store env" and "decodes_maps decode"
    and "decode (config_text (Some (stored_cm store))) = Inr dec"
    and "NsNodeSelectorGet decode env st = (Done (ShowConfig shown), calls, st')"
    and "ns \<in> set (namespaces_or_empty env)"
  shows "\<exists>cr. gget shown ns = Some cr \<and> (\<forall>part. shows_rules (shown_part cr part) (store_rules decode store ns part))"
proof -
  obtain r st1 where get: "getNsNodeSelectorConfigMap False env st = (r, st1)" by fastforce
  then have heap: "ns_heap st1 ! r = stored_cm store" using server_reader.reads_stored [OF assms(1,2) get] by blast
  then obtain config where read: "GetNsConfigByConfigMap decode (Some (stored_cm store)) (Some (namespaces_or_empty env)) = Done config"
    and shown: "shown = map (\<lambda>(ns, config). (ns, show_item config)) (or_empty config)"
    using assms(5) get by (auto simp: NsNodeSelectorGet_def split: outcome.splits)
  from config_read [OF assms(4) read] assms(6) have "gget (or_empty config) ns = Some (item_in_force (Inr dec) ns)" by fastforce
  then have "gget shown ns = Some (show_item (item_in_force (Inr dec) ns))" by (simp add: shown gget_map_item)
  with shown_item [OF in_force_wf [OF assms(3)], of "config_text (Some (stored_cm store))" ns] show ?thesis
    by (simp add: assms(4) store_rules_def rules_of_def)
qed

lemma show_replies:
  assumes "coherent st store" and "answers_from store env"
    and "decode (config_text (Some (stored_cm store))) = Inr (Some m)"
  shows "\<exists>shown st'. NsNodeSelectorGet decode env st = (Done (ShowConfig shown), [], st')"
proof -
  obtain r st1 where get: "getNsNodeSelectorConfigMap False env st = (r, st1)" by fastforce
  then have heap: "ns_heap st1 ! r = stored_cm store" using server_reader.reads_stored [OF assms(1,2) get] by blast
  have "\<exists>ret. add_namespaces nss (Some m) = Done ret" for nss
    by (induction nss arbitrary: m) (auto split: option.splits)
  then obtain ret where "add_namespaces (namespaces_or_empty env) (Some m) = Done ret" by blast
  then have "\<exists>config. GetNsConfigByConfigMap decode (Some (stored_cm store)) (Some (namespaces_or_empty env)) = Done config"
    using assms(3) by (simp add: GetNsConfigByConfigMap_def)
  with get heap show ?thesis by (auto simp: NsNodeSelectorGet_def)
qed

text \<open>
  C23 (functional). The administrator is shown the rules in force: in a run of server, predicate
  and store, the reply to a GET has an entry for each namespace of the cluster, and each of its parts
  lists exactly the keys for which the rules at the start with the accepted edits have a rule (the empty key
  apart), each with the comma-separated values of its rule; the request makes no call that changes anything.
\<close>

theorem show_reports_rules:
  assumes "store_run cd timeout store0 log st store" and "answers_from store env"
    and "un_config cd (config_text (Some (stored_cm store0))) = Inr dec0" and "list_all (log_ok cd) log"
    and "un_config cd (config_text (Some (stored_cm store))) = Inr (Some m)"
    and "decodes_maps (un_config cd)"
  shows "\<exists>shown st'. NsNodeSelectorGet (un_config cd) env st = (Done (ShowConfig shown), [], st') \<and>
    (\<forall>ns \<in> set (namespaces_or_empty env). \<exists>cr. gget shown ns = Some cr \<and>
      (\<forall>part. shows_rules (shown_part cr part) (apply_edits log (store_rules (un_config cd) store0) ns part)))"
proof -
  have co: "coherent st store" by (rule store_run_coherent [OF assms(1)])
  have rules: "store_rules (un_config cd) store = apply_edits log (store_rules (un_config cd) store0)"
    using store_run_rules [OF assms(1) _ assms(4)] assms(3) by blast
  obtain shown st' where run: "NsNodeSelectorGet (un_config cd) env st = (Done (ShowConfig shown), [], st')"
    using show_replies [where decode = "un_config cd", OF co assms(2,5)] by blast
  with show_in_force [where decode = "un_config cd", OF co assms(2,6,5) run] show ?thesis by (auto simp: rules)
qed

lemma show_reports_rules_witness:
  "\<exists>shown st' cr. NsNodeSelectorGet sample_decode2 sample_later_env sample_edited_state = (Done (ShowConfig shown), [], st') \<and>
     gget shown ''ns'' = Some cr \<and> (\<exists>v. (''gpu'', v) \<in> set (shown_part cr ''mustnotmatch''))"
proof -
  have "set (split_value ''a,b'') = {''a'', ''b''}" by code_simp
  then have rule: "apply_edits sample_log (store_rules sample_decode2 (Some sample_cm)) ''ns'' ''mustnotmatch'' ''gpu'' = Some {''a'', ''b''}"
    by (simp add: apply_edits_def sample_log_def edit_rules_def sample_form_def)
  have "\<exists>shown st'. NsNodeSelectorGet (un_config sample_ns_codec) sample_later_env sample_edited_state = (Done (ShowConfig shown), [], st') \<and>
    (\<forall>ns \<in> set (namespaces_or_empty sample_later_env). \<exists>cr. gget shown ns = Some cr \<and>
      (\<forall>part. shows_rules (shown_part cr part) (apply_edits sample_log (store_rules (un_config sample_ns_codec) (Some sample_cm)) ns part)))"
    by (rule show_reports_rules [OF sample_store_run sample_answers(2) sample_texts(1) sample_log_ok sample_texts(2) sample_decodes])
  then obtain shown st' cr where "NsNodeSelectorGet sample_decode2 sample_later_env sample_edited_state = (Done (ShowConfig shown), [], st')"
    "gget shown ''ns'' = Some cr"
    "\<forall>part. shows_rules (shown_part cr part) (apply_edits sample_log (store_rules sample_decode2 (Some sample_cm)) ''ns'' part)"
    by (auto simp: sample_ns_codec_def sample_later_env_def sample_env_def namespaces_or_empty_def)
  with rule show ?thesis by (force simp: shows_rules_def)
qed

end
