(* ===== verification/NsRace.thy ===== *)
theory NsRace
  imports NsSystem
begin

text \<open>
  Edits that run at the same time.  The server runs each request in a goroutine of its own and
  nothing locks its variables: the edit handler is split here into the steps between which another
  goroutine can run, and any number of edits, other requests and checks of the predicate
  interleave over the heap and the stored config map.
\<close>

section \<open>The steps of an edit\<close>

text \<open>
  Where an edit is: it has the reference of the config map; it has decoded and changed the configuration, its
  own copy; the text is in the shared object; the API server has taken it; it has answered.
  The last write is one step because the API server takes an update only of the version that was read.
\<close>

datatype edit_phase = Begun
  | Fetched nat
  | Changed nat ns_config
  | InMemory nat
  | Taken config_map
  | Answered "response outcome"

fun edit_step ::
  "(string \<Rightarrow> error + ns_config option) \<Rightarrow> (ns_config \<Rightarrow> string) \<Rightarrow> string \<Rightarrow> edit_form \<Rightarrow>
   api_env \<Rightarrow> edit_phase \<Rightarrow> server_state \<Rightarrow> edit_phase \<times> api_call list \<times> server_state" where
  "edit_step decode encode addUpdateOrDelete form env Begun st =
     (if addUpdateOrDelete \<noteq> ''delete'' \<and> addUpdateOrDelete \<noteq> ''add'' \<and> addUpdateOrDelete \<noteq> ''update''
      then (Answered (Done (reply 1 (UnknownOperation addUpdateOrDelete) [])), [], st)
      else (case getNsNodeSelectorConfigMap True env st of (r, st1) \<Rightarrow> (Fetched r, [], st1)))"
| "edit_step decode encode addUpdateOrDelete form env (Fetched r) st =
     (case GetNsConfigByConfigMap decode (Some (ns_heap st ! r)) (Some (namespaces_or_empty env)) of
        Panic \<Rightarrow> (Answered Panic, [], st)
      | Done config \<Rightarrow>
          (let nsConfig = or_empty config
           in case edit_item addUpdateOrDelete form (item_or_zero nsConfig (ef_namespace form)) of
                Panic \<Rightarrow> (Answered Panic, [], st)
              | Done (Inl msg) \<Rightarrow> (Answered (Done (reply 1 msg [])), [], st)
              | Done (Inr item) \<Rightarrow> (Changed r (gput (ef_namespace form) item nsConfig), [], st)))"
| "edit_step decode encode addUpdateOrDelete form env (Changed r nsConfig) st =
     (case SetNsNodeSelectorConfigMapNsConfig encode r nsConfig st of
        Panic \<Rightarrow> (Answered Panic, [], st)
      | Done st2 \<Rightarrow> (InMemory r, [], st2))"
| "edit_step decode encode addUpdateOrDelete form env (InMemory r) st =
     (case CreateOrUpdateSchedulerPolicyConfigMap env (ns_heap st ! r) of
        (Inl err, calls) \<Rightarrow> (Answered (Done (reply 1 (ErrorText err) [])), calls, st)
      | (Inr updateCm, calls) \<Rightarrow> (Taken updateCm, calls, st))"
| "edit_step decode encode addUpdateOrDelete form env (Taken updateCm) st =
     (case cm_alloc updateCm st of
        (r', st3) \<Rightarrow> (Answered (Done (reply 0 OKMsg [])), [], st3\<lparr>sc_cm := Some r'\<rparr>))"
| "edit_step decode encode addUpdateOrDelete form env (Answered res) st = (Answered res, [], st)"

fun edit_steps ::
  "(string \<Rightarrow> error + ns_config option) \<Rightarrow> (ns_config \<Rightarrow> string) \<Rightarrow> string \<Rightarrow> edit_form \<Rightarrow>
   api_env \<Rightarrow> nat \<Rightarrow> edit_phase \<Rightarrow> server_state \<Rightarrow> edit_phase \<times> api_call list \<times> server_state" where
  "edit_steps decode encode opr form env 0 ph st = (ph, [], st)"
| "edit_steps decode encode opr form env (Suc n) ph st =
     (case edit_step decode encode opr form env ph st of
        (ph', calls, st') \<Rightarrow>
          (case edit_steps decode encode opr form env n ph' st' of
             (ph2, calls2, st2) \<Rightarrow> (ph2, calls @ calls2, st2)))"

lemma edit_steps_answered: "edit_steps decode encode opr form env n (Answered res) st = (Answered res, [], st)"
  by (induction n) simp_all

text \<open>
  The steps of an edit that nothing interrupts are the handler: five of them answer,
  with the handler's reply, its calls and its final state, on every branch.
\<close>

theorem edit_steps_are_handler:
  "edit_steps decode encode opr form env 5 Begun st =
     (case NsNodeSelectorAddUpdateOrDelete decode encode opr form env st of
        (res, calls, st') \<Rightarrow> (Answered res, calls, st'))"
proof (cases "operation_ok opr")
  case False
  then show ?thesis
    by (simp add: NsNodeSelectorAddUpdateOrDelete_def operation_ok_def numeral_eq_Suc edit_steps_answered)
next
  case ok: True
  then have op: "(opr \<noteq> ''delete'' \<and> opr \<noteq> ''add'' \<and> opr \<noteq> ''update'') = False" by (auto simp: operation_ok_def)
  note edit_def = NsNodeSelectorAddUpdateOrDelete_def [of decode encode opr form env st, unfolded op if_False]
    and begin_def = edit_step.simps(1) [of decode encode opr form env st, unfolded op if_False]
  obtain r st1 where get: "getNsNodeSelectorConfigMap True env st = (r, st1)" by fastforce
  show ?thesis
  proof (cases "GetNsConfigByConfigMap decode (Some (ns_heap st1 ! r)) (Some (namespaces_or_empty env))")
    case Panic
    then show ?thesis by (simp add: edit_def begin_def get numeral_eq_Suc edit_steps_answered del: edit_step.simps(1))
  next
    case read: (Done config)
    show ?thesis
    proof (cases "edit_item opr form (item_or_zero (or_empty config) (ef_namespace form))")
      case Panic
      with read show ?thesis by (simp add: edit_def begin_def get numeral_eq_Suc edit_steps_answered del: edit_step.simps(1))
    next
      case changed: (Done e)
      show ?thesis
      proof (cases "(\<exists>msg. e = Inl msg) \<or> (\<exists>item. e = Inr item \<and>
          SetNsNodeSelectorConfigMapNsConfig encode r (gput (ef_namespace form) item (or_empty config)) st1 = Panic)")
        case True
        with read changed ok show ?thesis
          by (auto simp: operation_ok_def edit_def begin_def get numeral_eq_Suc edit_steps_answered del: edit_step.simps(1))
      next
        case False
        then obtain item st2 where set: "e = Inr item"
          "SetNsNodeSelectorConfigMapNsConfig encode r (gput (ef_namespace form) item (or_empty config)) st1 = Done st2"
          by (cases e; cases "SetNsNodeSelectorConfigMapNsConfig encode r (gput (ef_namespace form) (projr e) (or_empty config)) st1") auto
        obtain w calls where "CreateOrUpdateSchedulerPolicyConfigMap env (ns_heap st2 ! r) = (w, calls)" by fastforce
        with read changed set show ?thesis
          by (cases w) (simp_all add: edit_def begin_def get numeral_eq_Suc edit_steps_answered cm_alloc_def del: edit_step.simps(1))
      qed
    qed
  qed
qed

section \<open>Interleavings\<close>

text \<open>
  The edits \<open>es\<close> in their phases, over the variables and the store.  As in \<open>store_run\<close> the API
  server answers; the edits name namespaces of the cluster, and what they are about to write the
  codec reads back.
\<close>

definition step_ok :: "ns_codec \<Rightarrow> edit_form \<Rightarrow> api_env \<Rightarrow> edit_phase \<Rightarrow> bool" where
  "step_ok cd form env ph \<longleftrightarrow> ef_namespace form \<in> set (namespaces_or_empty env) \<and>
     (\<forall>r c. ph = Changed r c \<longrightarrow> reads_back (un_config cd) (en_config cd) c)"

inductive race ::
  "ns_codec \<Rightarrow> int \<Rightarrow> config_map option \<Rightarrow> (string \<times> edit_form) list \<Rightarrow>
   server_state \<Rightarrow> config_map option \<Rightarrow> edit_phase list \<Rightarrow> bool"
  for cd timeout store0 es where
  start: "selector_named (stored_cm store0) \<Longrightarrow>
    race cd timeout store0 es (server_init timeout) store0 (map (\<lambda>_. Begun) es)"
| edit: "race cd timeout store0 es st store phs \<Longrightarrow> answers_from store env \<Longrightarrow> i < length es \<Longrightarrow> es ! i = (opr, form) \<Longrightarrow>
    edit_step (un_config cd) (en_config cd) opr form env (phs ! i) st = (ph, calls, st') \<Longrightarrow> step_ok cd form env ph \<Longrightarrow>
    race cd timeout store0 es st' (fold store_call calls store) (phs[i := ph])"
| other: "race cd timeout store0 es st store phs \<Longrightarrow> answers_from store env \<Longrightarrow> \<forall>opr form. req \<noteq> EditConfig opr form \<Longrightarrow>
    ns_handle cd req env st = (res, calls, st') \<Longrightarrow> race cd timeout store0 es st' (fold store_call calls store) phs"
| predicate: "race cd timeout store0 es st store phs \<Longrightarrow> answers_from store env \<Longrightarrow>
    ns_predicate_call cd env pd nd st = (res, st') \<Longrightarrow> race cd timeout store0 es st' store phs"

section \<open>Rules that some edit asked for\<close>

text \<open>Every rule is the initial one or one that an edit sets.\<close>

definition possible :: "(string \<times> edit_form) list \<Rightarrow> rules \<Rightarrow> rules \<Rightarrow> bool" where
  "possible es R0 R \<longleftrightarrow> (\<forall>ns part k. R ns part k \<in>
     insert (R0 ns part k) ((\<lambda>(opr, form). edit_rules opr form R0 ns part k) ` set es))"

lemma possible_refl: "possible es R R"
  by (simp add: possible_def)

lemma possible_edit:
  assumes "possible es R0 R" and "(opr, form) \<in> set es"
  shows "possible es R0 (edit_rules opr form R)"
  unfolding possible_def
proof (intro allI)
  fix ns part k
  show "edit_rules opr form R ns part k \<in> insert (R0 ns part k) ((\<lambda>(opr, form). edit_rules opr form R0 ns part k) ` set es)"
  proof (cases "ns = ef_namespace form \<and> part = ef_type form \<and> k = ef_key form")
    case True
    then have "edit_rules opr form R ns part k = edit_rules opr form R0 ns part k" by (simp add: edit_rules_def)
    with assms(2) show ?thesis by force
  next
    case False
    then have "edit_rules opr form R ns part k = R ns part k" by (auto simp: edit_rules_def)
    with assms(1) show ?thesis by (simp add: possible_def)
  qed
qed

definition text_ok :: "ns_codec \<Rightarrow> (string \<times> edit_form) list \<Rightarrow> rules \<Rightarrow> config_map \<Rightarrow> bool" where
  "text_ok cd es R0 cm \<longleftrightarrow> selector_named cm \<and>
     (\<exists>dec. un_config cd (config_text (Some cm)) = Inr dec \<and> possible es R0 (rules_of (Inr dec)))"

fun phase_ok :: "ns_codec \<Rightarrow> (string \<times> edit_form) list \<Rightarrow> rules \<Rightarrow> nat \<Rightarrow> edit_phase \<Rightarrow> bool" where
  "phase_ok cd es R0 n (Fetched r) \<longleftrightarrow> r < n"
| "phase_ok cd es R0 n (Changed r c) \<longleftrightarrow> r < n \<and> reads_back (un_config cd) (en_config cd) c \<and> possible es R0 (rules_of (Inr (Some c)))"
| "phase_ok cd es R0 n (InMemory r) \<longleftrightarrow> r < n"
| "phase_ok cd es R0 n (Taken cm) \<longleftrightarrow> text_ok cd es R0 cm"
| "phase_ok cd es R0 n ph \<longleftrightarrow> True"

definition race_inv :: "ns_codec \<Rightarrow> (string \<times> edit_form) list \<Rightarrow> rules \<Rightarrow> server_state \<Rightarrow> config_map option \<Rightarrow> edit_phase list \<Rightarrow> bool" where
  "race_inv cd es R0 st store phs \<longleftrightarrow> ns_wf st \<and> length phs = length es \<and> text_ok cd es R0 (stored_cm store) \<and>
     (\<forall>cm \<in> set (ns_heap st). text_ok cd es R0 cm) \<and> (\<forall>ph \<in> set phs. phase_ok cd es R0 (length (ns_heap st)) ph)"

lemma phase_ok_mono: "phase_ok cd es R0 n ph \<Longrightarrow> n \<le> m \<Longrightarrow> phase_ok cd es R0 m ph"
  by (cases ph) auto

lemma race_inv_phase:
  "race_inv cd es R0 st store phs \<Longrightarrow> phase_ok cd es R0 (length (ns_heap st)) ph \<Longrightarrow> race_inv cd es R0 st store (phs[i := ph])"
  using set_update_subset_insert [of phs i ph] by (auto simp: race_inv_def)

text \<open>Reading adds the stored config map to the heap at most.\<close>

lemma getSelectorConfigMap_heap:
  assumes "answers_from store env" and "getSelectorConfigMap env st = (r, st')"
  shows "set (ns_heap st') \<subseteq> insert (stored_cm store) (set (ns_heap st))"
  using assms
  by (cases store) (auto simp: getSelectorConfigMap_def fetch_selector_cm_def cm_alloc_def answers_from_def stored_cm_def
      split: option.splits if_splits)

lemma getNsNodeSelectorConfigMap_heap:
  assumes "answers_from store env" and "getNsNodeSelectorConfigMap b env st = (r, st')"
  shows "set (ns_heap st') \<subseteq> insert (stored_cm store) (set (ns_heap st))"
  using assms(2) getSelectorConfigMap_heap [OF assms(1)]
  by (auto simp: getNsNodeSelectorConfigMap_def split: option.splits if_splits prod.splits) blast+

lemma race_inv_read:
  assumes "race_inv cd es R0 st store phs" and "ns_wf st'" and "length (ns_heap st) \<le> length (ns_heap st')"
    and "set (ns_heap st') \<subseteq> insert (stored_cm store) (set (ns_heap st))"
  shows "race_inv cd es R0 st' store phs"
  using assms phase_ok_mono [OF _ assms(3)] by (auto simp: race_inv_def)

lemma race_inv_get:
  assumes "race_inv cd es R0 st store phs" and "answers_from store env"
  shows "getSelectorConfigMap env st = (r, st') \<Longrightarrow> race_inv cd es R0 st' store phs"
    and "getNsNodeSelectorConfigMap b env st = (r, st') \<Longrightarrow> race_inv cd es R0 st' store phs \<and> r < length (ns_heap st')"
  using race_inv_read [OF assms(1)] assms getSelectorConfigMap_spec [of env st r st'] getSelectorConfigMap_heap [of store env st r st']
    getNsNodeSelectorConfigMap_spec [of b env st r st'] getNsNodeSelectorConfigMap_heap [of store env b st r st']
  by (auto simp: race_inv_def [of _ _ _ st] heap_grows_length)

lemma config_text_data: "cm_data cm = cm_data cm' \<Longrightarrow> config_text (Some cm) = config_text (Some cm')"
  by (simp add: config_text_def)

lemma text_ok_data: "text_ok cd es R0 cm \<Longrightarrow> selector_named cm' \<Longrightarrow> cm_data cm' = cm_data cm \<Longrightarrow> text_ok cd es R0 cm'"
  using config_text_data [of cm' cm] by (simp add: text_ok_def)

text \<open>An edit writes the object it has in memory.\<close>

lemma taken_write:
  assumes "answers_from store env" and "CreateOrUpdateSchedulerPolicyConfigMap env cm = (w, calls)"
    and "selector_named cm" and "selector_named (stored_cm store)"
  shows "\<exists>cm'. w = Inr cm' \<and> fold store_call calls store = Some cm' \<and> selector_named cm' \<and> cm_data cm' = cm_data cm"
  using assms
  by (cases store) (auto simp: CreateOrUpdateSchedulerPolicyConfigMap_def answers_from_def selector_named_def stored_cm_def Let_def)

lemma edit_step_inv:
  assumes "race_inv cd es R0 st store phs" and "answers_from store env" and "i < length es" and "es ! i = (opr, form)"
    and "edit_step (un_config cd) (en_config cd) opr form env (phs ! i) st = (ph, calls, st')" and "step_ok cd form env ph"
  shows "race_inv cd es R0 st' (fold store_call calls store) (phs[i := ph])"
proof -
  have wf: "ns_wf st" and heap: "\<And>r. r < length (ns_heap st) \<Longrightarrow> text_ok cd es R0 (ns_heap st ! r)"
    and stored: "text_ok cd es R0 (stored_cm store)" and phase: "phase_ok cd es R0 (length (ns_heap st)) (phs ! i)"
    using assms(1,3) by (auto simp: race_inv_def)
  have mem: "(opr, form) \<in> set es" using assms(3,4) by (metis nth_mem)
  show ?thesis
  proof (cases "phs ! i")
    case Begun
    obtain r st1 where get: "getNsNodeSelectorConfigMap True env st = (r, st1)" by fastforce
    from race_inv_get(2) [OF assms(1,2) get] Begun assms(1,5) get show ?thesis
      by (auto intro!: race_inv_phase split: if_splits)
  next
    case (Fetched r)
    with phase have r: "r < length (ns_heap st)" by simp
    from assms(5) Fetched consider (answered) res where "ph = Answered res" "calls = []" "st' = st"
      | (changed) c where "ph = Changed r c" "calls = []" "st' = st"
        "edited_config (un_config cd) (namespaces_or_empty env) opr form (ns_heap st ! r) = Some c"
      by (auto simp: edited_config_def Let_def split: outcome.splits sum.splits)
    then show ?thesis
    proof cases
      case answered
      with assms(1) show ?thesis by (auto intro!: race_inv_phase)
    next
      case changed
      from heap [OF r] obtain dec where dec: "un_config cd (config_text (Some (ns_heap st ! r))) = Inr dec"
        "possible es R0 (rules_of (Inr dec))" by (auto simp: text_ok_def)
      from edited_config_rules [OF changed(4) dec(1)] assms(6) possible_edit [OF dec(2) mem]
      have "possible es R0 (rules_of (Inr (Some c)))" by (simp add: step_ok_def dec(1))
      with changed assms(1,6) r show ?thesis by (auto simp: step_ok_def intro!: race_inv_phase)
    qed
  next
    case (Changed r c)
    with phase have r: "r < length (ns_heap st)" and rb: "reads_back (un_config cd) (en_config cd) c"
      and poss: "possible es R0 (rules_of (Inr (Some c)))" by simp_all
    show ?thesis
    proof (cases "cm_data (ns_heap st ! r)")
      case None
      with assms(1,5) Changed show ?thesis
        by (auto simp: SetNsNodeSelectorConfigMapNsConfig_def intro!: race_inv_phase)
    next
      case (Some d)
      let ?cm = "(ns_heap st ! r)\<lparr>cm_data := Some (gput nsnodeselector_itemname (en_config cd c) d)\<rparr>"
      have st': "st' = st\<lparr>ns_heap := (ns_heap st)[r := ?cm]\<rparr>" "ph = InMemory r" "calls = []"
        using assms(5) Changed Some by (auto simp: SetNsNodeSelectorConfigMapNsConfig_def)
      have "config_text (Some ?cm) = en_config cd c" using rb by (intro written_text) (simp_all add: reads_back_def)
      with rb reads_back_rules [OF rb] poss heap [OF r] have "text_ok cd es R0 ?cm"
        by (auto simp: text_ok_def selector_named_def reads_back_def)
      then have "race_inv cd es R0 st' store phs"
        using assms(1) set_update_subset_insert [of "ns_heap st" r ?cm]
        by (auto simp: race_inv_def st' ns_wf_def split: option.splits)
      with st' r show ?thesis by (auto intro!: race_inv_phase)
    qed
  next
    case (InMemory r)
    with phase have r: "r < length (ns_heap st)" by simp
    obtain w cs where wr: "CreateOrUpdateSchedulerPolicyConfigMap env (ns_heap st ! r) = (w, cs)" by fastforce
    from taken_write [OF assms(2) wr] heap [OF r] stored obtain cm' where
      cm': "w = Inr cm'" "fold store_call cs store = Some cm'" "text_ok cd es R0 cm'"
      by (auto simp: text_ok_def dest: config_text_data)
    with assms(1,5) InMemory wr have "race_inv cd es R0 st (Some cm') phs" "ph = Taken cm'" "calls = cs" "st' = st"
      by (auto simp: race_inv_def stored_cm_def)
    with cm' show ?thesis by (auto intro!: race_inv_phase)
  next
    case (Taken cm)
    with phase assms(1,5) have "race_inv cd es R0 st' store phs" "ph = Answered (Done (reply 0 OKMsg []))" "calls = []"
      by (auto simp: race_inv_def cm_alloc_def ns_wf_def intro: phase_ok_mono split: option.splits)
    then show ?thesis by (auto intro!: race_inv_phase)
  next
    case (Answered res)
    with assms(5) have "ph = Answered res" "calls = []" "st' = st" by simp_all
    with assms(1) show ?thesis by (simp add: race_inv_phase)
  qed
qed

text \<open>The other handlers only read, and change no stored config map.\<close>

lemma other_reads:
  assumes "ns_handle cd req env st = (res, calls, st')" and "\<forall>opr form. req \<noteq> EditConfig opr form"
  shows "st' = st \<or> (\<exists>b r. getNsNodeSelectorConfigMap b env st = (r, st'))"
  using assms
  by (cases req) (auto simp: NsNodeSelectorGet_def CheckNamespaceSchedulerNodes_def NsNodeSelectorNodeLabels_def
      NsNodeSelectorRefresh_def Let_def split: sum.splits prod.splits outcome.splits if_splits)

lemma race_invariant:
  assumes "race cd timeout store0 es st store phs" and "un_config cd (config_text (Some (stored_cm store0))) = Inr dec"
  shows "race_inv cd es (store_rules (un_config cd) store0) st store phs"
  using assms
proof (induction rule: race.induct)
  case start
  then show ?case
    by (auto simp: race_inv_def text_ok_def store_rules_def possible_refl server_init_def ns_wf_def)
next
  case (edit st store phs env i opr form ph calls st')
  then show ?case by (blast intro: edit_step_inv)
next
  case (other st store phs env req res calls st')
  then show ?case
    using other_reads [OF other.hyps(4,3)] calls_without_edit [OF other.hyps(4,3), of store]
      race_inv_get(2) [OF other.IH [OF other.prems] other.hyps(2)] by auto
next
  case (predicate st store phs env pd nd res st')
  obtain r st1 where get: "getSelectorConfigMap env st = (r, st1)" by fastforce
  with predicate.hyps(3) have "st' = st1" by (simp add: ns_predicate_call_def split: outcome.splits)
  with race_inv_get(1) [OF predicate.IH [OF predicate.prems] predicate.hyps(2) get] show ?case by simp
qed

section \<open>Two edits at once\<close>

text \<open>Two edits that have both decoded the stored configuration.\<close>

lemma both_changed:
  assumes "selector_named cm" and "answers_from (Some cm) env" and "operation_ok opr1" and "operation_ok opr2"
    and "edited_config (un_config cd) (namespaces_or_empty env) opr1 form1 cm = Some c1"
    and "edited_config (un_config cd) (namespaces_or_empty env) opr2 form2 cm = Some c2"
    and "reads_back (un_config cd) (en_config cd) c1" and "reads_back (un_config cd) (en_config cd) c2"
    and "ef_namespace form1 \<in> set (namespaces_or_empty env)" and "ef_namespace form2 \<in> set (namespaces_or_empty env)"
  shows "\<exists>st r1 r2. race cd timeout (Some cm) [(opr1, form1), (opr2, form2)] st (Some cm) [Changed r1 c1, Changed r2 c2] \<and>
    ns_heap st ! r1 = cm \<and> ns_heap st ! r2 = cm \<and> r1 < length (ns_heap st) \<and> r2 < length (ns_heap st)"
proof -
  let ?es = "[(opr1, form1), (opr2, form2)]"
  let ?race = "race cd timeout (Some cm) ?es"
  have ok: "step_ok cd form1 env ph = (\<forall>r c. ph = Changed r c \<longrightarrow> reads_back (un_config cd) (en_config cd) c)"
    "step_ok cd form2 env ph = (\<forall>r c. ph = Changed r c \<longrightarrow> reads_back (un_config cd) (en_config cd) c)" for ph
    using assms(9,10) by (simp_all add: step_ok_def)
  obtain r1 st1 where get1: "getNsNodeSelectorConfigMap True env (server_init timeout) = (r1, st1)" by fastforce
  obtain r2 st2 where get2: "getNsNodeSelectorConfigMap True env st1 = (r2, st2)" by fastforce
  have co: "coherent (server_init timeout) (Some cm)" using assms(1) by (intro init_coherent) (simp add: stored_cm_def)
  note got1 = getNsNodeSelectorConfigMap_stored [OF co assms(2) get1]
  then have co1: "coherent st1 (Some cm)" and wf: "ns_wf st1" by (auto simp: coherent_def)
  note got2 = getNsNodeSelectorConfigMap_stored [OF co1 assms(2) get2]
  from getNsNodeSelectorConfigMap_spec [OF get2 wf] got1 got2
  have heap: "ns_heap st2 ! r1 = cm" "ns_heap st2 ! r2 = cm" "r1 < length (ns_heap st2)" "r2 < length (ns_heap st2)"
    by (auto simp: heap_grows_object stored_cm_def dest: heap_grows_length)
  have "?race st1 (Some cm) [Fetched r1, Begun]"
    using race.edit [OF race.start [of "Some cm" cd timeout ?es] assms(2), of 0 opr1 form1 "Fetched r1" "[]" st1]
      assms(1,3) get1 ok(1) by (auto simp: stored_cm_def operation_ok_def)
  from race.edit [OF this assms(2), of 1 opr2 form2 "Fetched r2" "[]" st2] assms(4) get2 ok(2)
  have "?race st2 (Some cm) [Fetched r1, Fetched r2]" by (auto simp: operation_ok_def)
  from race.edit [OF this assms(2), of 0 opr1 form1 "Changed r1 c1" "[]" st2] assms(5,7) ok(1) heap
  have "?race st2 (Some cm) [Changed r1 c1, Fetched r2]"
    by (auto simp: edited_config_def split: outcome.splits sum.splits)
  from race.edit [OF this assms(2), of 1 opr2 form2 "Changed r2 c2" "[]" st2] assms(6,8) ok(2) heap
  have "?race st2 (Some cm) [Changed r1 c1, Changed r2 c2]"
    by (auto simp: edited_config_def split: outcome.splits sum.splits)
  with heap show ?thesis by blast
qed

text \<open>From there, the rest of one edit in one go.\<close>

lemma edit_finishes:
  assumes "race cd timeout store0 es st (Some cur) phs" and "i < length es" and "es ! i = (opr, form)" and "i < length phs"
    and "phs ! i = Changed r c" and "answers_from (Some cur) env" and "selector_named cur"
    and "r < length (ns_heap st)" and "cm_data (ns_heap st ! r) = Some d" and "selector_named (ns_heap st ! r)"
    and "ef_namespace form \<in> set (namespaces_or_empty env)"
  defines "cm \<equiv> (ns_heap st ! r)\<lparr>cm_data := Some (gput nsnodeselector_itemname (en_config cd c) d)\<rparr>"
  shows "race cd timeout store0 es (st\<lparr>ns_heap := (ns_heap st)[r := cm] @ [cur\<lparr>cm_data := cm_data cm\<rparr>], sc_cm := Some (length (ns_heap st))\<rparr>)
    (Some (cur\<lparr>cm_data := cm_data cm\<rparr>)) (phs[i := Answered (Done (reply 0 OKMsg []))])"
proof -
  let ?st = "st\<lparr>ns_heap := (ns_heap st)[r := cm]\<rparr>" and ?cur = "cur\<lparr>cm_data := cm_data cm\<rparr>"
  let ?st' = "?st\<lparr>ns_heap := (ns_heap st)[r := cm] @ [?cur], sc_cm := Some (length (ns_heap st))\<rparr>"
  have ok: "step_ok cd form env ph" if "\<forall>r c. ph \<noteq> Changed r c" for ph using assms(11) that by (simp add: step_ok_def)
  have "race cd timeout store0 es ?st (Some cur) (phs[i := InMemory r])"
    using race.edit [OF assms(1,6,2,3), of "InMemory r" "[]" ?st] assms(5,9) ok
    by (simp add: SetNsNodeSelectorConfigMapNsConfig_def cm_def)
  moreover have "CreateOrUpdateSchedulerPolicyConfigMap env cm = (Inr ?cur, [UpdateCM ?cur])"
    using assms(6,10) by (simp add: CreateOrUpdateSchedulerPolicyConfigMap_def answers_from_def selector_named_def cm_def Let_def)
  ultimately have "race cd timeout store0 es ?st (Some ?cur) (phs[i := Taken ?cur])"
    using race.edit [of cd timeout store0 es ?st "Some cur" "phs[i := InMemory r]" env i opr form "Taken ?cur" "[UpdateCM ?cur]" ?st]
      assms(2-4,6,8) ok by simp
  moreover define env2 where "env2 = env\<lparr>an_get := Inr (Some ?cur), an_current := (\<lambda>_ _. Inr ?cur)\<rparr>"
  moreover have "answers_from (Some ?cur) env2" "namespaces_or_empty env2 = namespaces_or_empty env"
    using assms(6) by (simp_all add: answers_from_def env2_def namespaces_or_empty_def)
  ultimately have "race cd timeout store0 es ?st' (Some ?cur) (phs[i := Answered (Done (reply 0 OKMsg []))])"
    using race.edit [of cd timeout store0 es ?st "Some ?cur" "phs[i := Taken ?cur]" env2 i opr form
      "Answered (Done (reply 0 OKMsg []))" "[]" ?st'] assms(2-4,11) by (simp add: cm_alloc_def step_ok_def)
  then show ?thesis by simp
qed

section \<open>Properties\<close>

text \<open>Two edits of the namespace \<open>ns\<close>, of different keys, and a codec for what they write.\<close>

definition sample_form2 :: edit_form where
  "sample_form2 = \<lparr>ef_namespace = ''ns'', ef_type = ''mustnotmatch'', ef_key = ''disk'', ef_value = ''hdd''\<rparr>"

definition sample_second_item :: ns_config_item where
  "sample_second_item = sample_edited_item\<lparr>ci_MustNotMatch := Some [(''old'', Some [(''*'', ())]), (''disk'', Some [(''hdd'', ())])]\<rparr>"

definition sample_race_codec :: ns_codec where
  "sample_race_codec = \<lparr>
     un_config = (\<lambda>s. if s = ''c4'' then Inr (Some [(''ns'', sample_second_item)]) else sample_decode2 s),
     en_config = (\<lambda>c. if c = [(''ns'', sample_second_item)] then ''c4'' else ''c2''), en_labels = (\<lambda>_. [])\<rparr>"

definition sample_edits :: "(string \<times> edit_form) list" where
  "sample_edits = [(''add'', sample_form), (''add'', sample_form2)]"

lemma sample_race_facts:
  "selector_named sample_cm" "cm_data sample_cm = Some [(nsnodeselector_itemname, ''c1'')]" "operation_ok ''add''"
  "edited_config (un_config sample_race_codec) (namespaces_or_empty sample_env) ''add'' sample_form sample_cm = Some [(''ns'', sample_edited_item)]"
  "edited_config (un_config sample_race_codec) (namespaces_or_empty sample_env) ''add'' sample_form2 sample_cm = Some [(''ns'', sample_second_item)]"
  "ef_namespace sample_form \<in> set (namespaces_or_empty sample_env)" "ef_namespace sample_form2 \<in> set (namespaces_or_empty sample_env)"
  "un_config sample_race_codec (config_text (Some sample_cm)) = Inr (Some [(''ns'', sample_ns_item)])"
  "en_config sample_race_codec [(''ns'', sample_edited_item)] = ''c2''"
  "en_config sample_race_codec [(''ns'', sample_second_item)] = ''c4''"
  by code_simp+

lemma sample_race_reads:
  "reads_back (un_config sample_race_codec) (en_config sample_race_codec) [(''ns'', sample_edited_item)]"
  "reads_back (un_config sample_race_codec) (en_config sample_race_codec) [(''ns'', sample_second_item)]"
  by (simp_all add: reads_back_def sample_race_facts(9,10)) (simp_all add: sample_race_codec_def sample_decode2_def)

lemma sample_race_rules:
  "store_rules (un_config sample_race_codec) (Some sample_cm) ''ns'' ''match'' ''zone'' = Some {''a'', ''b''}"
  "store_rules (un_config sample_race_codec) (Some sample_cm) ''ns'' ''mustnotmatch'' ''gpu'' = None"
  by (simp_all add: store_rules_def stored_cm_def sample_race_facts(8) rules_of_def item_in_force_def item_or_zero_def
      default_item_def sample_ns_item_def ListMapString_def)

text \<open>The first edit is stored while the second one holds a configuration without it.\<close>

lemma sample_race:
  "\<exists>st r2. race sample_race_codec 10 (Some sample_cm) sample_edits st (Some sample_edited_cm)
     [Answered (Done (reply 0 OKMsg [])), Changed r2 [(''ns'', sample_second_item)]]"
proof -
  obtain st r1 r2 where both: "race sample_race_codec 10 (Some sample_cm) sample_edits st (Some sample_cm)
      [Changed r1 [(''ns'', sample_edited_item)], Changed r2 [(''ns'', sample_second_item)]]"
    and heap: "ns_heap st ! r1 = sample_cm" "r1 < length (ns_heap st)"
    using both_changed [OF sample_race_facts(1) sample_answers(1) sample_race_facts(3,3,4,5) sample_race_reads sample_race_facts(6,7)]
    unfolding sample_edits_def by blast
  have "sample_cm\<lparr>cm_data := Some (gput nsnodeselector_itemname ''c2'' [(nsnodeselector_itemname, ''c1'')])\<rparr> = sample_edited_cm"
    by (simp add: sample_edited_cm_def)
  with edit_finishes [OF both, of 0 "''add''" sample_form r1 "[(''ns'', sample_edited_item)]" sample_env]
    sample_answers(1) sample_race_facts(1,2,6,9) heap
  show ?thesis by (auto simp: sample_edits_def sample_edited_cm_def)
qed

text \<open>
  C16 (invariant). However edits, other requests and checks of the predicate interleave inside the handlers, no rule
  comes from nowhere: every rule of the stored configuration, and of the copy that the predicate reads, is
  the initial one or the one some edit with that namespace, part and key sets. So edits that run at
  the same time do not disturb rules that none of them names, and the stored text always
  decodes. The edits name namespaces of the cluster, and the codec reads back what they write.
\<close>

theorem racing_edits_keep_other_rules:
  assumes "race cd timeout store0 es st store phs" and "un_config cd (config_text (Some (stored_cm store0))) = Inr dec"
  shows "(\<exists>dec. un_config cd (config_text (Some (stored_cm store))) = Inr dec) \<and>
    (\<forall>ns part k. store_rules (un_config cd) store ns part k \<in>
       insert (store_rules (un_config cd) store0 ns part k)
         ((\<lambda>(opr, form). edit_rules opr form (store_rules (un_config cd) store0) ns part k) ` set es)) \<and>
    (\<forall>r ns part k. ns_cached st = Some r \<longrightarrow>
       rules_of (un_config cd (config_text (Some (ns_heap st ! r)))) ns part k \<in>
         insert (store_rules (un_config cd) store0 ns part k)
           ((\<lambda>(opr, form). edit_rules opr form (store_rules (un_config cd) store0) ns part k) ` set es))"
proof -
  note inv = race_invariant [OF assms]
  have "possible es (store_rules (un_config cd) store0) (store_rules (un_config cd) store) \<and>
      (\<exists>dec. un_config cd (config_text (Some (stored_cm store))) = Inr dec)"
    using inv by (auto simp: race_inv_def text_ok_def store_rules_def)
  moreover have "possible es (store_rules (un_config cd) store0) (rules_of (un_config cd (config_text (Some (ns_heap st ! r)))))"
    if "ns_cached st = Some r" for r
  proof -
    have "ns_heap st ! r \<in> set (ns_heap st)" using inv that by (simp add: race_inv_def ns_wf_def)
    then have "text_ok cd es (store_rules (un_config cd) store0) (ns_heap st ! r)" using inv by (simp add: race_inv_def)
    then show ?thesis by (auto simp: text_ok_def)
  qed
  ultimately show ?thesis unfolding possible_def by blast
qed

lemma racing_edits_keep_other_rules_witness:
  "\<exists>st r2. race sample_race_codec 10 (Some sample_cm) sample_edits st (Some sample_edited_cm)
      [Answered (Done (reply 0 OKMsg [])), Changed r2 [(''ns'', sample_second_item)]] \<and>
    store_rules (un_config sample_race_codec) (Some sample_edited_cm) ''ns'' ''match'' ''zone'' = Some {''a'', ''b''}"
proof -
  obtain st r2 where run: "race sample_race_codec 10 (Some sample_cm) sample_edits st (Some sample_edited_cm)
      [Answered (Done (reply 0 OKMsg [])), Changed r2 [(''ns'', sample_second_item)]]"
    using sample_race by blast
  have dec: "un_config sample_race_codec (config_text (Some (stored_cm (Some sample_cm)))) = Inr (Some [(''ns'', sample_ns_item)])"
    using sample_race_facts(8) by (simp add: stored_cm_def)
  have "store_rules (un_config sample_race_codec) (Some sample_edited_cm) ''ns'' ''match'' ''zone'' \<in>
      insert (store_rules (un_config sample_race_codec) (Some sample_cm) ''ns'' ''match'' ''zone'')
        ((\<lambda>(opr, form). edit_rules opr form (store_rules (un_config sample_race_codec) (Some sample_cm)) ''ns'' ''match'' ''zone'') ` set sample_edits)"
    using racing_edits_keep_other_rules [OF run dec] by blast
  with run sample_race_rules(1) show ?thesis
    by (auto simp: sample_edits_def edit_rules_def sample_form_def sample_form2_def)
qed

text \<open>
  C35 (error). Two edits that run at the same time can both be answered with success while only one
  of them is stored: when both decode the configuration before either writes, the second one's text, made without
  the first edit, is stored last, and the rules are the initial ones with the second edit alone.
\<close>

theorem concurrent_edit_is_lost:
  assumes "selector_named cm" and "cm_data cm = Some d" and "answers_from (Some cm) env"
    and "operation_ok opr1" and "operation_ok opr2"
    and "edited_config (un_config cd) (namespaces_or_empty env) opr1 form1 cm = Some c1"
    and "edited_config (un_config cd) (namespaces_or_empty env) opr2 form2 cm = Some c2"
    and "reads_back (un_config cd) (en_config cd) c1" and "reads_back (un_config cd) (en_config cd) c2"
    and "ef_namespace form1 \<in> set (namespaces_or_empty env)" and "ef_namespace form2 \<in> set (namespaces_or_empty env)"
    and "un_config cd (config_text (Some cm)) = Inr dec"
  shows "\<exists>st store. race cd timeout (Some cm) [(opr1, form1), (opr2, form2)] st store
      [Answered (Done (reply 0 OKMsg [])), Answered (Done (reply 0 OKMsg []))] \<and>
    store_rules (un_config cd) store = edit_rules opr2 form2 (store_rules (un_config cd) (Some cm))"
proof -
  let ?es = "[(opr1, form1), (opr2, form2)]" and ?item = nsnodeselector_itemname
  obtain st r1 r2 where both: "race cd timeout (Some cm) ?es st (Some cm) [Changed r1 c1, Changed r2 c2]"
    and heap: "ns_heap st ! r1 = cm" "ns_heap st ! r2 = cm" "r1 < length (ns_heap st)" "r2 < length (ns_heap st)"
    using both_changed [OF assms(1,3-11)] by blast
  define cm1 where "cm1 = cm\<lparr>cm_data := Some (gput ?item (en_config cd c1) d)\<rparr>"
  define st1 where "st1 = st\<lparr>ns_heap := (ns_heap st)[r1 := cm1] @ [cm1], sc_cm := Some (length (ns_heap st))\<rparr>"
  have first: "race cd timeout (Some cm) ?es st1 (Some cm1) [Answered (Done (reply 0 OKMsg [])), Changed r2 c2]"
    using edit_finishes [OF both, of 0 opr1 form1 r1 c1 env d] assms(1-3,10) heap by (simp add: cm1_def st1_def)
  define env2 where "env2 = env\<lparr>an_get := Inr (Some cm1), an_current := (\<lambda>_ _. Inr cm1)\<rparr>"
  have env2: "answers_from (Some cm1) env2" "ef_namespace form2 \<in> set (namespaces_or_empty env2)"
    using assms(3,11) by (simp_all add: answers_from_def env2_def namespaces_or_empty_def)
  have r2: "r2 < length (ns_heap st1)" "selector_named (ns_heap st1 ! r2)" "selector_named cm1"
    using heap assms(1) by (auto simp: st1_def nth_append nth_list_update cm1_def selector_named_def)
  obtain d' where d': "cm_data (ns_heap st1 ! r2) = Some d'"
    using heap assms(2) by (cases "r1 = r2") (auto simp: st1_def nth_append nth_list_update cm1_def)
  let ?cm2 = "cm1\<lparr>cm_data := Some (gput ?item (en_config cd c2) d')\<rparr>"
  have "\<exists>st2. race cd timeout (Some cm) ?es st2 (Some ?cm2) [Answered (Done (reply 0 OKMsg [])), Answered (Done (reply 0 OKMsg []))]"
    using edit_finishes [OF first, of 1 opr2 form2 r2 c2 env2 d'] env2 r2 d' by (intro exI) simp
  moreover have "config_text (Some (stored_cm (Some ?cm2))) = en_config cd c2"
    using assms(9) by (intro written_text) (simp_all add: reads_back_def stored_cm_def)
  with edited_config_rules [OF assms(7,12,11)] reads_back_rules [OF assms(9)]
  have "store_rules (un_config cd) (Some ?cm2) = edit_rules opr2 form2 (store_rules (un_config cd) (Some cm))"
    by (simp add: store_rules_def stored_cm_def)
  ultimately show ?thesis by blast
qed

lemma concurrent_edit_is_lost_witness:
  "\<exists>st store. race sample_race_codec 10 (Some sample_cm) sample_edits st store
      [Answered (Done (reply 0 OKMsg [])), Answered (Done (reply 0 OKMsg []))] \<and>
    store_rules (un_config sample_race_codec) store ''ns'' ''mustnotmatch'' ''gpu'' = None \<and>
    store_rules (un_config sample_race_codec) store ''ns'' ''mustnotmatch'' ''disk'' = Some {''hdd''}"
proof -
  have v: "split_value ''hdd'' = [''hdd'']" by code_simp
  obtain st store where run: "race sample_race_codec 10 (Some sample_cm) sample_edits st store
      [Answered (Done (reply 0 OKMsg [])), Answered (Done (reply 0 OKMsg []))]"
    and rules: "store_rules (un_config sample_race_codec) store = edit_rules ''add'' sample_form2 (store_rules (un_config sample_race_codec) (Some sample_cm))"
    using concurrent_edit_is_lost [OF sample_race_facts(1,2) sample_answers(1) sample_race_facts(3,3,4,5) sample_race_reads
      sample_race_facts(6,7,8)]
    unfolding sample_edits_def by blast
  have "store_rules (un_config sample_race_codec) store ''ns'' ''mustnotmatch'' ''gpu'' = None"
    "store_rules (un_config sample_race_codec) store ''ns'' ''mustnotmatch'' ''disk'' = Some {''hdd''}"
    by (simp_all add: rules edit_rules_def sample_form2_def v sample_race_rules(2))
  with run show ?thesis by blast
qed

end
