(* ===== verification/Workers.thy ===== *)
theory Workers
  imports ApiTypes
begin

text \<open>
  The fan-out both priorities share (\<^verbatim>\<open>NodesScoring\<close>): one goroutine for each node, a mutex
  around the list of errors, a slot of the result for each goroutine and a wait group.  A
  job is what one goroutine does: the errors it reports, in order, and the value it writes.
  The interleavings are a step relation; whatever the order, the slots are those of the
  sequential run, the errors are the same up to order, and the wait ends.
\<close>

section \<open>Goroutines\<close>

datatype status = Unborn | Running "error list" | Finished

type_synonym 'a job = "error list \<times> 'a"

record 'a pool =
  pl_spawned :: nat
  pl_wg :: nat               \<comment> \<open>the counter of the wait group\<close>
  pl_status :: "status list"
  pl_slots :: "'a list"
  pl_errs :: "error list"

definition pool_init :: "'a \<Rightarrow> 'a job list \<Rightarrow> 'a pool" where
  "pool_init zero js = \<lparr>pl_spawned = 0, pl_wg = 0, pl_status = replicate (length js) Unborn,
     pl_slots = replicate (length js) zero, pl_errs = []\<rparr>"

text \<open>
  The steps: the caller's loop adds to the wait group and starts the next goroutine; a
  goroutine reports an error under the mutex; a goroutine writes its slot and is done.
\<close>

inductive pool_step :: "'a job list \<Rightarrow> 'a pool \<Rightarrow> 'a pool \<Rightarrow> bool" for js where
  spawn: "pl_spawned s < length js \<Longrightarrow>
    pool_step js s (s\<lparr>pl_wg := pl_wg s + 1, pl_spawned := Suc (pl_spawned s),
      pl_status := (pl_status s)[pl_spawned s := Running (fst (js ! pl_spawned s))]\<rparr>)"
| report: "i < length js \<Longrightarrow> pl_status s ! i = Running (e # es) \<Longrightarrow>
    pool_step js s (s\<lparr>pl_errs := pl_errs s @ [e], pl_status := (pl_status s)[i := Running es]\<rparr>)"
| finish: "i < length js \<Longrightarrow> pl_status s ! i = Running [] \<Longrightarrow>
    pool_step js s (s\<lparr>pl_slots := (pl_slots s)[i := snd (js ! i)],
      pl_status := (pl_status s)[i := Finished], pl_wg := pl_wg s - 1\<rparr>)"

inductive pool_reach :: "'a \<Rightarrow> 'a job list \<Rightarrow> 'a pool \<Rightarrow> bool" for zero js where
  start: "pool_reach zero js (pool_init zero js)"
| step: "pool_reach zero js s \<Longrightarrow> pool_step js s s' \<Longrightarrow> pool_reach zero js s'"

inductive_cases pool_stepE: "pool_step js s s'"

text \<open>\<^verbatim>\<open>wg.Wait()\<close> returns to the caller, which has started all goroutines.\<close>

definition waits_over :: "'a job list \<Rightarrow> 'a pool \<Rightarrow> bool" where
  "waits_over js s \<longleftrightarrow> pl_spawned s = length js \<and> pl_wg s = 0"

section \<open>The invariant\<close>

fun is_running :: "status \<Rightarrow> bool" where
  "is_running (Running es) = True"
| "is_running _ = False"

text \<open>The errors a goroutine has still to report.\<close>

fun unreported :: "'a job \<Rightarrow> status \<Rightarrow> error list" where
  "unreported j Unborn = fst j"
| "unreported j (Running es) = es"
| "unreported j Finished = []"

definition running :: "'a job list \<Rightarrow> status list \<Rightarrow> nat set" where
  "running js st = {i. i < length js \<and> is_running (st ! i)}"

definition left_errors :: "'a job list \<Rightarrow> status list \<Rightarrow> error multiset" where
  "left_errors js st = (\<Sum>i<length js. mset (unreported (js ! i) (st ! i)))"

definition pool_inv :: "'a job list \<Rightarrow> 'a pool \<Rightarrow> bool" where
  "pool_inv js s \<longleftrightarrow>
     length (pl_status s) = length js \<and> length (pl_slots s) = length js \<and>
     pl_spawned s \<le> length js \<and>
     (\<forall>i < length js. pl_status s ! i = Unborn \<longleftrightarrow> pl_spawned s \<le> i) \<and>
     (\<forall>i < length js. pl_status s ! i = Finished \<longrightarrow> pl_slots s ! i = snd (js ! i)) \<and>
     pl_wg s = card (running js (pl_status s)) \<and>
     mset (pl_errs s) + left_errors js (pl_status s) = (\<Sum>i<length js. mset (fst (js ! i)))"

lemma sum_update:
  fixes f g :: "nat \<Rightarrow> 'b :: comm_monoid_add"
  assumes "i < n" and "\<And>j. j < n \<Longrightarrow> j \<noteq> i \<Longrightarrow> f j = g j"
  shows "(\<Sum>j<n. f j) = f i + (\<Sum>j \<in> {..<n} - {i}. g j)" and "(\<Sum>j<n. g j) = g i + (\<Sum>j \<in> {..<n} - {i}. g j)"
proof -
  have "(\<Sum>j<n. f j) = f i + (\<Sum>j \<in> {..<n} - {i}. f j)"
    using assms(1) by (simp add: sum.remove)
  also have "(\<Sum>j \<in> {..<n} - {i}. f j) = (\<Sum>j \<in> {..<n} - {i}. g j)"
    using assms(2) by (intro sum.cong) auto
  finally show "(\<Sum>j<n. f j) = f i + (\<Sum>j \<in> {..<n} - {i}. g j)" .
  show "(\<Sum>j<n. g j) = g i + (\<Sum>j \<in> {..<n} - {i}. g j)"
    using assms(1) by (simp add: sum.remove)
qed

lemma left_errors_update:
  assumes "i < length js" and "length st = length js"
  shows "left_errors js (st[i := x]) + mset (unreported (js ! i) (st ! i)) =
    left_errors js st + mset (unreported (js ! i) x)"
  using sum_update [of i "length js" "\<lambda>j. mset (unreported (js ! j) (st[i := x] ! j))"
      "\<lambda>j. mset (unreported (js ! j) (st ! j))"] assms
  by (simp add: left_errors_def ac_simps)

lemma running_update:
  assumes "i < length js" and "length st = length js"
  shows "running js (st[i := x]) = (if is_running x then insert i (running js st) else running js st - {i})"
  using assms by (auto simp: running_def nth_list_update split: if_splits)

lemma running_iff: "i < length js \<Longrightarrow> i \<in> running js st \<longleftrightarrow> is_running (st ! i)"
  by (simp add: running_def)

lemma finite_running [simp]: "finite (running js st)"
  by (simp add: running_def)

lemma pool_inv_init: "pool_inv js (pool_init zero js)"
  by (simp add: pool_inv_def pool_init_def running_def left_errors_def)

lemma pool_inv_step:
  assumes "pool_inv js s" and "pool_step js s s'"
  shows "pool_inv js s'"
  using assms(2)
proof (cases rule: pool_step.cases)
  case spawn
  let ?i = "pl_spawned s"
  have un: "pl_status s ! ?i = Unborn" and len: "length (pl_status s) = length js"
    using assms(1) spawn by (simp_all add: pool_inv_def)
  have "left_errors js ((pl_status s)[?i := Running (fst (js ! ?i))]) = left_errors js (pl_status s)"
    using left_errors_update [OF spawn(2) len, of "Running (fst (js ! ?i))"] by (simp add: un)
  moreover have "?i \<notin> running js (pl_status s)" using spawn by (simp add: running_iff un)
  ultimately show ?thesis
    using assms(1) spawn len by (auto simp: pool_inv_def running_update nth_list_update)
next
  case (report i e es)
  have len: "length (pl_status s) = length js" using assms(1) by (simp add: pool_inv_def)
  have "mset (pl_errs s @ [e]) + left_errors js ((pl_status s)[i := Running es]) =
      mset (pl_errs s) + left_errors js (pl_status s)"
    using left_errors_update [OF report(2) len, of "Running es"] report by simp
  moreover have "insert i (running js (pl_status s)) = running js (pl_status s)"
    using report by (simp add: insert_absorb running_iff)
  ultimately show ?thesis
    using assms(1) report len by (auto simp: pool_inv_def running_update nth_list_update simp del: mset_append)
next
  case (finish i)
  have len: "length (pl_status s) = length js" using assms(1) by (simp add: pool_inv_def)
  have "left_errors js ((pl_status s)[i := Finished]) = left_errors js (pl_status s)"
    using left_errors_update [OF finish(2) len, of Finished] finish by simp
  moreover have "i \<in> running js (pl_status s)" using finish by (simp add: running_iff)
  ultimately show ?thesis
    using assms(1) finish len by (auto simp: pool_inv_def running_update nth_list_update)
qed

lemma pool_reach_inv: "pool_reach zero js s \<Longrightarrow> pool_inv js s"
  by (induction rule: pool_reach.induct) (auto intro: pool_inv_init pool_inv_step)

section \<open>Every interleaving ends with the sequential result\<close>

lemma sum_mset_concat: "(\<Sum>i<length js. mset (fst (js ! i))) = mset (concat (map fst js))"
proof (induction js)
  case (Cons j js)
  have "(\<Sum>i<Suc (length js). mset (fst ((j # js) ! i))) = mset (fst j) + (\<Sum>i<length js. mset (fst (js ! i)))"
    by (subst sum.lessThan_Suc_shift) simp
  with Cons show ?case by simp
qed simp

lemma pool_over:
  assumes "pool_inv js s" and "waits_over js s"
  shows "pl_slots s = map snd js \<and> mset (pl_errs s) = mset (concat (map fst js))"
proof -
  have "running js (pl_status s) = {}" using assms by (simp add: pool_inv_def waits_over_def)
  then have none: "\<not> is_running (pl_status s ! i)" if "i < length js" for i
    using that running_iff [of i js "pl_status s"] by simp
  have fin: "pl_status s ! i = Finished" if "i < length js" for i
    using none [OF that] that assms by (cases "pl_status s ! i") (auto simp: pool_inv_def waits_over_def)
  then have "left_errors js (pl_status s) = {#}" by (simp add: left_errors_def)
  with fin assms(1) show ?thesis
    by (simp add: pool_inv_def sum_mset_concat list_eq_iff_nth_eq)
qed

text \<open>What is left to do: each goroutine has its errors to report, to be started and to finish.\<close>

fun work_left :: "'a job \<Rightarrow> status \<Rightarrow> nat" where
  "work_left j Unborn = length (fst j) + 2"
| "work_left j (Running es) = length es + 1"
| "work_left j Finished = 0"

definition pool_work :: "'a job list \<Rightarrow> 'a pool \<Rightarrow> nat" where
  "pool_work js s = (\<Sum>i<length js. work_left (js ! i) (pl_status s ! i))"

lemma work_update:
  assumes "i < length js" and "length st = length js" and "work_left (js ! i) x < work_left (js ! i) (st ! i)"
  shows "(\<Sum>j<length js. work_left (js ! j) (st[i := x] ! j)) < (\<Sum>j<length js. work_left (js ! j) (st ! j))"
  using sum_update [of i "length js" "\<lambda>j. work_left (js ! j) (st[i := x] ! j)" "\<lambda>j. work_left (js ! j) (st ! j)"]
    assms
  by simp

lemma pool_work_decreases:
  assumes "pool_inv js s" and "pool_step js s s'"
  shows "pool_work js s' < pool_work js s"
  using assms(2)
proof (cases rule: pool_step.cases)
  case spawn
  have un: "pl_status s ! pl_spawned s = Unborn" and len: "length (pl_status s) = length js"
    using assms(1) spawn by (simp_all add: pool_inv_def)
  have "work_left (js ! pl_spawned s) (Running (fst (js ! pl_spawned s))) <
      work_left (js ! pl_spawned s) (pl_status s ! pl_spawned s)"
    by (simp add: un)
  from work_update [OF spawn(2) len this] show ?thesis by (simp add: pool_work_def spawn)
qed (use assms(1) in \<open>simp_all add: pool_inv_def pool_work_def work_update\<close>)

lemma pool_progress:
  assumes "pool_inv js s" and "\<not> waits_over js s"
  shows "\<exists>s'. pool_step js s s'"
proof (cases "pl_spawned s < length js")
  case True
  then show ?thesis by (blast intro: pool_step.spawn)
next
  case False
  with assms have "pl_spawned s = length js" by (simp add: pool_inv_def)
  with assms have "running js (pl_status s) \<noteq> {}"
    by (auto simp: pool_inv_def waits_over_def)
  then obtain i where i: "i < length js" "is_running (pl_status s ! i)" by (auto simp: running_def)
  then obtain es where es: "pl_status s ! i = Running es" by (cases "pl_status s ! i") auto
  show ?thesis
  proof (cases es)
    case Nil
    with i es show ?thesis using pool_step.finish [of i js s] by blast
  next
    case (Cons e es')
    with i es show ?thesis using pool_step.report [of i js s e es'] by blast
  qed
qed

end
