(* ===== verification/Prioritize.thy ===== *)
theory Prioritize
  imports Registry Workers
begin

text \<open>
  \<^verbatim>\<open>pkg/algorithm/prioritize/prioritize.go\<close>: the registry of priorities, the scoring handler and
  its route, and the \<^verbatim>\<open>NodesScoring\<close> that its two priorities share: the scores of the
  nodes from one goroutine each (theory \<open>Workers\<close>), then a reduction.
\<close>

section \<open>Scores\<close>

record host_priority =
  hp_host :: string
  hp_score :: int64      \<comment> \<open>\<^verbatim>\<open>int\<close>\<close>

definition zero_priority :: host_priority where
  "zero_priority = \<lparr>hp_host = [], hp_score = 0\<rparr>"

section \<open>The registry\<close>

text \<open>
  As in package \<^verbatim>\<open>predicate\<close>.  \<open>q_score\<close> is \<^verbatim>\<open>NodesScoring\<close>: the list and the error it returns
  together, or a panic in one of its goroutines.
\<close>

record prioritize =
  q_name :: string
  q_init :: "error option"
  q_started :: bool
  q_synced :: bool
  q_score :: "pod option \<Rightarrow> node list \<Rightarrow> (host_priority list \<times> error option) outcome"

record prioritize_state =
  prioritizeList :: "prioritize list"
  q_inited :: bool

definition init_prioritizes :: prioritize_state where
  "init_prioritizes = \<lparr>prioritizeList = [], q_inited = False\<rparr>"

definition prioritize_Regist :: "prioritize \<Rightarrow> prioritize_state \<Rightarrow> error option \<times> prioritize_state" where
  "prioritize_Regist p st =
     (if q_name p = [] then (Some EmptyName, st)
      else if q_name p \<in> set (map q_name (prioritizeList st)) then (Some AlreadyRegistered, st)
      else (None, st\<lparr>prioritizeList := prioritizeList st @ [p]\<rparr>))"

fun q_ready_loop :: "prioritize list \<Rightarrow> bool outcome" where
  "q_ready_loop [] = Done True"
| "q_ready_loop (p # ps) =
     (if \<not> q_started p then Panic else if q_synced p = False then Done False else q_ready_loop ps)"

definition prioritize_Ready :: "prioritize_state \<Rightarrow> bool outcome" where
  "prioritize_Ready st = (if q_inited st = False then Done False else q_ready_loop (prioritizeList st))"

fun q_init_loop :: "prioritize list \<Rightarrow> error option \<times> prioritize list" where
  "q_init_loop [] = (None, [])"
| "q_init_loop (p # ps) =
     (case q_init p of
        Some err \<Rightarrow> (Some (InitFailed (q_name p) err), p # ps)
      | None \<Rightarrow> (case q_init_loop ps of (e, ps') \<Rightarrow> (e, p\<lparr>q_started := True\<rparr> # ps')))"

definition prioritize_Init :: "prioritize_state \<Rightarrow> error option \<times> prioritize_state" where
  "prioritize_Init st =
     (case q_init_loop (prioritizeList st) of
        (Some err, ps) \<Rightarrow> (Some err, st\<lparr>prioritizeList := ps\<rparr>)
      | (None, ps) \<Rightarrow> (None, st\<lparr>prioritizeList := ps, q_inited := True\<rparr>))"

definition prioritiesPrefix :: string where
  "prioritiesPrefix = ''priorities''"

definition prioritize_InstallHttpServer :: "string \<Rightarrow> prioritize_state \<Rightarrow> error + string list" where
  "prioritize_InstallHttpServer apiPrefix st =
     (if q_inited st = False then Inl NotInited
      else Inr (map (\<lambda>p. route_path apiPrefix prioritiesPrefix (q_name p)) (prioritizeList st)))"

lemma q_init_loop_names: "map q_name (snd (q_init_loop ps)) = map q_name ps"
  by (induction ps) (auto split: option.splits prod.splits)

interpretation prios: plugin_service "\<lambda>st. map q_name (prioritizeList st)" q_name prioritize_Regist
  q_inited prioritize_Init prioritize_Ready prioritize_InstallHttpServer prioritiesPrefix
proof unfold_locales
  fix st :: prioritize_state
  show "map q_name (prioritizeList (snd (prioritize_Init st))) = map q_name (prioritizeList st)"
    using q_init_loop_names [of "prioritizeList st"]
    by (auto simp: prioritize_Init_def split: option.splits prod.splits)
qed (auto simp: prioritize_Regist_def prioritize_Init_def prioritize_Ready_def prioritize_InstallHttpServer_def
  split: option.splits prod.splits)

section \<open>The handler and its route\<close>

text \<open>
  \<^verbatim>\<open>args.Nodes.Items\<close> on a nil \<^verbatim>\<open>Nodes\<close> panics in the handler; a panic of a scoring goroutine
  ends the process.
\<close>

definition Prioritize_Handler ::
  "(pod option \<Rightarrow> node list \<Rightarrow> (host_priority list \<times> error option) outcome) \<Rightarrow> extender_args \<Rightarrow>
   (host_priority list \<times> error option) outcome outcome" where
  "Prioritize_Handler score args =
     (case ea_nodes args of
        None \<Rightarrow> Panic
      | Some items \<Rightarrow> Done (score (ea_pod args) items))"

definition prioritieRoute ::
  "(string \<Rightarrow> error + extender_args) \<Rightarrow> (host_priority list \<Rightarrow> error + 'b) \<Rightarrow>
   (pod option \<Rightarrow> node list \<Rightarrow> (host_priority list \<times> error option) outcome) \<Rightarrow> string option \<Rightarrow> 'b http_result"
where
  "prioritieRoute decode encode score body =
     (case body of
        None \<Rightarrow> BadRequest ''Please send a request body''
      | Some text \<Rightarrow>
          (case decode text of
             Inl err \<Rightarrow> Crashed
           | Inr extenderArgs \<Rightarrow>
               (case Prioritize_Handler score extenderArgs of
                  Panic \<Rightarrow> Crashed
                | Done Panic \<Rightarrow> ProcessExit
                | Done (Done (list, Some err)) \<Rightarrow> Crashed
                | Done (Done (list, None)) \<Rightarrow>
                    (case encode list of Inl err \<Rightarrow> Crashed | Inr resultBody \<Rightarrow> Ok200 resultBody))))"

section \<open>NodesScoring\<close>

text \<open>
  After the wait: the collected errors as an aggregate, or the reduced list.  The reductions
  of both priorities return a nil error.
\<close>

definition after_wait ::
  "(host_priority list \<Rightarrow> host_priority list) \<Rightarrow> host_priority list \<Rightarrow> error list \<Rightarrow>
   host_priority list \<times> error option" where
  "after_wait reduce priorityList errs =
     (if length errs \<noteq> 0 then (priorityList, Some (Aggregate errs)) else (reduce priorityList, None))"

text \<open>
  The whole function with the goroutines in the order of the nodes.  Every goroutine reads
  the pod's fields, so a nil pod panics as soon as there is a node.
\<close>

definition scoring_jobs :: "(pod \<Rightarrow> node \<Rightarrow> host_priority job) \<Rightarrow> pod \<Rightarrow> node list \<Rightarrow> host_priority job list" where
  "scoring_jobs mapScore pd nodes = map (mapScore pd) nodes"

definition NodesScoring ::
  "(pod \<Rightarrow> node \<Rightarrow> host_priority job) \<Rightarrow> (host_priority list \<Rightarrow> host_priority list) \<Rightarrow>
   pod option \<Rightarrow> node list \<Rightarrow> (host_priority list \<times> error option) outcome" where
  "NodesScoring mapScore reduce pd nodes =
     (case pd of
        None \<Rightarrow> if nodes = [] then Done (after_wait reduce [] []) else Panic
      | Some q \<Rightarrow>
          (let js = scoring_jobs mapScore q nodes
           in Done (after_wait reduce (map snd js) (concat (map fst js)))))"

text \<open>The same with the goroutines interleaved in any way.\<close>

definition scoring_run ::
  "(pod \<Rightarrow> node \<Rightarrow> host_priority job) \<Rightarrow> (host_priority list \<Rightarrow> host_priority list) \<Rightarrow>
   pod \<Rightarrow> node list \<Rightarrow> host_priority list \<times> error option \<Rightarrow> bool" where
  "scoring_run mapScore reduce pd nodes r \<longleftrightarrow>
     (\<exists>s. pool_reach zero_priority (scoring_jobs mapScore pd nodes) s \<and>
          waits_over (scoring_jobs mapScore pd nodes) s \<and> r = after_wait reduce (pl_slots s) (pl_errs s))"

lemma scoring_run_result:
  assumes "scoring_run mapScore reduce pd nodes (list, err)"
    and "NodesScoring mapScore reduce (Some pd) nodes = Done (list', err')"
  shows "list = list' \<and>
    (err = None \<and> err' = None \<or>
     (\<exists>es es'. err = Some (Aggregate es) \<and> err' = Some (Aggregate es') \<and> mset es = mset es'))"
proof -
  let ?js = "scoring_jobs mapScore pd nodes"
  from assms(1) obtain s where run: "pool_reach zero_priority ?js s" and over: "waits_over ?js s"
    and r: "(list, err) = after_wait reduce (pl_slots s) (pl_errs s)"
    by (auto simp: scoring_run_def)
  from pool_over [OF pool_reach_inv [OF run] over]
  have s: "pl_slots s = map snd ?js" "mset (pl_errs s) = mset (concat (map fst ?js))" by simp_all
  then have "pl_errs s = [] \<longleftrightarrow> concat (map fst ?js) = []" by (metis mset_zero_iff)
  with assms(2) r s show ?thesis
    by (auto simp: NodesScoring_def Let_def after_wait_def split: if_splits)
qed

end
