(* ===== verification/Float64.thy ===== *)
theory Float64
  imports Complex_Main "HOL-Library.Log_Nat"
begin

text \<open>
  The float64 arithmetic of the priorities.  A value is the rational it stands for; each
  operation is the exact result rounded to 53 significant bits, ties to even.  The program's
  operands are int64 values, products of them with 100 and quotients of these, so no result
  overflows, is subnormal or is not a number, and the exponent range needs no model.
\<close>

section \<open>Rounding\<close>

definition rne :: "rat \<Rightarrow> int" where
  "rne y = (let f = \<lfloor>y\<rfloor>; r = y - of_int f
            in if r < 1 / 2 then f else if 1 / 2 < r then f + 1 else if even f then f else f + 1)"

text \<open>\<open>2\<close> to an integer power, and the exponent \<open>k\<close> of a positive rational: \<open>2^k \<le> x < 2^(k+1)\<close>.\<close>

definition pow2 :: "int \<Rightarrow> rat" where
  "pow2 e = (if 0 \<le> e then 2 ^ nat e else 1 / 2 ^ nat (- e))"

definition exponent_of :: "rat \<Rightarrow> int" where
  "exponent_of x =
     (case quotient_of x of (n, d) \<Rightarrow>
        let k = bitlen n - bitlen d in if pow2 k \<le> x then k else k - 1)"

definition fl :: "rat \<Rightarrow> rat" where
  "fl x = (if x = 0 then 0
           else let e = exponent_of \<bar>x\<bar> - 52 in of_int (rne (x / pow2 e)) * pow2 e)"

lemma rne_int [simp]: "rne (of_int i) = i"
  by (simp add: rne_def)

lemma rne_error: "\<bar>of_int (rne y) - y\<bar> \<le> 1 / 2"
proof -
  have "of_int \<lfloor>y\<rfloor> \<le> y" and "y < of_int \<lfloor>y\<rfloor> + 1" by linarith+
  then show ?thesis by (auto simp: rne_def Let_def)
qed

lemma rne_mono: "x \<le> y \<Longrightarrow> rne x \<le> rne y"
proof -
  assume le: "x \<le> y"
  then have fl: "\<lfloor>x\<rfloor> \<le> \<lfloor>y\<rfloor>" by (rule floor_mono)
  have up: "rne x \<le> \<lfloor>x\<rfloor> + 1" and lo: "\<lfloor>y\<rfloor> \<le> rne y" by (simp_all add: rne_def Let_def)
  show ?thesis
  proof (cases "\<lfloor>x\<rfloor> = \<lfloor>y\<rfloor>")
    case True
    with le show ?thesis by (auto simp: rne_def Let_def)
  next
    case False
    with fl up lo show ?thesis by linarith
  qed
qed

lemma pow2_pos [simp]: "0 < pow2 e"
  by (simp add: pow2_def)

lemma pow2_nonneg [simp]: "0 \<le> pow2 e" "pow2 e \<noteq> 0"
  by (simp_all add: pow2_def)

lemma pow2_powi: "pow2 e = 2 powi e"
  by (simp add: pow2_def power_int_def inverse_eq_divide power_one_over)

lemma pow2_add: "pow2 (a + b) = pow2 a * pow2 b"
  by (simp add: pow2_powi power_int_add)

lemma pow2_nat [simp]: "pow2 (int n) = 2 ^ n"
  by (simp add: pow2_def)

lemma pow2_mono: "a \<le> b \<Longrightarrow> pow2 a \<le> pow2 b"
  by (simp add: pow2_powi power_int_increasing)

lemma bitlen_between: "0 < n \<Longrightarrow> pow2 (bitlen n - 1) \<le> of_int n \<and> of_int n < pow2 (bitlen n)"
proof -
  assume n: "0 < n"
  then have b: "1 \<le> bitlen n" by (simp add: bitlen_ge_iff_power)
  from bitlen_bounds [OF n] have "2 ^ nat (bitlen n - 1) \<le> n" "n < 2 ^ nat (bitlen n)" by simp_all
  then have "(of_int (2 ^ nat (bitlen n - 1)) :: rat) \<le> of_int n" "(of_int n :: rat) < of_int (2 ^ nat (bitlen n))"
    by (simp_all only: of_int_le_iff of_int_less_iff)
  with b show ?thesis by (simp add: pow2_def)
qed

lemma exponent_of_bounds:
  assumes "0 < x"
  shows "pow2 (exponent_of x) \<le> x \<and> x < pow2 (exponent_of x + 1)"
proof -
  obtain n d where q: "quotient_of x = (n, d)" by (cases "quotient_of x")
  then have d: "0 < d" and x: "x = of_int n / of_int d"
    by (simp_all add: quotient_of_denom_pos quotient_of_div)
  with assms have n: "0 < n" by (simp add: zero_less_divide_iff)
  let ?k = "bitlen n - bitlen d"
  have nb: "pow2 (bitlen n - 1) \<le> of_int n" "of_int n < pow2 (bitlen n)"
    and db: "pow2 (bitlen d - 1) \<le> of_int d" "of_int d < pow2 (bitlen d)"
    using bitlen_between [OF n] bitlen_between [OF d] by simp_all
  have "pow2 (?k - 1) * of_int d \<le> pow2 (?k - 1) * pow2 (bitlen d)"
    using db by (intro mult_left_mono) simp_all
  also have "\<dots> = pow2 (bitlen n - 1)" by (simp flip: pow2_add)
  finally have lo: "pow2 (?k - 1) \<le> x"
    using nb d by (simp add: x field_simps)
  have "of_int n < pow2 (bitlen n)" by (rule nb)
  also have "\<dots> = pow2 (?k + 1) * pow2 (bitlen d - 1)" by (simp flip: pow2_add)
  also have "\<dots> \<le> pow2 (?k + 1) * of_int d" using db by (intro mult_left_mono) simp_all
  finally have hi: "x < pow2 (?k + 1)" using d by (simp add: x field_simps)
  from lo hi show ?thesis by (simp add: exponent_of_def q Let_def)
qed

lemma exponent_of_unique: "pow2 k \<le> x \<Longrightarrow> x < pow2 (k + 1) \<Longrightarrow> exponent_of x = k"
proof -
  assume k: "pow2 k \<le> x" "x < pow2 (k + 1)"
  have "0 < pow2 k" by simp
  with k have "0 < x" by linarith
  note e = exponent_of_bounds [OF this]
  have "\<not> exponent_of x + 1 \<le> k" using e k pow2_mono [of "exponent_of x + 1" k] by linarith
  moreover have "\<not> k + 1 \<le> exponent_of x" using e k pow2_mono [of "k + 1" "exponent_of x"] by linarith
  ultimately show ?thesis by linarith
qed

lemma exponent_of_mono: "0 < x \<Longrightarrow> x \<le> y \<Longrightarrow> exponent_of x \<le> exponent_of y"
proof (rule ccontr)
  assume "0 < x" "x \<le> y" "\<not> exponent_of x \<le> exponent_of y"
  then have "exponent_of y + 1 \<le> exponent_of x" by linarith
  from pow2_mono [OF this] exponent_of_bounds [of x] exponent_of_bounds [of y] \<open>0 < x\<close> \<open>x \<le> y\<close>
  show False by linarith
qed

section \<open>Facts about rounding\<close>

lemma fl_zero [simp]: "fl 0 = 0"
  by (simp add: fl_def)

lemma fl_pos: "0 < x \<Longrightarrow> fl x = of_int (rne (x / pow2 (exponent_of x - 52))) * pow2 (exponent_of x - 52)"
  by (simp add: fl_def Let_def)

text \<open>The relative error is at most \<open>2^(-53)\<close>.\<close>

lemma fl_error:
  assumes "0 \<le> x"
  shows "\<bar>fl x - x\<bar> \<le> x / 2 ^ 53"
proof (cases "x = 0")
  case False
  with assms have x: "0 < x" by simp
  let ?p = "pow2 (exponent_of x - 52)"
  have "fl x - x = (of_int (rne (x / ?p)) - x / ?p) * ?p"
    by (simp add: fl_pos [OF x] left_diff_distrib)
  then have "\<bar>fl x - x\<bar> = \<bar>of_int (rne (x / ?p)) - x / ?p\<bar> * ?p"
    by (simp add: abs_mult)
  also have "\<dots> \<le> 1 / 2 * ?p"
    by (rule mult_right_mono [OF rne_error]) simp
  also have "\<dots> = pow2 (exponent_of x) / 2 ^ 53"
  proof -
    have "pow2 (exponent_of x) = pow2 (exponent_of x - 52 + int 52)" by simp
    also have "\<dots> = ?p * 2 ^ 52" by (simp only: pow2_add pow2_nat)
    finally show ?thesis by simp
  qed
  also have "\<dots> \<le> x / 2 ^ 53"
    using exponent_of_bounds [OF x] by (intro divide_right_mono) simp_all
  finally show ?thesis .
qed simp

lemma fl_bounds:
  "0 \<le> x \<Longrightarrow> x - x / 2 ^ 53 \<le> fl x" "0 \<le> x \<Longrightarrow> fl x \<le> x + x / 2 ^ 53"
  using fl_error [of x] by linarith+

lemma fl_below_101:
  assumes "0 \<le> x" and "x \<le> 201 / 2"
  shows "fl x < 101"
proof -
  have p53: "(2 :: rat) ^ 53 = 9007199254740992" by simp
  show ?thesis using fl_bounds(2) [OF assms(1), unfolded p53] assms(2) by linarith
qed

lemma fl_nonneg: "0 \<le> x \<Longrightarrow> 0 \<le> fl x"
  using fl_bounds(1) [of x] by simp

lemma fl_positive: "0 < x \<Longrightarrow> 0 < fl x"
  using fl_bounds(1) [of x] by simp

text \<open>Integers of at most 53 bits are values.\<close>

lemma fl_of_int:
  assumes "0 \<le> i" and "i \<le> 2 ^ 53"
  shows "fl (of_int i) = of_int i"
proof (cases "i = 0")
  case False
  with assms have i: "0 < i" by simp
  let ?e = "exponent_of (of_int i)"
  have "fl (of_int i) = of_int (rne (of_int i / pow2 (?e - 52))) * pow2 (?e - 52)"
    using i by (simp add: fl_pos)
  show ?thesis
  proof (cases "i = 2 ^ 53")
    case True
    have "exponent_of (of_int i) = 53"
      by (rule exponent_of_unique) (simp_all add: True pow2_def)
    then show ?thesis using i by (simp add: fl_pos True pow2_def rne_def Let_def)
  next
    case False
    with assms have "i < 2 ^ 53" by simp
    then have "(of_int i :: rat) < of_int (2 ^ 53)" by (simp only: of_int_less_iff)
    then have "(of_int i :: rat) < pow2 53" by (simp add: pow2_def)
    with exponent_of_bounds [of "of_int i"] i have "pow2 ?e < pow2 53" by simp
    then have "?e \<le> 52" using pow2_mono [of 53 ?e] by linarith
    then have quot: "of_int i / pow2 (?e - 52) = of_int (i * 2 ^ nat (52 - ?e))"
      by (simp add: pow2_def)
    then have "fl (of_int i) = of_int (i * 2 ^ nat (52 - ?e)) * pow2 (?e - 52)"
      using i by (simp only: fl_pos of_int_0_less_iff rne_int)
    also have "\<dots> = of_int i" by (simp only: quot [symmetric]) simp
    finally show ?thesis .
  qed
qed simp

lemma fl_mono:
  assumes "0 \<le> x" and "x \<le> y"
  shows "fl x \<le> fl y"
proof (cases "x = 0")
  case True
  with assms show ?thesis by (simp add: fl_nonneg)
next
  case False
  with assms have x: "0 < x" and y: "0 < y" by simp_all
  let ?e = "exponent_of x" and ?f = "exponent_of y"
  show ?thesis
  proof (cases "?e = ?f")
    case True
    have "x / pow2 (?f - 52) \<le> y / pow2 (?f - 52)"
      using assms by (intro divide_right_mono) (simp_all add: less_imp_le)
    then have "(of_int (rne (x / pow2 (?f - 52))) :: rat) \<le> of_int (rne (y / pow2 (?f - 52)))"
      by (simp add: rne_mono)
    then show ?thesis
      by (simp add: fl_pos [OF x] fl_pos [OF y] True mult_right_mono less_imp_le)
  next
    case False
    with exponent_of_mono [OF x assms(2)] have lt: "?e + 1 \<le> ?f" by linarith
    have "x / pow2 (?e - 52) \<le> of_int (2 ^ 53)"
    proof -
      have "x < pow2 (?e - 52 + int 53)" using exponent_of_bounds [OF x] by (simp add: add.commute)
      also have "\<dots> = pow2 (?e - 52) * 2 ^ 53" by (simp only: pow2_add pow2_nat)
      finally show ?thesis by (simp add: field_simps)
    qed
    from rne_mono [OF this] have "(of_int (rne (x / pow2 (?e - 52))) :: rat) \<le> of_int (2 ^ 53)"
      by (simp only: rne_int of_int_le_iff)
    then have "fl x \<le> 2 ^ 53 * pow2 (?e - 52)"
      by (simp add: fl_pos [OF x] mult_right_mono less_imp_le)
    also have "\<dots> = pow2 (?e - 52 + int 53)" by (simp only: pow2_add pow2_nat mult.commute)
    also have "\<dots> \<le> pow2 (?f - 52 + int 52)" using lt by (intro pow2_mono) simp
    also have "\<dots> = of_int (2 ^ 52) * pow2 (?f - 52)" by (simp only: pow2_add pow2_nat mult.commute) simp
    also have "\<dots> \<le> fl y"
    proof -
      have "pow2 (?f - 52) * 2 ^ 52 = pow2 (?f - 52 + int 52)" by (simp only: pow2_add pow2_nat)
      also have "\<dots> \<le> y" using exponent_of_bounds [OF y] by simp
      finally have "of_int (2 ^ 52) \<le> y / pow2 (?f - 52)" by (simp add: field_simps)
      from rne_mono [OF this] have "(of_int (2 ^ 52) :: rat) \<le> of_int (rne (y / pow2 (?f - 52)))"
        by (simp only: rne_int of_int_le_iff)
      then show ?thesis by (simp only: fl_pos [OF y]) (intro mult_right_mono, simp_all add: less_imp_le)
    qed
    finally show ?thesis .
  qed
qed

section \<open>Conversion to int\<close>

definition trunc :: "rat \<Rightarrow> int" where
  "trunc f = (if f < 0 then - \<lfloor>- f\<rfloor> else \<lfloor>f\<rfloor>)"

lemma trunc_nonneg: "0 \<le> f \<Longrightarrow> trunc f = \<lfloor>f\<rfloor>"
  by (simp add: trunc_def)

section \<open>Quotients\<close>

text \<open>A rounded quotient of integers below \<open>2^53\<close> has the integer quotient as its integer part.\<close>

lemma floor_fl_quotient:
  assumes "0 \<le> n" and "n < 2 ^ 53" and "0 < q"
  shows "\<lfloor>fl (of_int n / of_int q)\<rfloor> = n div q"
proof -
  let ?k = "n div q"
  have n: "n = ?k * q + n mod q" by simp
  have k: "0 \<le> ?k" "?k \<le> 2 ^ 53"
    using assms div_by_1 [of n] zdiv_mono2 [of n 1 q] by (simp_all add: pos_imp_zdiv_nonneg_iff)
  have lo: "of_int ?k \<le> (of_int n / of_int q :: rat)"
    using assms(3) floor_divide_of_int_eq [of n q, where ?'a = rat] of_int_floor_le [of "of_int n / of_int q :: rat"]
    by simp
  have "of_int ?k \<le> fl (of_int n / of_int q)"
    using fl_mono [OF _ lo] k by (simp add: fl_of_int)
  moreover have "fl (of_int n / of_int q) < of_int ?k + 1"
  proof (cases "n mod q = 0")
    case True
    then have "n = ?k * q" by auto
    then have "(of_int n :: rat) = of_int ?k * of_int q" by (metis of_int_mult)
    then have "(of_int n / of_int q :: rat) = of_int ?k" using assms(3) by (simp add: field_simps)
    then show ?thesis using k by (simp add: fl_of_int)
  next
    case False
    have "(?k + 1) * q = ?k * q + q" by (simp only: distrib_right mult_1)
    with n pos_mod_bound [OF assms(3), of n] have "n + 1 \<le> (?k + 1) * q" by linarith
    then have up: "(of_int n + 1 :: rat) \<le> (of_int ?k + 1) * of_int q"
      by (metis of_int_1 of_int_add of_int_le_iff of_int_mult)
    have "(of_int n :: rat) < of_int (2 ^ 53)" using assms(2) by (simp only: of_int_less_iff)
    then have small: "of_int n / 2 ^ 53 < (1 :: rat)" by simp
    have "fl (of_int n / of_int q) \<le> of_int n / of_int q + of_int n / of_int q / 2 ^ 53"
      using assms by (intro fl_bounds) simp_all
    also have "\<dots> = (of_int n + of_int n / 2 ^ 53) / of_int q"
      by (simp add: add_divide_distrib)
    also have "\<dots> < (of_int n + 1) / of_int q"
      using small assms(3) by (intro divide_strict_right_mono) simp_all
    also have "\<dots> \<le> of_int ?k + 1"
      using up assms(3) by (simp add: field_simps)
    finally show ?thesis .
  qed
  ultimately show ?thesis by linarith
qed

text \<open>The multiples of a tenth survive the division and the multiplication by 10.\<close>

lemma floor_rat_numeral [simp]: "\<lfloor>numeral a / numeral b :: rat\<rfloor> = numeral a div numeral b"
  by (metis floor_divide_of_int_eq of_int_numeral)

lemma fl_at:
  assumes "pow2 e \<le> x" and "x < pow2 (e + 1)"
  shows "fl x = of_int (rne (x / pow2 (e - 52))) * pow2 (e - 52)"
proof -
  have "0 < x" using assms(1) pow2_pos [of e] by linarith
  then show ?thesis by (simp add: fl_pos exponent_of_unique [OF assms])
qed

lemma fl_tenth_values:
  "fl (1 / 10) = 3602879701896397 / 36028797018963968" "fl (18014398509481985 / 18014398509481984) = 1"
  "fl (1 / 5) = 3602879701896397 / 18014398509481984" "fl (18014398509481985 / 9007199254740992) = 2"
  "fl (3 / 10) = 5404319552844595 / 18014398509481984" "fl (27021597764222975 / 9007199254740992) = 3"
  "fl (2 / 5) = 3602879701896397 / 9007199254740992" "fl (18014398509481985 / 4503599627370496) = 4"
  "fl (3 / 5) = 5404319552844595 / 9007199254740992" "fl (27021597764222975 / 4503599627370496) = 6"
  "fl (7 / 10) = 3152519739159347 / 4503599627370496" "fl (15762598695796735 / 2251799813685248) = 7"
  "fl (4 / 5) = 3602879701896397 / 4503599627370496" "fl (18014398509481985 / 2251799813685248) = 8"
  "fl (9 / 10) = 8106479329266893 / 9007199254740992" "fl (40532396646334465 / 4503599627370496) = 9"
proof -
  show "fl (1 / 10) = 3602879701896397 / 36028797018963968" by (simp add: fl_at [of "-4"] pow2_def rne_def Let_def)
  show "fl (18014398509481985 / 18014398509481984) = 1" by (simp add: fl_at [of "0"] pow2_def rne_def Let_def)
  show "fl (1 / 5) = 3602879701896397 / 18014398509481984" by (simp add: fl_at [of "-3"] pow2_def rne_def Let_def)
  show "fl (18014398509481985 / 9007199254740992) = 2" by (simp add: fl_at [of "1"] pow2_def rne_def Let_def)
  show "fl (3 / 10) = 5404319552844595 / 18014398509481984" by (simp add: fl_at [of "-2"] pow2_def rne_def Let_def)
  show "fl (27021597764222975 / 9007199254740992) = 3" by (simp add: fl_at [of "1"] pow2_def rne_def Let_def)
  show "fl (2 / 5) = 3602879701896397 / 9007199254740992" by (simp add: fl_at [of "-2"] pow2_def rne_def Let_def)
  show "fl (18014398509481985 / 4503599627370496) = 4" by (simp add: fl_at [of "2"] pow2_def rne_def Let_def)
  show "fl (3 / 5) = 5404319552844595 / 9007199254740992" by (simp add: fl_at [of "-1"] pow2_def rne_def Let_def)
  show "fl (27021597764222975 / 4503599627370496) = 6" by (simp add: fl_at [of "2"] pow2_def rne_def Let_def)
  show "fl (7 / 10) = 3152519739159347 / 4503599627370496" by (simp add: fl_at [of "-1"] pow2_def rne_def Let_def)
  show "fl (15762598695796735 / 2251799813685248) = 7" by (simp add: fl_at [of "2"] pow2_def rne_def Let_def)
  show "fl (4 / 5) = 3602879701896397 / 4503599627370496" by (simp add: fl_at [of "-1"] pow2_def rne_def Let_def)
  show "fl (18014398509481985 / 2251799813685248) = 8" by (simp add: fl_at [of "3"] pow2_def rne_def Let_def)
  show "fl (9 / 10) = 8106479329266893 / 9007199254740992" by (simp add: fl_at [of "-1"] pow2_def rne_def Let_def)
  show "fl (40532396646334465 / 4503599627370496) = 9" by (simp add: fl_at [of "3"] pow2_def rne_def Let_def)
qed

lemma fl_tenths:
  "\<forall>k \<in> {0, 1, 2, 3, 4, 5, 6, 7, 8, 9, 10 :: int}. fl (10 * fl (of_int k / 10)) = of_int k"
proof -
  have half: "fl (1 / 2) = 1 / 2" by (simp add: fl_at [of "- 1"] pow2_def rne_def Let_def)
  have ints: "fl 1 = 1" "fl 5 = 5" "fl 10 = 10"
    using fl_of_int [of 1] fl_of_int [of 5] fl_of_int [of 10] by simp_all
  show ?thesis by (simp add: half ints fl_tenth_values)
qed

lemma quotient_gap:
  fixes q k p :: rat
  assumes "0 < q"
  shows "k * q + 1 \<le> 10 * p \<Longrightarrow> k + 1 / q \<le> 10 * (p / q)"
    and "10 * p + 1 \<le> (k + 1) * q \<Longrightarrow> 10 * (p / q) + 1 / q \<le> k + 1"
proof -
  assume "k * q + 1 \<le> 10 * p"
  then have "(k * q + 1) / q \<le> 10 * p / q" using assms by (intro divide_right_mono) simp_all
  then show "k + 1 / q \<le> 10 * (p / q)" using assms by (simp add: add_divide_distrib)
next
  assume "10 * p + 1 \<le> (k + 1) * q"
  then have "(10 * p + 1) / q \<le> (k + 1) * q / q" using assms by (intro divide_right_mono) simp_all
  then show "10 * (p / q) + 1 / q \<le> k + 1" using assms by (simp add: add_divide_distrib)
qed

lemma fl_ten_times_error:
  assumes "0 \<le> x" and "x \<le> 1"
  shows "10 * x - 30 / 9007199254740992 \<le> fl (10 * fl x)" "fl (10 * fl x) \<le> 10 * x + 30 / 9007199254740992"
proof -
  have p53: "(2 :: rat) ^ 53 = 9007199254740992" by simp
  note err = fl_bounds [unfolded p53]
  have e1: "x - 1 / 9007199254740992 \<le> fl x" "fl x \<le> x + 1 / 9007199254740992"
    using err [OF assms(1)] assms(2) by linarith+
  have y: "0 \<le> 10 * fl x" "10 * fl x \<le> 20" using fl_nonneg [OF assms(1)] e1 assms(2) by linarith+
  have "10 * fl x - 20 / 9007199254740992 \<le> fl (10 * fl x)"
    "fl (10 * fl x) \<le> 10 * fl x + 20 / 9007199254740992"
    using err [OF y(1)] y(2) by linarith+
  with e1 show "10 * x - 30 / 9007199254740992 \<le> fl (10 * fl x)"
    "fl (10 * fl x) \<le> 10 * x + 30 / 9007199254740992"
    by linarith+
qed

lemma floor_between:
  fixes x z k d :: rat
  assumes "k + d \<le> y" and "y + d \<le> k + 1" and "e < d" and "y - e \<le> z" and "z \<le> y + e"
  shows "k \<le> z" and "z < k + 1"
  using assms by linarith+

lemma floor_fl_ten_times:
  assumes "0 \<le> p" and "p \<le> q" and "0 < q" and "q \<le> 2 ^ 45"
  shows "\<lfloor>fl (10 * fl (of_int p / of_int q))\<rfloor> = 10 * p div q"
proof (cases "10 * p mod q = 0")
  case True
  let ?k = "10 * p div q"
  from True have "10 * p = ?k * q" by auto
  then have "(10 * of_int p :: rat) = of_int ?k * of_int q" by (metis of_int_mult of_int_numeral)
  then have x: "(of_int p / of_int q :: rat) = of_int ?k / 10"
    using assms(3) by (simp add: field_simps)
  have "?k * q \<le> 10 * q" using \<open>10 * p = ?k * q\<close> assms(2) by linarith
  then have "?k \<le> 10" using assms(3) by simp
  moreover have "0 \<le> ?k" using assms by (simp add: pos_imp_zdiv_nonneg_iff)
  moreover have "0 \<le> j \<Longrightarrow> j \<le> 10 \<Longrightarrow> j \<in> {0, 1, 2, 3, 4, 5, 6, 7, 8, 9, 10}" for j :: int
    by simp presburger
  ultimately have "?k \<in> {0, 1, 2, 3, 4, 5, 6, 7, 8, 9, 10}" by blast
  then show ?thesis using fl_tenths unfolding x by (metis floor_of_int)
next
  case False
  let ?k = "10 * p div q" and ?x = "of_int p / of_int q :: rat"
  have sum: "10 * p = ?k * q + 10 * p mod q" by simp
  have "1 \<le> 10 * p mod q" "10 * p mod q \<le> q - 1"
    using False pos_mod_bound [OF assms(3), of "10 * p"] pos_mod_sign [OF assms(3), of "10 * p"] by linarith+
  moreover have "(?k + 1) * q = ?k * q + q" by (simp only: distrib_right mult_1)
  ultimately have "?k * q + 1 \<le> 10 * p" "10 * p + 1 \<le> (?k + 1) * q"
    using sum by linarith+
  then have "(of_int (?k * q + 1) :: rat) \<le> of_int (10 * p)" "(of_int (10 * p + 1) :: rat) \<le> of_int ((?k + 1) * q)"
    by (simp_all only: of_int_le_iff)
  then have "(of_int ?k * of_int q + 1 :: rat) \<le> 10 * of_int p" "(10 * of_int p + 1 :: rat) \<le> (of_int ?k + 1) * of_int q"
    by (simp_all only: of_int_add of_int_mult of_int_1 of_int_numeral)
  then have lo: "of_int ?k + 1 / of_int q \<le> 10 * ?x" and hi: "10 * ?x + 1 / of_int q \<le> of_int ?k + 1"
    using quotient_gap [where q = "of_int q :: rat" and k = "of_int ?k" and p = "of_int p"] assms(3) by simp_all
  have x: "0 \<le> ?x" "?x \<le> 1" using assms by simp_all
  have "(of_int q :: rat) \<le> of_int (2 ^ 45)" using assms(4) by (simp only: of_int_le_iff)
  then have q: "1 / 2 ^ 45 \<le> (1 / of_int q :: rat)" using assms(3) by (simp add: field_simps)
  note z = fl_ten_times_error [OF x]
  have "30 / 9007199254740992 < (1 / 2 ^ 45 :: rat)" by simp
  from less_le_trans [OF this q] have gap: "30 / 9007199254740992 < (1 / of_int q :: rat)" .
  from floor_between [OF lo hi gap z] have "of_int ?k \<le> fl (10 * fl ?x)" "fl (10 * fl ?x) < of_int ?k + 1" .
  then show ?thesis by linarith
qed

end
