(* ===== verification/Scoring.thy ===== *)
theory Scoring
  imports Prioritize Float64
begin

text \<open>
  What the two priorities share beside the goroutines: the machine arithmetic of a score (sums
  of int64, float64 quotients, the conversion to int), the largest score of a list, and the
  contract of a priority as a locale, from which the facts about every interleaved run follow.
\<close>

section \<open>Machine arithmetic\<close>

text \<open>\<^verbatim>\<open>float64(x)\<close>, and \<^verbatim>\<open>int(f)\<close>, which the platform decides for values out of range.\<close>

definition f64 :: "int64 \<Rightarrow> rat" where
  "f64 x = fl (of_int (ival x))"

definition go_int :: "(rat \<Rightarrow> int64) \<Rightarrow> rat \<Rightarrow> int64" where
  "go_int oor f = (if - (2 ^ 63) \<le> trunc f \<and> trunc f < 2 ^ 63 then word_of_int (trunc f) else oor f)"

lemma f64_exact: "0 \<le> ival x \<Longrightarrow> ival x \<le> 2 ^ 53 \<Longrightarrow> f64 x = of_int (ival x)"
  by (simp only: f64_def fl_of_int)

lemma go_int_floor: "0 \<le> f \<Longrightarrow> \<lfloor>f\<rfloor> < 2 ^ 63 \<Longrightarrow> ival (go_int oor f) = \<lfloor>f\<rfloor>"
  by (simp add: go_int_def trunc_nonneg int64_simps)

section \<open>The largest score\<close>

text \<open>\<^verbatim>\<open>maxCount\<close> of both reductions.\<close>

definition max_count :: "host_priority list \<Rightarrow> int64" where
  "max_count ps = fold (\<lambda>p m. if m <s hp_score p then hp_score p else m) ps 0"

lemma max_count_fold:
  "ival (fold (\<lambda>p m. if m <s hp_score p then hp_score p else m) ps m0) =
     fold (\<lambda>p m. max m (ival (hp_score p))) ps (ival m0)"
  by (induction ps arbitrary: m0) (auto simp: word_sless_alt max_def)

lemma fold_max_bounds:
  fixes f :: "'a \<Rightarrow> int"
  shows "m0 \<le> fold (\<lambda>p m. max m (f p)) ps m0 \<and> (\<forall>p \<in> set ps. f p \<le> fold (\<lambda>p m. max m (f p)) ps m0) \<and>
    (fold (\<lambda>p m. max m (f p)) ps m0 = m0 \<or> (\<exists>p \<in> set ps. f p = fold (\<lambda>p m. max m (f p)) ps m0))"
proof (induction ps arbitrary: m0)
  case (Cons p ps)
  from Cons [of "max m0 (f p)"] show ?case by (auto simp: max_def split: if_splits)
qed simp

lemma max_count_nonneg: "0 \<le> ival (max_count ps)"
  using fold_max_bounds [where ?m0.0 = 0 and f = "\<lambda>p. ival (hp_score p)" and ps = ps] by (simp add: max_count_def max_count_fold)

lemma max_count_ge: "p \<in> set ps \<Longrightarrow> ival (hp_score p) \<le> ival (max_count ps)"
  using fold_max_bounds [where ?m0.0 = 0 and f = "\<lambda>p. ival (hp_score p)" and ps = ps] by (simp add: max_count_def max_count_fold)

lemma max_count_le:
  "0 \<le> b \<Longrightarrow> \<forall>p \<in> set ps. ival (hp_score p) \<le> b \<Longrightarrow> ival (max_count ps) \<le> b"
  using fold_max_bounds [where ?m0.0 = 0 and f = "\<lambda>p. ival (hp_score p)" and ps = ps] by (auto simp: max_count_def max_count_fold)

lemma max_count_Max:
  assumes "\<forall>p \<in> set ps. 0 \<le> ival (hp_score p)" and "ps \<noteq> []"
  shows "ival (max_count ps) = Max ((\<lambda>p. ival (hp_score p)) ` set ps)"
proof (rule Max_eqI [symmetric])
  show "ival (max_count ps) \<in> (\<lambda>p. ival (hp_score p)) ` set ps"
  proof -
    obtain p where p: "p \<in> set ps" using assms(2) by (cases ps) auto
    have "ival (max_count ps) = 0 \<or> (\<exists>p \<in> set ps. ival (hp_score p) = ival (max_count ps))"
      using fold_max_bounds [where ?m0.0 = 0 and f = "\<lambda>p. ival (hp_score p)" and ps = ps] by (simp add: max_count_def max_count_fold)
    moreover have "ival (max_count ps) = 0 \<Longrightarrow> ival (hp_score p) = ival (max_count ps)"
      using max_count_ge [OF p] assms(1) p by force
    ultimately show ?thesis using p by force
  qed
qed (auto simp: max_count_ge)

text \<open>The scaling to tens, as the integer division it computes.\<close>

lemma scaled_score:
  assumes "0 \<le> p" and "p \<le> q" and "0 < q" and "q \<le> 2 ^ 45"
  shows "ival (go_int oor (fl (10 * fl (of_int p / of_int q)))) = 10 * p div q"
    and "0 \<le> 10 * p div q" and "10 * p div q \<le> 10"
proof -
  note fl = floor_fl_ten_times [OF assms]
  show nn: "0 \<le> 10 * p div q" using assms by (simp add: pos_imp_zdiv_nonneg_iff)
  have "10 * p div q \<le> 10 * q div q" using assms by (intro zdiv_mono1) simp_all
  then show le: "10 * p div q \<le> 10" using assms(3) by simp
  have "0 \<le> fl (10 * fl (of_int p / of_int q))"
    using assms by (intro fl_nonneg mult_nonneg_nonneg) simp_all
  then show "ival (go_int oor (fl (10 * fl (of_int p / of_int q)))) = 10 * p div q"
    using le by (simp add: go_int_floor fl)
qed

section \<open>The contract of a priority\<close>

text \<open>
  A goroutine writes the name of its node; the reduction keeps the hosts and maps scores that
  are not negative (and below \<open>2^45\<close>) into 0 to 10.
\<close>

locale priority =
  fixes mapScore :: "pod \<Rightarrow> node \<Rightarrow> host_priority job"
    and reduce :: "host_priority list \<Rightarrow> host_priority list"
  assumes map_host: "hp_host (snd (mapScore pd nd)) = node_name nd"
    and reduce_hosts: "map hp_host (reduce ps) = map hp_host ps"
    and reduce_range: "\<forall>p \<in> set ps. 0 \<le> ival (hp_score p) \<and> ival (hp_score p) \<le> 2 ^ 45 \<Longrightarrow>
      \<forall>p \<in> set (reduce ps). 0 \<le> ival (hp_score p) \<and> ival (hp_score p) \<le> 10"
begin

lemma scoring_hosts:
  assumes "NodesScoring mapScore reduce (Some pd) nodes = Done (list, err)"
  shows "map hp_host list = map node_name nodes"
proof -
  have "map hp_host (map snd (scoring_jobs mapScore pd nodes)) = map node_name nodes"
    by (simp add: scoring_jobs_def map_host)
  with assms show ?thesis
    by (auto simp: NodesScoring_def Let_def after_wait_def reduce_hosts simp del: map_map split: if_splits)
qed

lemma scoring_range:
  assumes "NodesScoring mapScore reduce (Some pd) nodes = Done (list, None)"
    and "\<forall>nd \<in> set nodes. 0 \<le> ival (hp_score (snd (mapScore pd nd))) \<and> ival (hp_score (snd (mapScore pd nd))) \<le> 2 ^ 45"
  shows "\<forall>p \<in> set list. 0 \<le> ival (hp_score p) \<and> ival (hp_score p) \<le> 10"
proof -
  have "list = reduce (map snd (scoring_jobs mapScore pd nodes))"
    using assms(1) by (auto simp: NodesScoring_def Let_def after_wait_def split: if_splits)
  then show ?thesis
    using reduce_range [of "map snd (scoring_jobs mapScore pd nodes)"] assms(2) by (simp add: scoring_jobs_def)
qed

text \<open>Every interleaving of the goroutines scores the nodes in their order.\<close>

lemma run_hosts:
  assumes "scoring_run mapScore reduce pd nodes (list, err)"
  shows "map hp_host list = map node_name nodes"
proof -
  obtain r where "NodesScoring mapScore reduce (Some pd) nodes = Done r"
    by (simp add: NodesScoring_def Let_def)
  then obtain list' err' where seq: "NodesScoring mapScore reduce (Some pd) nodes = Done (list', err')"
    by (cases r) simp
  from scoring_run_result [OF assms seq] scoring_hosts [OF seq] show ?thesis by simp
qed

end

end
