(* ===== verification/DiskUse.thy ===== *)
theory DiskUse
  imports Scoring Samples
begin

text \<open>
  \<^verbatim>\<open>pkg/algorithm/prioritize/hostpathpv_diskuse.go\<close>: a node scores by the percentage of its
  quota disks that is not charged, scaled so that the freest node gets 10.
\<close>

section \<open>The priority\<close>

definition diskuseName :: string where
  "diskuseName = ''hostpathpvdiskuse''"

definition free_percent :: "(rat \<Rightarrow> int64) \<Rightarrow> int64 \<Rightarrow> int64 \<Rightarrow> int64" where
  "free_percent oor allocable quota =
     (if allocable \<le>s 0 \<or> allocable \<le>s quota then 0
      else go_int oor (fl (fl (100 * f64 (allocable - quota)) / f64 allocable)))"

text \<open>The errors reported, and the sums \<^verbatim>\<open>allocable\<close> and \<^verbatim>\<open>quota\<close>.\<close>

definition disk_use_sums :: "codec \<Rightarrow> informers \<Rightarrow> node \<Rightarrow> error list \<times> int64 \<times> int64" where
  "disk_use_sums cd ca nd =
     (case GetNodeDiskInfo cd nd of
        Inl err \<Rightarrow> ([err], 0, 0)
      | Inr nodeDiskInfo \<Rightarrow>
          (case GetNodeHostPathPVMountInfo cd (node_name nd) (pvInfo ca) (podInfo ca) of
             Inl err2 \<Rightarrow> ([err2], 0, 0)
           | Inr nodeMountInfo \<Rightarrow>
               ([], fold (\<lambda>info a. a + dq_allocable info) nodeDiskInfo 0,
                fold (\<lambda>mi q. q + mi_quota mi) (hm_mounts nodeMountInfo) 0)))"

definition diskuse_mapScoringNode ::
  "(rat \<Rightarrow> int64) \<Rightarrow> codec \<Rightarrow> informers \<Rightarrow> pod \<Rightarrow> node \<Rightarrow> host_priority job" where
  "diskuse_mapScoringNode oor cd ca pd nd =
     (case disk_use_sums cd ca nd of
        (errs, allocable, quota) \<Rightarrow>
          (errs, \<lparr>hp_host = node_name nd, hp_score = free_percent oor allocable quota\<rparr>))"

definition diskuse_reduceScoringNode :: "(rat \<Rightarrow> int64) \<Rightarrow> host_priority list \<Rightarrow> host_priority list" where
  "diskuse_reduceScoringNode oor ps =
     (let maxCount = max_count ps; maxCountFloat = f64 maxCount
      in map (\<lambda>p. p\<lparr>hp_score := go_int oor
           (if 0 <s maxCount then fl (10 * fl (f64 (hp_score p) / maxCountFloat)) else 0)\<rparr>) ps)"

definition diskuse_NodesScoring ::
  "(rat \<Rightarrow> int64) \<Rightarrow> codec \<Rightarrow> informers \<Rightarrow> pod option \<Rightarrow> node list \<Rightarrow> (host_priority list \<times> error option) outcome"
where
  "diskuse_NodesScoring oor cd ca =
     NodesScoring (diskuse_mapScoringNode oor cd ca) (diskuse_reduceScoringNode oor)"

section \<open>Its arithmetic\<close>

lemma free_percent_exact:
  assumes "0 \<le> ival q" and "100 * ival a < 2 ^ 53"
  shows "ival (free_percent oor a q) =
    (if ival a \<le> 0 \<or> ival a \<le> ival q then 0 else 100 * (ival a - ival q) div ival a)"
proof (cases "ival a \<le> 0 \<or> ival a \<le> ival q")
  case False
  then have d: "ival (a - q) = ival a - ival q"
    using assms ival_upper [of a] by (intro ival_diff) linarith+
  have "f64 (a - q) = of_int (ival a - ival q)" and a: "f64 a = of_int (ival a)"
    using False assms by (simp_all add: f64_exact d)
  then have "fl (100 * f64 (a - q)) = fl (of_int (100 * (ival a - ival q)))" by simp
  also have "\<dots> = of_int (100 * (ival a - ival q))"
    using False assms by (intro fl_of_int) simp_all
  finally have v: "fl (fl (100 * f64 (a - q)) / f64 a) = fl (of_int (100 * (ival a - ival q)) / of_int (ival a))"
    by (simp only: a)
  have fl: "\<lfloor>fl (of_int (100 * (ival a - ival q)) / of_int (ival a))\<rfloor> = 100 * (ival a - ival q) div ival a"
    using False assms by (intro floor_fl_quotient) simp_all
  have "100 * (ival a - ival q) div ival a \<le> 100 * ival a div ival a"
    using False assms by (intro zdiv_mono1) simp_all
  then have "100 * (ival a - ival q) div ival a < 2 ^ 63" using False by simp
  moreover have "0 \<le> fl (of_int (100 * (ival a - ival q)) / (of_int (ival a) :: rat))"
    using False by (intro fl_nonneg divide_nonneg_nonneg) simp_all
  ultimately have "ival (go_int oor (fl (fl (100 * f64 (a - q)) / f64 a))) = 100 * (ival a - ival q) div ival a"
    unfolding v by (simp only: go_int_floor fl)
  with False show ?thesis by (simp add: free_percent_def word_sle_ival)
qed (simp add: free_percent_def word_sle_ival)

lemma free_percent_range:
  assumes "0 \<le> ival q"
  shows "0 \<le> ival (free_percent oor a q) \<and> ival (free_percent oor a q) \<le> 100"
proof (cases "ival a \<le> 0 \<or> ival a \<le> ival q")
  case False
  then have d: "ival (a - q) = ival a - ival q"
    using assms ival_upper [of a] by (intro ival_diff) linarith+
  let ?n = "f64 (a - q)" and ?d = "f64 a"
  have n: "0 \<le> ?n" unfolding f64_def using False d by (intro fl_nonneg) simp
  have dpos: "0 < ?d" unfolding f64_def using False by (intro fl_positive) simp
  have "(of_int (ival (a - q)) :: rat) \<le> of_int (ival a)" using assms d by simp
  then have nd: "?n \<le> ?d" unfolding f64_def using False d by (intro fl_mono) simp_all
  have h: "0 \<le> fl (100 * ?n)" using n by (intro fl_nonneg) simp
  have p53: "(2 :: rat) ^ 53 = 9007199254740992" by simp
  note err = fl_bounds(2) [unfolded p53]
  have "fl (100 * ?n) \<le> 100 * ?n + 100 * ?n / 9007199254740992"
    using n by (intro err) simp
  with nd n have "fl (100 * ?n) \<le> 201 / 2 * ?d" by linarith
  then have quot: "fl (100 * ?n) / ?d \<le> 201 / 2" using dpos by (simp add: pos_divide_le_eq)
  have q0: "0 \<le> fl (100 * ?n) / ?d" using h dpos by simp
  have "fl (fl (100 * ?n) / ?d) < 101" using q0 quot by (rule fl_below_101)
  then have "\<lfloor>fl (fl (100 * ?n) / ?d)\<rfloor> \<le> 100" by linarith
  moreover have "0 \<le> fl (fl (100 * ?n) / ?d)" using q0 by (rule fl_nonneg)
  ultimately show ?thesis
    using False by (simp add: free_percent_def word_sle_ival go_int_floor)
qed (simp add: free_percent_def word_sle_ival)

lemma diskuse_reduce_exact:
  assumes "\<forall>p \<in> set ps. 0 \<le> ival (hp_score p) \<and> ival (hp_score p) \<le> 2 ^ 45" and "p \<in> set ps"
  shows "ival (go_int oor (if 0 <s max_count ps then fl (10 * fl (f64 (hp_score p) / f64 (max_count ps))) else 0)) =
    (if 0 < ival (max_count ps) then 10 * ival (hp_score p) div ival (max_count ps) else 0)"
proof (cases "0 < ival (max_count ps)")
  case True
  have m: "ival (max_count ps) \<le> 2 ^ 45" using assms(1) by (intro max_count_le) simp_all
  have s: "ival (hp_score p) \<le> ival (max_count ps)" by (rule max_count_ge [OF assms(2)])
  have "f64 (hp_score p) = of_int (ival (hp_score p))" "f64 (max_count ps) = of_int (ival (max_count ps))"
    using assms m True by (auto intro!: f64_exact)
  with True show ?thesis
    using scaled_score(1) [OF _ s True m] assms by (simp add: word_sless_alt)
qed (simp add: word_sless_alt go_int_def trunc_def)

interpretation du: priority "diskuse_mapScoringNode oor cd ca" "diskuse_reduceScoringNode oor" for oor cd ca
proof unfold_locales
  fix ps :: "host_priority list"
  assume range: "\<forall>p \<in> set ps. 0 \<le> ival (hp_score p) \<and> ival (hp_score p) \<le> 2 ^ 45"
  have m: "ival (max_count ps) \<le> 2 ^ 45" using range by (intro max_count_le) simp_all
  show "\<forall>p \<in> set (diskuse_reduceScoringNode oor ps). 0 \<le> ival (hp_score p) \<and> ival (hp_score p) \<le> 10"
    using diskuse_reduce_exact [OF range] range scaled_score(2,3) [OF _ max_count_ge _ m]
    by (auto simp: diskuse_reduceScoringNode_def Let_def)
qed (simp_all add: diskuse_mapScoringNode_def diskuse_reduceScoringNode_def Let_def case_prod_beta)

section \<open>Properties\<close>

text \<open>The percentage of a node's allocable space that is not charged, in integers.\<close>

definition percent_spec :: "int \<Rightarrow> int \<Rightarrow> int" where
  "percent_spec a q = (if a \<le> 0 \<or> a \<le> q then 0 else 100 * (a - q) div a)"

definition node_percent :: "codec \<Rightarrow> informers \<Rightarrow> node \<Rightarrow> int" where
  "node_percent cd ca nd =
     (case disk_use_sums cd ca nd of (errs, a, q) \<Rightarrow> percent_spec (ival a) (ival q))"

text \<open>Sizes for which the float64 quotients are exact: quotas that are not negative, and less than
  2^53/100 bytes (82 TiB) of allocable space on a node.\<close>

definition exact_sizes :: "codec \<Rightarrow> informers \<Rightarrow> node \<Rightarrow> bool" where
  "exact_sizes cd ca nd \<longleftrightarrow>
     (case disk_use_sums cd ca nd of (errs, a, q) \<Rightarrow> 0 \<le> ival q \<and> 100 * ival a < 2 ^ 53)"

lemma percent_spec_range: "0 \<le> q \<Longrightarrow> 0 \<le> percent_spec a q \<and> percent_spec a q \<le> 100"
proof -
  assume "0 \<le> q"
  then have "0 < a \<Longrightarrow> 100 * (a - q) div a \<le> 100 * a div a" by (intro zdiv_mono1) simp_all
  then show ?thesis by (auto simp: percent_spec_def pos_imp_zdiv_nonneg_iff)
qed

lemma node_percent_score:
  "exact_sizes cd ca nd \<Longrightarrow> ival (hp_score (snd (diskuse_mapScoringNode oor cd ca pd nd))) = node_percent cd ca nd"
  by (auto simp: exact_sizes_def diskuse_mapScoringNode_def node_percent_def percent_spec_def
      free_percent_exact split: prod.splits)

lemma node_percent_range: "exact_sizes cd ca nd \<Longrightarrow> 0 \<le> node_percent cd ca nd \<and> node_percent cd ca nd \<le> 100"
  by (auto simp: exact_sizes_def node_percent_def percent_spec_range split: prod.splits)

lemma diskuse_result:
  assumes "diskuse_NodesScoring oor cd ca (Some pd) nodes = Done (list, None)"
  shows "list = diskuse_reduceScoringNode oor (map (\<lambda>nd. snd (diskuse_mapScoringNode oor cd ca pd nd)) nodes)"
  using assms
  by (auto simp: diskuse_NodesScoring_def NodesScoring_def Let_def after_wait_def scoring_jobs_def comp_def
      split: if_splits)

text \<open>
  C20 (equivalence).  The scores of the disk-use priority, computed in float64, are those of
  integer arithmetic (\<open>exact_sizes\<close>: quota totals that are not negative, and less than 82 TiB of
  allocable space on a node): a node gets ten times its free percentage divided by the largest one,
  rounded down, and every node gets 0 when all are full.
\<close>

theorem diskuse_scores:
  assumes "diskuse_NodesScoring oor cd ca (Some pd) nodes = Done (list, None)"
    and "\<forall>nd \<in> set nodes. exact_sizes cd ca nd" and "nodes \<noteq> []"
  shows "map (\<lambda>p. (hp_host p, ival (hp_score p))) list =
    map (\<lambda>nd. (node_name nd,
      let best = Max (node_percent cd ca ` set nodes)
      in if best = 0 then 0 else 10 * node_percent cd ca nd div best)) nodes"
proof -
  let ?f = "\<lambda>nd. snd (diskuse_mapScoringNode oor cd ca pd nd)" and ?ps = "map (\<lambda>nd. snd (diskuse_mapScoringNode oor cd ca pd nd)) nodes"
  have sc: "ival (hp_score (?f nd)) = node_percent cd ca nd" if "nd \<in> set nodes" for nd
    using that assms(2) by (intro node_percent_score) simp
  have range: "\<forall>p \<in> set ?ps. 0 \<le> ival (hp_score p) \<and> ival (hp_score p) \<le> 2 ^ 45"
    using sc node_percent_range assms(2) by force
  have best: "ival (max_count ?ps) = Max (node_percent cd ca ` set nodes)"
    using max_count_Max [of ?ps] range assms(3) sc by (simp add: image_image cong: image_cong_simp)
  have "0 < ival (max_count ?ps) \<longleftrightarrow> ival (max_count ?ps) \<noteq> 0"
    using max_count_nonneg [of ?ps] by linarith
  then have one: "ival (go_int oor (if 0 <s max_count ?ps then fl (10 * fl (f64 (hp_score (?f nd)) / f64 (max_count ?ps))) else 0)) =
      (if Max (node_percent cd ca ` set nodes) = 0 then 0
       else 10 * node_percent cd ca nd div Max (node_percent cd ca ` set nodes))" if "nd \<in> set nodes" for nd
    using diskuse_reduce_exact [OF range, of "?f nd" oor] that sc [OF that] best by simp
  have host: "hp_host (?f nd) = node_name nd" for nd by (rule du.map_host)
  show ?thesis
    unfolding diskuse_result [OF assms(1)] diskuse_reduceScoringNode_def Let_def
    using one host by simp
qed

definition sample_used :: informers where
  "sample_used = sample_caches (sample_pv [(PVVolumeHostPathMountNode, ''m1'')] 6) []"

lemma sample_sums:
  "disk_use_sums sample_codec sample_used (sample_node ''n1'') = ([], 30, 4)"
  "disk_use_sums sample_codec sample_used (sample_node ''n2'') = ([], 30, 0)"
  by (simp_all add: disk_use_sums_def sample_used_def eval_defs GetNodeDiskInfo_def GetNodeHostPathPVMountInfo_def
      pv_charges_def pending_mounts_def used_pods_or_empty_def GetHostPathPVUsedPodMap_def FilterByNodeAndPVC_ok)

lemma sample_scoring:
  "\<exists>list. diskuse_NodesScoring oor sample_codec sample_used (Some (sample_pod ''p1'' []))
     [sample_node ''n1'', sample_node ''n2''] = Done (list, None)"
  by (simp add: diskuse_NodesScoring_def NodesScoring_def Let_def after_wait_def scoring_jobs_def
      diskuse_mapScoringNode_def sample_sums)

theorem diskuse_scores_witness:
  "\<exists>list. diskuse_NodesScoring (\<lambda>_. 0) sample_codec sample_used (Some (sample_pod ''p1'' []))
     [sample_node ''n1'', sample_node ''n2''] = Done (list, None) \<and>
     map (\<lambda>p. (hp_host p, ival (hp_score p))) list = [(''n1'', 8), (''n2'', 10)]"
proof -
  obtain list where list: "diskuse_NodesScoring (\<lambda>_. 0) sample_codec sample_used (Some (sample_pod ''p1'' []))
     [sample_node ''n1'', sample_node ''n2''] = Done (list, None)"
    using sample_scoring [of "\<lambda>_. 0"] by blast
  have "map (\<lambda>p. (hp_host p, ival (hp_score p))) list =
    map (\<lambda>nd. (node_name nd,
      let best = Max (node_percent sample_codec sample_used ` set [sample_node ''n1'', sample_node ''n2''])
      in if best = 0 then 0 else 10 * node_percent sample_codec sample_used nd div best))
      [sample_node ''n1'', sample_node ''n2'']"
    by (rule diskuse_scores [OF list]) (simp_all add: exact_sizes_def sample_sums)
  with list show ?thesis
    by (simp add: node_percent_def sample_sums percent_spec_def)
qed

text \<open>
  C38 (bounds).  As long as the int64 total of the directories charged to each node is not negative, and however the
  goroutines interleave, an answer without an error names the nodes in the order of the request and
  every score is between 0 and 10, the range the scheduler accepts.  (Totals that wrap around to a
  negative number are shown at the end to leave the range.)
\<close>

theorem diskuse_range:
  assumes "scoring_run (diskuse_mapScoringNode oor cd ca) (diskuse_reduceScoringNode oor) pd nodes (list, None)"
    and "\<forall>nd \<in> set nodes. 0 \<le> ival (snd (snd (disk_use_sums cd ca nd)))"
  shows "map hp_host list = map node_name nodes \<and>
    (\<forall>p \<in> set list. 0 \<le> ival (hp_score p) \<and> ival (hp_score p) \<le> 10)"
proof -
  obtain r where "NodesScoring (diskuse_mapScoringNode oor cd ca) (diskuse_reduceScoringNode oor) (Some pd) nodes = Done r"
    by (simp add: NodesScoring_def Let_def)
  then obtain list' err' where seq: "NodesScoring (diskuse_mapScoringNode oor cd ca)
      (diskuse_reduceScoringNode oor) (Some pd) nodes = Done (list', err')"
    by (cases r) simp
  from scoring_run_result [OF assms(1) seq] have eq: "list' = list" "err' = None" by auto
  have "0 \<le> ival (hp_score (snd (diskuse_mapScoringNode oor cd ca pd nd))) \<and>
      ival (hp_score (snd (diskuse_mapScoringNode oor cd ca pd nd))) \<le> 100" if "nd \<in> set nodes" for nd
    using that assms(2) free_percent_range by (fastforce simp: diskuse_mapScoringNode_def case_prod_beta)
  then have "\<forall>nd \<in> set nodes. 0 \<le> ival (hp_score (snd (diskuse_mapScoringNode oor cd ca pd nd))) \<and>
      ival (hp_score (snd (diskuse_mapScoringNode oor cd ca pd nd))) \<le> 2 ^ 45"
    by force
  with du.scoring_range [OF seq [unfolded eq]] du.run_hosts [OF assms(1)] show ?thesis by blast
qed

text \<open>A run in which the goroutines finish one after the other.\<close>

lemma sample_run:
  "\<exists>r. scoring_run (diskuse_mapScoringNode oor sample_codec sample_used) (diskuse_reduceScoringNode oor)
     (sample_pod ''p1'' []) [sample_node ''n1''] (r, None)"
proof -
  let ?js = "scoring_jobs (diskuse_mapScoringNode oor sample_codec sample_used) (sample_pod ''p1'' []) [sample_node ''n1'']"
  have js: "?js = [([], \<lparr>hp_host = ''n1'', hp_score = free_percent oor 30 4\<rparr>)]"
    by (simp add: scoring_jobs_def diskuse_mapScoringNode_def sample_sums)
  let ?s1 = "\<lparr>pl_spawned = 1, pl_wg = 1, pl_status = [Running []], pl_slots = [zero_priority], pl_errs = []\<rparr>"
  let ?s2 = "\<lparr>pl_spawned = 1, pl_wg = 0, pl_status = [Finished],
      pl_slots = [\<lparr>hp_host = ''n1'', hp_score = free_percent oor 30 4\<rparr>], pl_errs = []\<rparr>"
  have "pool_step ?js (pool_init zero_priority ?js) ?s1"
    using pool_step.spawn [of "pool_init zero_priority ?js" ?js] by (simp add: js pool_init_def)
  moreover have "pool_step ?js ?s1 ?s2"
    using pool_step.finish [of 0 ?js ?s1] by (simp add: js)
  ultimately have "pool_reach zero_priority ?js ?s2"
    by (blast intro: pool_reach.intros)
  then show ?thesis
    unfolding scoring_run_def by (intro exI [of _ "diskuse_reduceScoringNode oor (pl_slots ?s2)"] exI [of _ ?s2])
      (simp add: waits_over_def js after_wait_def)
qed

theorem diskuse_range_witness:
  "\<exists>r. scoring_run (diskuse_mapScoringNode (\<lambda>_. 0) sample_codec sample_used)
      (diskuse_reduceScoringNode (\<lambda>_. 0)) (sample_pod ''p1'' []) [sample_node ''n1''] (r, None) \<and>
    map hp_host r = [''n1''] \<and> 0 \<le> ival (hp_score (hd r)) \<and> ival (hp_score (hd r)) \<le> 10"
proof -
  obtain r where run: "scoring_run (diskuse_mapScoringNode (\<lambda>_. 0) sample_codec sample_used)
      (diskuse_reduceScoringNode (\<lambda>_. 0)) (sample_pod ''p1'' []) [sample_node ''n1''] (r, None)"
    using sample_run by blast
  have "map hp_host r = map node_name [sample_node ''n1''] \<and>
      (\<forall>p \<in> set r. 0 \<le> ival (hp_score p) \<and> ival (hp_score p) \<le> 10)"
    by (rule diskuse_range [OF run]) (simp add: sample_sums)
  with run show ?thesis by (intro exI [of _ r]) (cases r, auto)
qed

text \<open>
  The priority answers with an error exactly when the disks or the charges of some
  node cannot be read; a nil pod ends the process as soon as there is a node to score.
\<close>

theorem diskuse_errors:
  "((\<exists>list. diskuse_NodesScoring oor cd ca (Some pd) nodes = Done (list, None)) \<longleftrightarrow>
     (\<forall>nd \<in> set nodes. (\<exists>infos. GetNodeDiskInfo cd nd = Inr infos) \<and>
       (\<exists>nmi. GetNodeHostPathPVMountInfo cd (node_name nd) (pvInfo ca) (podInfo ca) = Inr nmi))) \<and>
   (diskuse_NodesScoring oor cd ca None nodes = Panic \<longleftrightarrow> nodes \<noteq> [])"
proof -
  have "fst (disk_use_sums cd ca nd) = [] \<longleftrightarrow> (\<exists>infos. GetNodeDiskInfo cd nd = Inr infos) \<and>
      (\<exists>nmi. GetNodeHostPathPVMountInfo cd (node_name nd) (pvInfo ca) (podInfo ca) = Inr nmi)" for nd
    by (auto simp: disk_use_sums_def split: sum.splits)
  then show ?thesis
    by (simp add: diskuse_NodesScoring_def NodesScoring_def Let_def after_wait_def scoring_jobs_def
        diskuse_mapScoringNode_def case_prod_beta)
qed

theorem diskuse_errors_witness:
  "diskuse_NodesScoring (\<lambda>_. 0) sample_codec sample_used None [sample_node ''n1''] = Panic"
  using diskuse_errors [of "\<lambda>_. 0" sample_codec sample_used "sample_pod ''p1'' []" "[sample_node ''n1'']"] by blast

text \<open>
  A total of directories that wraps around to \<open>-2^62\<close>, beside an allocable size of \<open>2^62\<close>: the difference
  wraps too, and next to a node with 50 percent the score is -40, outside of the range the scheduler accepts.
\<close>

lemma fl_at_neg:
  assumes "pow2 e \<le> - x" and "- x < pow2 (e + 1)"
  shows "fl x = of_int (rne (x / pow2 (e - 52))) * pow2 (e - 52)"
proof -
  have "x < 0" using assms(1) pow2_pos [of e] by linarith
  then show ?thesis using exponent_of_unique [OF assms] by (simp add: fl_def Let_def)
qed

lemma wrapped_values:
  "fl 4611686018427387904 = 4611686018427387904" "fl (- 9223372036854775808) = - 9223372036854775808"
  "fl (- 922337203685477580800) = - 922337203685477580800" "fl (- 200) = - 200" "fl (- 4) = - 4" "fl (- 40) = - 40"
  "fl 50 = 50" "fl 1 = 1" "fl 10 = 10"
  by (simp_all add: fl_at [of 62] fl_at_neg [of 63] fl_at_neg [of 69] fl_at_neg [of 7] fl_at_neg [of 2] fl_at_neg [of 5]
      fl_at [of 5] fl_at [of 0] fl_at [of 3] pow2_def rne_def)

lemma wrapped_total_out_of_range:
  "free_percent oor (2 ^ 62) (2 ^ 62 + 2 ^ 62 + 2 ^ 62) = -200 \<and>
   map hp_score (diskuse_reduceScoringNode oor
     [\<lparr>hp_host = ''n1'', hp_score = -200\<rparr>, \<lparr>hp_host = ''n2'', hp_score = 50\<rparr>]) = [-40, 10]"
  by (simp add: free_percent_def diskuse_reduceScoringNode_def f64_def go_int_def trunc_def wrapped_values
      word_sless_ival word_sle_ival max_count_def)

end
