(* ===== verification/Spread.thy ===== *)
theory Spread
  imports Scoring Samples
begin

text \<open>
  \<^verbatim>\<open>pkg/algorithm/prioritize/hostpathpv_spread.go\<close>: a node scores lower the more pods on it use
  the volumes of the pod.
\<close>

section \<open>The priority\<close>

definition spreadName :: string where
  "spreadName = ''hostpathpvspread''"

text \<open>The loop over the pod's volumes with the reported errors and \<^verbatim>\<open>count\<close>.\<close>

fun spread_loop ::
  "informers \<Rightarrow> pod \<Rightarrow> string \<Rightarrow> volume list \<Rightarrow> error list \<times> int64 \<Rightarrow> error list \<times> int64" where
  "spread_loop ca pd nodeName [] st = st"
| "spread_loop ca pd nodeName (podVolume # vols) (errs, cnt) =
     (case GetPodVolumePV pd podVolume (pvInfo ca) (pvcInfo ca) of
        Inl err \<Rightarrow> spread_loop ca pd nodeName vols (errs @ [err], cnt)
      | Inr None \<Rightarrow> spread_loop ca pd nodeName vols (errs, cnt)
      | Inr (Some v) \<Rightarrow>
          (case GetHostPathPVUsedPodMap v (podInfo ca) nodeName of
             Inl err \<Rightarrow> spread_loop ca pd nodeName vols (errs @ [err], cnt)
           | Inr podsMap \<Rightarrow>
               if IsSharedHostPathPV (Some v) then
                 spread_loop ca pd nodeName vols (errs, if length podsMap > 0 then cnt + 1 else cnt)
               else spread_loop ca pd nodeName vols (errs, cnt + of_nat (length podsMap))))"

definition spread_mapScoringNode :: "informers \<Rightarrow> pod \<Rightarrow> node \<Rightarrow> host_priority job" where
  "spread_mapScoringNode ca pd nd =
     (case spread_loop ca pd (node_name nd) (pod_volumes pd) ([], 0) of
        (errs, cnt) \<Rightarrow> (errs, \<lparr>hp_host = node_name nd, hp_score = cnt\<rparr>))"

definition spread_reduceScoringNode :: "(rat \<Rightarrow> int64) \<Rightarrow> host_priority list \<Rightarrow> host_priority list" where
  "spread_reduceScoringNode oor ps =
     (let maxCount = max_count ps; maxCountFloat = f64 maxCount
      in map (\<lambda>p. p\<lparr>hp_score := go_int oor
           (if 0 <s maxCount then fl (10 * fl (fl (maxCountFloat - f64 (hp_score p)) / maxCountFloat)) else 10)\<rparr>) ps)"

definition spread_NodesScoring ::
  "(rat \<Rightarrow> int64) \<Rightarrow> informers \<Rightarrow> pod option \<Rightarrow> node list \<Rightarrow> (host_priority list \<times> error option) outcome"
where
  "spread_NodesScoring oor ca = NodesScoring (spread_mapScoringNode ca) (spread_reduceScoringNode oor)"

section \<open>Its arithmetic\<close>

lemma spread_reduce_exact:
  assumes "\<forall>p \<in> set ps. 0 \<le> ival (hp_score p) \<and> ival (hp_score p) \<le> 2 ^ 45" and "p \<in> set ps"
  shows "ival (go_int oor (if 0 <s max_count ps
      then fl (10 * fl (fl (f64 (max_count ps) - f64 (hp_score p)) / f64 (max_count ps))) else 10)) =
    (if 0 < ival (max_count ps)
     then 10 * (ival (max_count ps) - ival (hp_score p)) div ival (max_count ps) else 10)"
proof (cases "0 < ival (max_count ps)")
  case True
  let ?m = "ival (max_count ps)" and ?s = "ival (hp_score p)"
  have m: "?m \<le> 2 ^ 45" using assms(1) by (intro max_count_le) simp_all
  have s: "0 \<le> ?s" "?s \<le> ?m" using assms max_count_ge [OF assms(2)] by auto
  have "f64 (hp_score p) = of_int ?s" and fm: "f64 (max_count ps) = of_int ?m"
    using m s by (auto intro!: f64_exact)
  then have "fl (f64 (max_count ps) - f64 (hp_score p)) = fl (of_int (?m - ?s))" by simp
  also have "\<dots> = of_int (?m - ?s)" using m s by (intro fl_of_int) simp_all
  finally have "fl (f64 (max_count ps) - f64 (hp_score p)) = of_int (?m - ?s)" .
  then show ?thesis
    using True scaled_score(1) [of "?m - ?s" ?m oor] m s by (simp add: word_sless_alt fm)
qed (simp add: word_sless_alt go_int_def trunc_def)

interpretation sp: priority "spread_mapScoringNode ca" "spread_reduceScoringNode oor" for oor ca
proof unfold_locales
  fix ps :: "host_priority list"
  assume range: "\<forall>p \<in> set ps. 0 \<le> ival (hp_score p) \<and> ival (hp_score p) \<le> 2 ^ 45"
  have m: "ival (max_count ps) \<le> 2 ^ 45" using range by (intro max_count_le) simp_all
  show "\<forall>p \<in> set (spread_reduceScoringNode oor ps). 0 \<le> ival (hp_score p) \<and> ival (hp_score p) \<le> 10"
  proof
    fix q assume "q \<in> set (spread_reduceScoringNode oor ps)"
    then obtain p where p: "p \<in> set ps" and q: "ival (hp_score q) =
        (if 0 < ival (max_count ps)
         then 10 * (ival (max_count ps) - ival (hp_score p)) div ival (max_count ps) else 10)"
      using spread_reduce_exact [OF range] by (auto simp: spread_reduceScoringNode_def Let_def)
    have "0 \<le> ival (max_count ps) - ival (hp_score p)" "ival (max_count ps) - ival (hp_score p) \<le> ival (max_count ps)"
      using range p max_count_ge [OF p] by auto
    from scaled_score(2,3) [OF this _ m] q show "0 \<le> ival (hp_score q) \<and> ival (hp_score q) \<le> 10" by simp
  qed
qed (simp_all add: spread_mapScoringNode_def spread_reduceScoringNode_def Let_def case_prod_beta)

section \<open>The count of a node\<close>

text \<open>
  What a volume adds to the count of a node: the pods on the node that use its claim and are
  not finished, by name; at most one for a shared volume.
\<close>

definition volume_users :: "pod list \<Rightarrow> string \<Rightarrow> pv \<Rightarrow> nat" where
  "volume_users all n v =
     (case pv_claim_ref v of
        None \<Rightarrow> 0
      | Some r \<Rightarrow>
          (let names = pod_name ` set (filter (\<lambda>p. (n = [] \<or> pod_node p = n) \<and>
                 isPodUsePVC p (ref_namespace r) (ref_name r) \<and> isPodReady p) all)
           in if IsSharedHostPathPV (Some v) then (if names = {} then 0 else 1) else card names))"

definition node_users :: "informers \<Rightarrow> pod list \<Rightarrow> pod \<Rightarrow> node \<Rightarrow> nat" where
  "node_users ca all pd nd =
     sum_list (map (\<lambda>w. case GetPodVolumePV pd w (pvInfo ca) (pvcInfo ca) of
       Inr (Some v) \<Rightarrow> volume_users all (node_name nd) v | _ \<Rightarrow> 0) (pod_volumes pd))"

lemma used_pods_users:
  assumes "pl_list c = Inr all" and "GetHostPathPVUsedPodMap v c n = Inr m"
  shows "volume_users all n v = (if IsSharedHostPathPV (Some v) then (if m = [] then 0 else 1) else length m)"
proof -
  obtain r where r: "pv_claim_ref v = Some r"
    using assms(2) by (cases "pv_claim_ref v") (simp_all add: GetHostPathPVUsedPodMap_def)
  let ?users = "filter (\<lambda>p. (n = [] \<or> pod_node p = n) \<and>
      isPodUsePVC p (ref_namespace r) (ref_name r) \<and> isPodReady p) all"
  have len: "length m = card (pod_name ` set ?users)"
    by (rule used_pods_length [OF r FilterByNodeAndPVC_ok [OF assms(1)] assms(2)])
  have "finite (pod_name ` set ?users)" by simp
  from card_0_eq [OF this] have "m = [] \<longleftrightarrow> pod_name ` set ?users = {}"
    by (simp only: len [symmetric] length_0_conv)
  with len r show ?thesis by (simp add: volume_users_def Let_def)
qed

lemma spread_loop_ok:
  assumes "pl_list (podInfo ca) = Inr all"
    and "fst (spread_loop ca pd n vs (errs, cnt)) = []"
  shows "errs = [] \<and> snd (spread_loop ca pd n vs (errs, cnt)) =
    cnt + of_nat (sum_list (map (\<lambda>w. case GetPodVolumePV pd w (pvInfo ca) (pvcInfo ca) of
       Inr (Some v) \<Rightarrow> volume_users all n v | _ \<Rightarrow> 0) vs))"
  using assms(2)
proof (induction vs arbitrary: errs cnt)
  case (Cons w vs)
  show ?case
  proof (cases "GetPodVolumePV pd w (pvInfo ca) (pvcInfo ca)")
    case (Inl e)
    with Cons.IH [of "errs @ [e]" cnt] Cons.prems show ?thesis by simp
  next
    case (Inr ov)
    show ?thesis
    proof (cases ov)
      case None
      with Inr Cons.IH [of errs cnt] Cons.prems show ?thesis by auto
    next
      case (Some v)
      show ?thesis
      proof (cases "GetHostPathPVUsedPodMap v (podInfo ca) n")
        case (Inl e)
        with Inr Some Cons.IH [of "errs @ [e]" cnt] Cons.prems
        show ?thesis by simp
      next
        case m: (Inr m)
        note u = used_pods_users [OF assms(1) m]
        show ?thesis
          using Inr Some m u Cons.prems
            Cons.IH [of errs "if IsSharedHostPathPV (Some v) then if length m > 0 then cnt + 1 else cnt
              else cnt + of_nat (length m)"]
          by (auto split: if_splits)
      qed
    qed
  qed
qed simp

lemma spread_count:
  assumes "pl_list (podInfo ca) = Inr all" and "fst (spread_mapScoringNode ca pd nd) = []"
    and "node_users ca all pd nd \<le> 2 ^ 45"
  shows "ival (hp_score (snd (spread_mapScoringNode ca pd nd))) = int (node_users ca all pd nd)"
proof -
  have "snd (spread_loop ca pd (node_name nd) (pod_volumes pd) ([], 0)) = of_nat (node_users ca all pd nd)"
    using spread_loop_ok [OF assms(1), of pd "node_name nd" "pod_volumes pd" "[]" 0] assms(2)
    by (simp add: spread_mapScoringNode_def case_prod_beta node_users_def)
  then have "hp_score (snd (spread_mapScoringNode ca pd nd)) = word_of_int (int (node_users ca all pd nd))"
    by (simp add: spread_mapScoringNode_def case_prod_beta)
  moreover have "int (node_users ca all pd nd) < 2 ^ 63"
    using assms(3) by simp
  ultimately show ?thesis by (simp only: ival_of_int)
qed

section \<open>Properties\<close>

lemma spread_result:
  assumes "spread_NodesScoring oor ca (Some pd) nodes = Done (list, None)"
  shows "list = spread_reduceScoringNode oor (map (\<lambda>nd. snd (spread_mapScoringNode ca pd nd)) nodes) \<and>
    (\<forall>nd \<in> set nodes. fst (spread_mapScoringNode ca pd nd) = [])"
  using assms
  by (auto simp: spread_NodesScoring_def NodesScoring_def Let_def after_wait_def scoring_jobs_def comp_def
      split: if_splits)

text \<open>
  C19 (equivalence).  The scores of the spread priority are those of integer arithmetic over the
  pods that use the volumes: with \<open>worst\<close> the largest number of such pods on a candidate, a
  node with \<open>k\<close> of them gets \<open>10 (worst - k) / worst\<close> rounded down, and every node gets 10 when
  there are none.
\<close>

theorem spread_scores:
  assumes "spread_NodesScoring oor ca (Some pd) nodes = Done (list, None)"
    and "pl_list (podInfo ca) = Inr all"
    and "\<forall>nd \<in> set nodes. node_users ca all pd nd \<le> 2 ^ 45" and "nodes \<noteq> []"
  shows "map (\<lambda>p. (hp_host p, ival (hp_score p))) list =
    map (\<lambda>nd. (node_name nd,
      let worst = Max (node_users ca all pd ` set nodes)
      in if worst = 0 then 10 else 10 * (int worst - int (node_users ca all pd nd)) div int worst)) nodes"
proof -
  let ?f = "\<lambda>nd. snd (spread_mapScoringNode ca pd nd)" and ?ps = "map (\<lambda>nd. snd (spread_mapScoringNode ca pd nd)) nodes"
  let ?w = "Max (node_users ca all pd ` set nodes)"
  note res = spread_result [OF assms(1)]
  have sc: "ival (hp_score (?f nd)) = int (node_users ca all pd nd)" if "nd \<in> set nodes" for nd
    using that res assms(3) by (intro spread_count [OF assms(2)]) auto
  have range: "\<forall>p \<in> set ?ps. 0 \<le> ival (hp_score p) \<and> ival (hp_score p) \<le> 2 ^ 45"
    using sc assms(3) by force
  have "ival (max_count ?ps) = Max (int ` node_users ca all pd ` set nodes)"
    using max_count_Max [of ?ps] range assms(4) sc by (simp add: image_image cong: image_cong_simp)
  also have "\<dots> = int ?w"
    using assms(4) by (intro mono_Max_commute [symmetric]) (auto simp: mono_def)
  finally have worst: "ival (max_count ?ps) = int ?w" .
  have one: "ival (go_int oor (if 0 <s max_count ?ps
        then fl (10 * fl (fl (f64 (max_count ?ps) - f64 (hp_score (?f nd))) / f64 (max_count ?ps))) else 10)) =
      (if ?w = 0 then 10 else 10 * (int ?w - int (node_users ca all pd nd)) div int ?w)" if "nd \<in> set nodes" for nd
    using spread_reduce_exact [OF range, of "?f nd" oor] that sc [OF that] worst by simp
  have host: "hp_host (?f nd) = node_name nd" for nd by (rule sp.map_host)
  have list: "list = spread_reduceScoringNode oor ?ps" using res by blast
  show ?thesis
    unfolding list spread_reduceScoringNode_def Let_def using one host by simp
qed

definition sample_spread :: informers where
  "sample_spread = sample_caches (sample_pv [] 6)
     [sample_pod ''a'' ''n1'', sample_pod ''b'' ''n1'', sample_pod ''c'' ''n2'']"

lemma sample_users:
  "node_users sample_spread [sample_pod ''a'' ''n1'', sample_pod ''b'' ''n1'', sample_pod ''c'' ''n2'']
     (sample_pod ''p1'' []) (sample_node n) = (if n = ''n1'' then 2 else if n = ''n2'' then 1 else if n = [] then 3 else 0)"
  by (auto simp: node_users_def volume_users_def sample_spread_def eval_defs isPodUsePVC_def)

lemma sample_spread_ok:
  "\<exists>list. spread_NodesScoring oor sample_spread (Some (sample_pod ''p1'' []))
     [sample_node ''n1'', sample_node ''n2'', sample_node ''n3''] = Done (list, None)"
  by (simp add: spread_NodesScoring_def NodesScoring_def Let_def after_wait_def scoring_jobs_def
      spread_mapScoringNode_def sample_spread_def eval_defs GetHostPathPVUsedPodMap_def FilterByNodeAndPVC_ok
      isPodUsePVC_def pod_key_def)

theorem spread_scores_witness:
  "\<exists>list. spread_NodesScoring (\<lambda>_. 0) sample_spread (Some (sample_pod ''p1'' []))
     [sample_node ''n1'', sample_node ''n2'', sample_node ''n3''] = Done (list, None) \<and>
     map (\<lambda>p. (hp_host p, ival (hp_score p))) list = [(''n1'', 0), (''n2'', 5), (''n3'', 10)]"
proof -
  let ?all = "[sample_pod ''a'' ''n1'', sample_pod ''b'' ''n1'', sample_pod ''c'' ''n2'']"
  let ?nodes = "[sample_node ''n1'', sample_node ''n2'', sample_node ''n3'']"
  obtain list where list: "spread_NodesScoring (\<lambda>_. 0) sample_spread (Some (sample_pod ''p1'' [])) ?nodes = Done (list, None)"
    using sample_spread_ok [of "\<lambda>_. 0"] by blast
  have "map (\<lambda>p. (hp_host p, ival (hp_score p))) list =
    map (\<lambda>nd. (node_name nd,
      let worst = Max (node_users sample_spread ?all (sample_pod ''p1'' []) ` set ?nodes)
      in if worst = 0 then 10
         else 10 * (int worst - int (node_users sample_spread ?all (sample_pod ''p1'' []) nd)) div int worst)) ?nodes"
    by (rule spread_scores [OF list])
      (simp_all add: sample_users, simp add: sample_spread_def sample_caches_def)
  with list show ?thesis by (simp add: sample_users)
qed

end
