(* ===== verification/ScoreService.thy ===== *)
theory ScoreService
  imports DiskUse Spread
begin

text \<open>
  The priority extender as a service: the goroutines of \<^verbatim>\<open>NodesScoring\<close> end with one result
  whatever their interleaving, and the outcomes of the route.
\<close>

section \<open>The goroutines\<close>

text \<open>
  C21 (refinement).  The concurrent scoring refines the sequential function: whenever the wait is
  over, whatever the order of the goroutines, the list is that of \<^verbatim>\<open>NodesScoring\<close> run node after
  node, and it fails exactly when that fails, with the same errors up to order.
\<close>

theorem scoring_deterministic:
  assumes "pool_reach zero_priority (scoring_jobs mapScore pd nodes) s"
    and "waits_over (scoring_jobs mapScore pd nodes) s"
    and "after_wait reduce (pl_slots s) (pl_errs s) = (list, err)"
  shows "\<exists>err'. NodesScoring mapScore reduce (Some pd) nodes = Done (list, err') \<and>
    (err = None \<and> err' = None \<or>
     (\<exists>es es'. err = Some (Aggregate es) \<and> err' = Some (Aggregate es') \<and> mset es = mset es'))"
proof -
  obtain r where "NodesScoring mapScore reduce (Some pd) nodes = Done r"
    by (simp add: NodesScoring_def Let_def)
  then obtain list' err' where seq: "NodesScoring mapScore reduce (Some pd) nodes = Done (list', err')"
    by (cases r) simp
  have "scoring_run mapScore reduce pd nodes (list, err)"
    unfolding scoring_run_def using assms by (intro exI [of _ s]) simp
  from scoring_run_result [OF this seq] seq show ?thesis by auto
qed

text \<open>Two goroutines, the second of which fails: it reports before the first one finishes.\<close>

definition sample_map :: "pod \<Rightarrow> node \<Rightarrow> host_priority job" where
  "sample_map pd nd = (if node_name nd = ''n1'' then ([], \<lparr>hp_host = ''n1'', hp_score = 7\<rparr>)
     else ([External ''bad''], \<lparr>hp_host = node_name nd, hp_score = 0\<rparr>))"

lemma sample_jobs:
  "scoring_jobs sample_map pd [sample_node ''n1'', sample_node ''n2''] =
     [([], \<lparr>hp_host = ''n1'', hp_score = 7\<rparr>), ([External ''bad''], \<lparr>hp_host = ''n2'', hp_score = 0\<rparr>)]"
  by (simp add: scoring_jobs_def sample_map_def)

definition sample_final :: "host_priority pool" where
  "sample_final = \<lparr>pl_spawned = 2, pl_wg = 0, pl_status = [Finished, Finished],
     pl_slots = [\<lparr>hp_host = ''n1'', hp_score = 7\<rparr>, \<lparr>hp_host = ''n2'', hp_score = 0\<rparr>], pl_errs = [External ''bad'']\<rparr>"

lemma sample_final_reach:
  "pool_reach zero_priority (scoring_jobs sample_map pd [sample_node ''n1'', sample_node ''n2'']) sample_final"
proof -
  let ?js = "[([], \<lparr>hp_host = ''n1'', hp_score = 7\<rparr>), ([External ''bad''], \<lparr>hp_host = ''n2'', hp_score = 0\<rparr>)]
    :: host_priority job list"
  let ?z = "zero_priority" and ?a = "\<lparr>hp_host = ''n1'', hp_score = 7\<rparr> :: host_priority"
    and ?b = "\<lparr>hp_host = ''n2'', hp_score = 0\<rparr> :: host_priority"
  let ?s1 = "\<lparr>pl_spawned = 1, pl_wg = 1, pl_status = [Running [], Unborn], pl_slots = [?z, ?z], pl_errs = []\<rparr>"
  let ?s2 = "\<lparr>pl_spawned = 2, pl_wg = 2, pl_status = [Running [], Running [External ''bad'']],
      pl_slots = [?z, ?z], pl_errs = []\<rparr>"
  let ?s3 = "\<lparr>pl_spawned = 2, pl_wg = 2, pl_status = [Running [], Running []],
      pl_slots = [?z, ?z], pl_errs = [External ''bad'']\<rparr>"
  let ?s4 = "\<lparr>pl_spawned = 2, pl_wg = 1, pl_status = [Running [], Finished],
      pl_slots = [?z, ?b], pl_errs = [External ''bad'']\<rparr>"
  have a: "pool_step ?js (pool_init ?z ?js) ?s1"
    using pool_step.spawn [of "pool_init ?z ?js" ?js] by (simp add: pool_init_def numeral_2_eq_2)
  have b: "pool_step ?js ?s1 ?s2" using pool_step.spawn [of ?s1 ?js] by (simp add: numeral_2_eq_2)
  have c: "pool_step ?js ?s2 ?s3" using pool_step.report [of 1 ?js ?s2 "External ''bad''" "[]"] by simp
  have d: "pool_step ?js ?s3 ?s4" using pool_step.finish [of 1 ?js ?s3] by simp
  have e: "pool_step ?js ?s4 sample_final"
    using pool_step.finish [of 0 ?js ?s4] by (simp add: sample_final_def)
  note reach = pool_reach.step [OF pool_reach.step [OF pool_reach.step [OF pool_reach.step [OF pool_reach.step
    [OF pool_reach.start a] b] c] d] e]
  from reach have "pool_reach ?z ?js sample_final" .
  then show ?thesis by (simp only: sample_jobs)
qed

theorem scoring_deterministic_witness:
  "\<exists>err'. NodesScoring sample_map (diskuse_reduceScoringNode (\<lambda>_. 0)) (Some (sample_pod ''p1'' []))
     [sample_node ''n1'', sample_node ''n2''] = Done (pl_slots sample_final, err')"
proof -
  have over: "waits_over (scoring_jobs sample_map (sample_pod ''p1'' []) [sample_node ''n1'', sample_node ''n2'']) sample_final"
    by (simp add: waits_over_def sample_jobs sample_final_def)
  have "after_wait (diskuse_reduceScoringNode (\<lambda>_. 0)) (pl_slots sample_final) (pl_errs sample_final) =
      (pl_slots sample_final, Some (Aggregate [External ''bad'']))"
    by (simp add: after_wait_def sample_final_def)
  from scoring_deterministic [OF sample_final_reach over this] show ?thesis by blast
qed

text \<open>
  C25 (termination).  The wait ends: in every reachable state either it is over or some goroutine
  (or the caller's loop) can move, and every move uses up work, of which there is at most two
  units for each node and one for each error.
\<close>

theorem scoring_terminates:
  assumes "pool_reach zero_priority (scoring_jobs mapScore pd nodes) s"
  shows "(waits_over (scoring_jobs mapScore pd nodes) s \<or> (\<exists>s'. pool_step (scoring_jobs mapScore pd nodes) s s')) \<and>
    (\<forall>s'. pool_step (scoring_jobs mapScore pd nodes) s s' \<longrightarrow>
       pool_work (scoring_jobs mapScore pd nodes) s' < pool_work (scoring_jobs mapScore pd nodes) s) \<and>
    pool_work (scoring_jobs mapScore pd nodes) (pool_init zero_priority (scoring_jobs mapScore pd nodes)) =
      sum_list (map (\<lambda>nd. length (fst (mapScore pd nd)) + 2) nodes)"
proof -
  note inv = pool_reach_inv [OF assms]
  have "pool_work js (pool_init zero_priority js) = sum_list (map (\<lambda>j. length (fst j) + 2) js)" for js
    by (simp add: pool_work_def pool_init_def sum_list_sum_nth atLeast0LessThan)
  then show ?thesis
    using pool_progress [OF inv] pool_work_decreases [OF inv]
    by (auto simp: scoring_jobs_def comp_def)
qed

theorem scoring_terminates_witness:
  "waits_over (scoring_jobs sample_map (sample_pod ''p1'' []) [sample_node ''n1'', sample_node ''n2'']) sample_final \<or>
   (\<exists>s'. pool_step (scoring_jobs sample_map (sample_pod ''p1'' []) [sample_node ''n1'', sample_node ''n2'']) sample_final s')"
  using scoring_terminates [OF sample_final_reach] by blast

section \<open>The route\<close>

text \<open>
  The outcomes of a priority's route: a body that does not decode, a request without
  nodes and a scoring error all panic in the handler (unlike the filter route, which reports an
  undecodable body in its result); only an encoded list is a 200, and the process ends when a
  scoring goroutine panics.
\<close>

theorem priority_route_outcomes:
  "prioritieRoute decode encode score None = BadRequest ''Please send a request body'' \<and>
   (prioritieRoute decode encode score (Some text) = Ok200 b \<longleftrightarrow>
     (\<exists>args items list. decode text = Inr args \<and> ea_nodes args = Some items \<and>
       score (ea_pod args) items = Done (list, None) \<and> encode list = Inr b)) \<and>
   (prioritieRoute decode encode score (Some text) = ProcessExit \<longleftrightarrow>
     (\<exists>args items. decode text = Inr args \<and> ea_nodes args = Some items \<and> score (ea_pod args) items = Panic))"
  by (auto simp: prioritieRoute_def Prioritize_Handler_def split: sum.splits option.splits outcome.splits)

text \<open>
  A request without a pod but with a node ends the scheduler extender's process: both
  priorities read the pod in goroutines that nothing recovers.
\<close>

theorem podless_request_exits:
  assumes "decode text = Inr args" and "ea_pod args = None" and "ea_nodes args = Some items" and "items \<noteq> []"
  shows "prioritieRoute decode encode (diskuse_NodesScoring oor cd ca) (Some text) = ProcessExit \<and>
    prioritieRoute decode encode (spread_NodesScoring oor ca) (Some text) = ProcessExit"
  using assms
  by (simp add: prioritieRoute_def Prioritize_Handler_def diskuse_NodesScoring_def spread_NodesScoring_def
      NodesScoring_def)

theorem podless_request_exits_witness:
  "prioritieRoute (\<lambda>_. Inr \<lparr>ea_pod = None, ea_nodes = Some [sample_node ''n1'']\<rparr>) Inr
     (diskuse_NodesScoring (\<lambda>_. 0) sample_codec sample_used) (Some ''{}'') = ProcessExit"
  using podless_request_exits [of "\<lambda>_. Inr \<lparr>ea_pod = None, ea_nodes = Some [sample_node ''n1'']\<rparr>" "''{}''"
      "\<lparr>ea_pod = None, ea_nodes = Some [sample_node ''n1'']\<rparr>" "[sample_node ''n1'']" Inr "\<lambda>_. 0" sample_codec sample_used]
  by simp

end
