(* ===== verification/PolicyServer.thy ===== *)
theory PolicyServer
  imports NsService
begin

text \<open>
  \<^verbatim>\<open>StartPolicyHttpServer\<close> and what is in front of the handlers: the routes of the web service, the
  basic authentication, and one HTTP request from its path to the handler.
\<close>

section \<open>Routes\<close>

datatype policy_route = RGet | RCheck | REdit | RLabels | RRefresh

definition policy_root :: string where
  "policy_root = ''/nsnodeselector''"

definition policy_routes :: "policy_route web_service" where
  "policy_routes = \<lparr>ws_root = policy_root, ws_routes = map (\<lambda>(sub, f).
     \<lparr>rt_method = ''GET'', rt_path = concatPath policy_root sub, rt_function = f\<rparr>)
     [(''/'', RGet), (''/check/{namespace}'', RCheck), (''/{addupdateordelete}/'', REdit),
      (''/nodelabels/'', RLabels), (''/refresh/{namespace}'', RRefresh)]\<rparr>"

text \<open>
  The handler's request: its path parameter and its form.  The routes consume every type and
  produce JSON; the \<^verbatim>\<open>Accept\<close> header of the request is taken to admit it.
\<close>

definition policy_request :: "policy_route \<Rightarrow> string list \<Rightarrow> edit_form \<Rightarrow> ns_request" where
  "policy_request f tokens form =
     (case f of
        RGet \<Rightarrow> GetConfig
      | RCheck \<Rightarrow> CheckNamespace (tokens ! 2)
      | REdit \<Rightarrow> EditConfig (tokens ! 1) form
      | RLabels \<Rightarrow> NodeLabels
      | RRefresh \<Rightarrow> Refresh (tokens ! 2))"

definition policy_dispatch :: "string \<Rightarrow> string \<Rightarrow> edit_form \<Rightarrow> http_error + ns_request" where
  "policy_dispatch meth path form =
     (case SelectRoute (\<lambda>_ _. False) (\<lambda>_. True) (\<lambda>_. True) [policy_routes] meth path of
        Inl e \<Rightarrow> Inl e
      | Inr route \<Rightarrow> Inr (policy_request (rt_function route) (tokenizePath path) form))"

lemma policy_route_list: "ws_routes policy_routes =
  [\<lparr>rt_method = ''GET'', rt_path = ''/nsnodeselector/'', rt_function = RGet\<rparr>,
   \<lparr>rt_method = ''GET'', rt_path = ''/nsnodeselector/check/{namespace}'', rt_function = RCheck\<rparr>,
   \<lparr>rt_method = ''GET'', rt_path = ''/nsnodeselector/{addupdateordelete}/'', rt_function = REdit\<rparr>,
   \<lparr>rt_method = ''GET'', rt_path = ''/nsnodeselector/nodelabels/'', rt_function = RLabels\<rparr>,
   \<lparr>rt_method = ''GET'', rt_path = ''/nsnodeselector/refresh/{namespace}'', rt_function = RRefresh\<rparr>]"
  by code_simp

lemma policy_tokens:
  "tokenizePath ''/nsnodeselector/'' = [''nsnodeselector'']"
  "tokenizePath ''/nsnodeselector/check/{namespace}'' = [''nsnodeselector'', ''check'', ''{namespace}'']"
  "tokenizePath ''/nsnodeselector/{addupdateordelete}/'' = [''nsnodeselector'', ''{addupdateordelete}'']"
  "tokenizePath ''/nsnodeselector/nodelabels/'' = [''nsnodeselector'', ''nodelabels'']"
  "tokenizePath ''/nsnodeselector/refresh/{namespace}'' = [''nsnodeselector'', ''refresh'', ''{namespace}'']"
  "tokenizePath (ws_root policy_routes) = [''nsnodeselector'']"
  by code_simp+

text \<open>The candidates for the tokens of a path, best first.\<close>

lemma policy_select:
  "map rt_function (selectRoutes (\<lambda>_ _. False) policy_routes tokens) =
     (case tokens of
        [a] \<Rightarrow> if a = ''nsnodeselector'' then [RGet] else []
      | [a, b] \<Rightarrow> if a = ''nsnodeselector'' then (if b = ''nodelabels'' then [RLabels, REdit] else [REdit]) else []
      | [a, b, c] \<Rightarrow> if a = ''nsnodeselector'' \<and> b = ''check'' then [RCheck]
          else if a = ''nsnodeselector'' \<and> b = ''refresh'' then [RRefresh] else []
      | _ \<Rightarrow> [])"
proof -
  consider "tokens = []" | a where "tokens = [a]" | a b where "tokens = [a, b]" | a b c where "tokens = [a, b, c]"
    | a b c d ts where "tokens = a # b # c # d # ts"
    by (metis neq_Nil_conv)
  then show ?thesis
    by cases (simp_all add: selectRoutes_def policy_route_list policy_tokens matchesRouteByPathTokens_def
        route_key_def)
qed

section \<open>Authentication and one request\<close>

text \<open>
  The server that \<^verbatim>\<open>StartPolicyHttpServer\<close> starts: whether it uses TLS and what checks the
  credentials, if anything does.  \<open>newCSV\<close> stands for \<^verbatim>\<open>passwordfile.NewCSV\<close> with
  \<^verbatim>\<open>basicauth.New\<close>.  Without a readable password file no server is started.
\<close>

type_synonym 'c authenticator = "'c \<Rightarrow> bool \<times> error option"

record 'c policy_server =
  ps_tls :: bool
  ps_auth :: "'c authenticator option"

definition newAuthenticatorFromBasicAuthFile ::
  "(string \<Rightarrow> error + 'c authenticator) \<Rightarrow> string \<Rightarrow> error + 'c authenticator" where
  "newAuthenticatorFromBasicAuthFile newCSV basicAuthFile =
     (case newCSV basicAuthFile of Inl err \<Rightarrow> Inl err | Inr auth \<Rightarrow> Inr auth)"

definition StartPolicyHttpServer ::
  "(string \<Rightarrow> error + 'c authenticator) \<Rightarrow> string \<Rightarrow> string \<Rightarrow> string \<Rightarrow> 'c policy_server option" where
  "StartPolicyHttpServer newCSV certFile keyFile basicAuthFile =
     (let tls = (certFile \<noteq> [] \<and> keyFile \<noteq> [])
      in if basicAuthFile \<noteq> [] then
           (case newAuthenticatorFromBasicAuthFile newCSV basicAuthFile of
              Inl err \<Rightarrow> None
            | Inr auth \<Rightarrow> Some \<lparr>ps_tls = tls, ps_auth = Some auth\<rparr>)
         else Some \<lparr>ps_tls = tls, ps_auth = None\<rparr>)"

datatype policy_result = Unauthorized401 | RouteError http_error | Handled "response outcome"

definition WithAuthentication ::
  "'c authenticator \<Rightarrow> 'c \<Rightarrow> (server_state \<Rightarrow> policy_result \<times> api_call list \<times> server_state) \<Rightarrow>
   server_state \<Rightarrow> policy_result \<times> api_call list \<times> server_state" where
  "WithAuthentication auth cred handler st =
     (case auth cred of (ok, err) \<Rightarrow>
        if ok = False \<or> err \<noteq> None then (Unauthorized401, [], st) else handler st)"

definition policy_mux ::
  "ns_codec \<Rightarrow> string \<Rightarrow> string \<Rightarrow> edit_form \<Rightarrow> api_env \<Rightarrow> server_state \<Rightarrow>
   policy_result \<times> api_call list \<times> server_state" where
  "policy_mux cd meth path form env st =
     (case policy_dispatch meth path form of
        Inl e \<Rightarrow> (RouteError e, [], st)
      | Inr req \<Rightarrow> (case ns_handle cd req env st of (res, calls, st') \<Rightarrow> (Handled res, calls, st')))"

definition policy_serve ::
  "ns_codec \<Rightarrow> 'c policy_server \<Rightarrow> 'c \<Rightarrow> string \<Rightarrow> string \<Rightarrow> edit_form \<Rightarrow> api_env \<Rightarrow> server_state \<Rightarrow>
   policy_result \<times> api_call list \<times> server_state" where
  "policy_serve cd srv cred meth path form env st =
     (case ps_auth srv of
        None \<Rightarrow> policy_mux cd meth path form env st
      | Some auth \<Rightarrow> WithAuthentication auth cred (policy_mux cd meth path form env) st)"

section \<open>What the front promises\<close>

text \<open>The table of the paths.\<close>

definition policy_table :: "string list \<Rightarrow> edit_form \<Rightarrow> ns_request option" where
  "policy_table tokens form =
     (case tokens of
        [a] \<Rightarrow> if a = ''nsnodeselector'' then Some GetConfig else None
      | [a, b] \<Rightarrow> if a = ''nsnodeselector''
          then Some (if b = ''nodelabels'' then NodeLabels else EditConfig b form) else None
      | [a, b, c] \<Rightarrow> if a = ''nsnodeselector'' \<and> b = ''check'' then Some (CheckNamespace c)
          else if a = ''nsnodeselector'' \<and> b = ''refresh'' then Some (Refresh c) else None
      | _ \<Rightarrow> None)"

lemma policy_methods: "r \<in> set (selectRoutes regex policy_routes tokens) \<Longrightarrow> rt_method r = ''GET''"
  by (auto simp: selectRoutes_def policy_route_list split: option.splits prod.splits if_splits)

text \<open>The first candidate is taken, for the one method there is.\<close>

lemma detectRoute_first:
  assumes "\<forall>r \<in> set rs. rt_method r = m0" and "rs \<noteq> []"
  shows "detectRoute (\<lambda>_. True) (\<lambda>_. True) rs meth = (if meth = m0 then Inr (hd rs) else Inl MethodNotAllowed405)"
proof -
  have "filter (\<lambda>r. meth = rt_method r) rs = (if meth = m0 then rs else [])"
    using assms(1) by (auto simp: filter_id_conv filter_empty_conv)
  with assms(2) show ?thesis by (simp add: detectRoute_def Let_def)
qed

lemma policy_detect:
  "detectWebService tokens [policy_routes] =
     (if \<exists>ts. tokens = ''nsnodeselector'' # ts then Some policy_routes else None)"
proof -
  have "list_all static_token [''nsnodeselector'']" by code_simp
  from score_static [OF this, of tokens]
  have "computeWebserviceScore tokens [''nsnodeselector''] = None \<longleftrightarrow> \<not> (\<exists>ts. tokens = ''nsnodeselector'' # ts)"
    by (cases tokens) auto
  then show ?thesis
    by (auto simp: detectWebService_def policy_tokens split: option.splits)
qed

lemma policy_candidates:
  assumes "selectRoutes (\<lambda>_ _. False) policy_routes tokens = rs"
  shows "policy_table tokens form =
    (case rs of [] \<Rightarrow> None | r # _ \<Rightarrow> Some (policy_request (rt_function r) tokens form))"
proof -
  have "map rt_function rs = map rt_function (selectRoutes (\<lambda>_ _. False) policy_routes tokens)" by (simp add: assms)
  also note policy_select
  finally show ?thesis
    by (cases rs) (auto simp: policy_table_def policy_request_def split: list.splits if_splits)
qed

text \<open>
  The table of the policy server, as the vendored router computes it: a GET on
  the root shows the configuration, \<open>nodelabels\<close> the labels, any other one element below the
  root is an operation to edit with, \<open>check\<close> and \<open>refresh\<close> take a namespace, which is never
  empty (an empty one would stand for all namespaces of the cluster); other paths are not found
  and other methods not allowed.
\<close>

theorem policy_paths:
  "policy_dispatch meth path form =
     (case policy_table (tokenizePath path) form of
        None \<Rightarrow> Inl NotFound404
      | Some req \<Rightarrow> if meth = ''GET'' then Inr req else Inl MethodNotAllowed405) \<and>
   policy_dispatch meth path form \<noteq> Inr (Refresh []) \<and> policy_dispatch meth path form \<noteq> Inr (CheckNamespace [])"
proof -
  let ?ts = "tokenizePath path"
  obtain rs where rs: "selectRoutes (\<lambda>_ _. False) policy_routes ?ts = rs" by blast
  note tab = policy_candidates [OF rs, of form]
  have eq: "policy_dispatch meth path form = (case policy_table ?ts form of
        None \<Rightarrow> Inl NotFound404
      | Some req \<Rightarrow> if meth = ''GET'' then Inr req else Inl MethodNotAllowed405)"
  proof (cases "\<exists>ts. ?ts = ''nsnodeselector'' # ts")
    case False
    then have "policy_table ?ts form = None" by (auto simp: policy_table_def split: list.splits)
    with False show ?thesis by (simp add: policy_dispatch_def SelectRoute_def policy_detect Let_def)
  next
    case True
    have "\<forall>r \<in> set rs. rt_method r = ''GET''" using policy_methods rs by blast
    from detectRoute_first [OF this, of meth] True tab show ?thesis
      by (cases rs) (simp_all add: policy_dispatch_def SelectRoute_def policy_detect rs Let_def)
  qed
  have "c \<noteq> []" if "policy_table ?ts form = Some (Refresh c) \<or> policy_table ?ts form = Some (CheckNamespace c)" for c
    using tokenizePath_last [of path] that by (auto simp: policy_table_def split: list.splits if_splits)
  then show ?thesis unfolding eq by (auto split: option.splits)
qed

text \<open>
  C26 (safety). With a password file, a request that is not authenticated, or whose
  authentication ends with an error, is answered with 401, changes nothing in the process and
  asks nothing of the API server, whatever its path. When the file cannot be read there is no
  server at all.
\<close>

theorem unauthenticated_has_no_effect:
  assumes "basicAuthFile \<noteq> []"
  shows "((\<exists>srv. StartPolicyHttpServer newCSV certFile keyFile basicAuthFile = Some srv) \<longleftrightarrow>
      (\<exists>auth. newCSV basicAuthFile = Inr auth)) \<and>
    (\<forall>srv auth. StartPolicyHttpServer newCSV certFile keyFile basicAuthFile = Some srv \<and>
      newCSV basicAuthFile = Inr auth \<and> auth cred \<noteq> (True, None) \<longrightarrow>
      policy_serve cd srv cred meth path form env st = (Unauthorized401, [], st))"
  using assms
  by (auto simp: StartPolicyHttpServer_def newAuthenticatorFromBasicAuthFile_def policy_serve_def
      WithAuthentication_def Let_def split: sum.splits prod.splits)

definition sample_auth :: "string \<Rightarrow> error + string authenticator" where
  "sample_auth file = (if file = ''users.csv'' then Inr (\<lambda>cred. (cred = ''secret'', None)) else Inl (External ''open''))"

lemma unauthenticated_has_no_effect_witness:
  "policy_serve sample_ns_codec \<lparr>ps_tls = False, ps_auth = Some (\<lambda>cred. (cred = ''secret'', None))\<rparr> ''guess'' ''GET''
     ''/nsnodeselector/refresh/ns'' sample_form sample_env sample_cached = (Unauthorized401, [], sample_cached)"
  using unauthenticated_has_no_effect [of "''users.csv''" sample_auth "[]" "[]" "''guess''" sample_ns_codec "''GET''"
      "''/nsnodeselector/refresh/ns''" sample_form sample_env sample_cached]
  by (simp add: StartPolicyHttpServer_def newAuthenticatorFromBasicAuthFile_def sample_auth_def)

end
