(* ===== verification/MainProg.thy ===== *)
theory MainProg
  imports FilterService ScoreService PolicyServer
begin

text \<open>
  \<^verbatim>\<open>pkg/main.go\<close> and what the packages do when they are loaded: the five components that
  register themselves, their \<^verbatim>\<open>Init\<close> and \<^verbatim>\<open>Ready\<close>, the start-up with its exit codes, and the
  routes of the scheduler's server.
\<close>

section \<open>The components\<close>

text \<open>Whether the three informers have synced.\<close>

record informer_sync =
  syn_pv :: bool
  syn_pvc :: bool
  syn_pod :: bool

definition hasSynced :: "informer_sync \<Rightarrow> bool" where
  "hasSynced s = (syn_pv s \<and> syn_pvc s \<and> syn_pod s)"

text \<open>
  What the \<^verbatim>\<open>init\<close> functions register.  \<^verbatim>\<open>Init\<close> of every component returns nil.  The two hostpath
  predicates and the two priorities get their \<^verbatim>\<open>hasSynced\<close> there; the namespace predicate's
  \<^verbatim>\<open>Ready\<close> is true from the start.
\<close>

definition affinity_plugin ::
  "codec \<Rightarrow> (string \<Rightarrow> string \<Rightarrow> error + pod) \<Rightarrow> informers \<Rightarrow> informer_sync \<Rightarrow> predicate" where
  "affinity_plugin cd api ca s = \<lparr>p_name = affinityName, p_init = None, p_started = False, p_synced = hasSynced s,
     p_match = affinity_PodMatchNode cd api ca\<rparr>"

definition pressure_plugin :: "codec \<Rightarrow> informers \<Rightarrow> informer_sync \<Rightarrow> predicate" where
  "pressure_plugin cd ca s = \<lparr>p_name = pressureName, p_init = None, p_started = False, p_synced = hasSynced s,
     p_match = pressure_PodMatchNode cd ca\<rparr>"

definition namespace_plugin :: "ns_config option \<Rightarrow> predicate" where
  "namespace_plugin config = \<lparr>p_name = nsName, p_init = None, p_started = True, p_synced = True,
     p_match = ns_match config\<rparr>"

definition diskuse_plugin :: "(rat \<Rightarrow> int64) \<Rightarrow> codec \<Rightarrow> informers \<Rightarrow> informer_sync \<Rightarrow> prioritize" where
  "diskuse_plugin oor cd ca s = \<lparr>q_name = diskuseName, q_init = None, q_started = False, q_synced = hasSynced s,
     q_score = diskuse_NodesScoring oor cd ca\<rparr>"

definition spread_plugin :: "(rat \<Rightarrow> int64) \<Rightarrow> informers \<Rightarrow> informer_sync \<Rightarrow> prioritize" where
  "spread_plugin oor ca s = \<lparr>q_name = spreadName, q_init = None, q_started = False, q_synced = hasSynced s,
     q_score = spread_NodesScoring oor ca\<rparr>"

text \<open>The registries when \<^verbatim>\<open>main\<close> starts: the files of a package are loaded in order of their names.\<close>

definition loaded_predicates :: "predicate list \<Rightarrow> registry_state" where
  "loaded_predicates ps = fold (\<lambda>p s. snd (predicate_Regist p s)) ps init_registry"

definition loaded_prioritizes :: "prioritize list \<Rightarrow> prioritize_state" where
  "loaded_prioritizes qs = fold (\<lambda>q s. snd (prioritize_Regist q s)) qs init_prioritizes"

section \<open>Waiting\<close>

text \<open>
  \<^verbatim>\<open>cache.WaitForCacheSync\<close>: at the ticks of a clock, until the function is true, the channel is
  closed (then the answer is false) or the function panics; it may wait for ever.
\<close>

partial_function (option) WaitForCacheSync ::
  "(nat \<Rightarrow> bool) \<Rightarrow> (nat \<Rightarrow> bool outcome) \<Rightarrow> nat \<Rightarrow> (bool \<times> nat) outcome option" where
  "WaitForCacheSync open_at ready n =
     (case ready n of
        Panic \<Rightarrow> Some Panic
      | Done ok \<Rightarrow> if ok then Some (Done (True, n))
          else if \<not> open_at n then Some (Done (False, n))
          else WaitForCacheSync open_at ready (n + 1))"

lemma wait_until:
  assumes "\<And>i. n \<le> i \<Longrightarrow> i < k \<Longrightarrow> ready i = Done False \<and> open_at i" and "n \<le> k"
  shows "WaitForCacheSync open_at ready n = WaitForCacheSync open_at ready k"
  using assms
proof (induction "k - n" arbitrary: n)
  case (Suc m)
  then have "ready n = Done False" "open_at n" by simp_all
  then have "WaitForCacheSync open_at ready n = WaitForCacheSync open_at ready (n + 1)"
    by (subst WaitForCacheSync.simps) simp
  also have "\<dots> = WaitForCacheSync open_at ready k" using Suc by simp
  finally show ?case .
qed simp

lemma wait_first:
  assumes "\<And>i. n \<le> i \<Longrightarrow> i < k \<Longrightarrow> ready i = Done False \<and> open_at i" and "n \<le> k" and "ready k = Done True"
  shows "WaitForCacheSync open_at ready n = Some (Done (True, k))"
  using wait_until [OF assms(1,2)] assms(3) by (subst (asm) (2) WaitForCacheSync.simps) simp

text \<open>A wait that ends ended for one of the three reasons.\<close>

definition wait_ended :: "(nat \<Rightarrow> bool) \<Rightarrow> (nat \<Rightarrow> bool outcome) \<Rightarrow> nat \<Rightarrow> (bool \<times> nat) outcome \<Rightarrow> bool" where
  "wait_ended open_at ready n r \<longleftrightarrow>
     (\<exists>k \<ge> n. r = Panic \<and> ready k = Panic) \<or> (\<exists>k \<ge> n. r = Done (True, k) \<and> ready k = Done True) \<or>
     (\<exists>k \<ge> n. r = Done (False, k) \<and> \<not> open_at k)"

lemma wait_ended_later: "wait_ended open_at ready (n + 1) r \<Longrightarrow> wait_ended open_at ready n r"
  unfolding wait_ended_def by (blast dest: add_leD1)

lemma wait_result:
  assumes ret: "WaitForCacheSync open_at ready n = Some r"
  shows "wait_ended open_at ready n r"
proof (rule WaitForCacheSync.raw_induct [where P = wait_ended, OF _ ret])
  fix wait open_at ready n r
  assume IH: "\<And>open_at ready n r. wait open_at ready n = Some r \<Longrightarrow> wait_ended open_at ready n r"
    and eq: "(case ready n of Panic \<Rightarrow> Some Panic
      | Done ok \<Rightarrow> if ok then Some (Done (True, n)) else if \<not> open_at n then Some (Done (False, n))
          else wait open_at ready (n + 1)) = Some r"
  show "wait_ended open_at ready n r"
  proof (cases "ready n = Done False \<and> open_at n")
    case True
    with eq have "wait open_at ready (n + 1) = Some r" by simp
    from wait_ended_later [OF IH [OF this]] show ?thesis .
  next
    case False
    with eq show ?thesis
      unfolding wait_ended_def by (cases "ready n") (auto split: if_splits)
  qed
qed

text \<open>
  \<open>synced n c\<close>: whether the informers of component \<open>c\<close> have synced at tick \<open>n\<close>.  The namespace
  predicate has no informers; the runs of the program are those in which it is ready at every tick.
\<close>

definition predicates_at :: "(nat \<Rightarrow> string \<Rightarrow> bool) \<Rightarrow> registry_state \<Rightarrow> nat \<Rightarrow> registry_state" where
  "predicates_at synced st n =
     st\<lparr>predicateList := map (\<lambda>p. p\<lparr>p_synced := synced n (p_name p)\<rparr>) (predicateList st)\<rparr>"

definition prioritizes_at :: "(nat \<Rightarrow> string \<Rightarrow> bool) \<Rightarrow> prioritize_state \<Rightarrow> nat \<Rightarrow> prioritize_state" where
  "prioritizes_at synced st n =
     st\<lparr>prioritizeList := map (\<lambda>q. q\<lparr>q_synced := synced n (q_name q)\<rparr>) (prioritizeList st)\<rparr>"

text \<open>\<^verbatim>\<open>waitReady\<close>: the predicates, then the priorities.\<close>

definition waitReady ::
  "(nat \<Rightarrow> bool) \<Rightarrow> (nat \<Rightarrow> string \<Rightarrow> bool) \<Rightarrow> registry_state \<Rightarrow> prioritize_state \<Rightarrow> bool outcome option" where
  "waitReady open_at synced ps qs =
     (case WaitForCacheSync open_at (\<lambda>n. predicate_Ready (predicates_at synced ps n)) 0 of
        None \<Rightarrow> None
      | Some Panic \<Rightarrow> Some Panic
      | Some (Done (ok, n)) \<Rightarrow>
          if \<not> ok then Some (Done False)
          else (case WaitForCacheSync open_at (\<lambda>n. prioritize_Ready (prioritizes_at synced qs n)) n of
                  None \<Rightarrow> None
                | Some Panic \<Rightarrow> Some Panic
                | Some (Done (ok2, m)) \<Rightarrow> Some (Done ok2)))"

section \<open>Start-up\<close>

definition apiPrefix :: string where "apiPrefix = ''scheduler''"

definition initAll :: "registry_state \<Rightarrow> prioritize_state \<Rightarrow> error option \<times> registry_state \<times> prioritize_state" where
  "initAll ps qs =
     (case predicate_Init ps of
        (Some errInit, ps') \<Rightarrow> (Some errInit, ps', qs)
      | (None, ps') \<Rightarrow>
          (case prioritize_Init qs of
             (Some errInit, qs') \<Rightarrow> (Some errInit, ps', qs')
           | (None, qs') \<Rightarrow> (None, ps', qs')))"

text \<open>The root paths of the web services, in the order of their installation.\<close>

definition common_paths :: "string list" where
  "common_paths = [''/version'', ''/health'']"

definition installHttpServer :: "registry_state \<Rightarrow> prioritize_state \<Rightarrow> error + string list" where
  "installHttpServer ps qs =
     (case predicate_InstallHttpServer apiPrefix ps of
        Inl errInstall \<Rightarrow> Inl errInstall
      | Inr paths \<Rightarrow>
          (case prioritize_InstallHttpServer apiPrefix qs of
             Inl errInstall \<Rightarrow> Inl errInstall
           | Inr paths2 \<Rightarrow> Inr (paths @ paths2 @ common_paths)))"

text \<open>
  The container refuses a second service with the same root path by ending the process.  The patterns that it
  registers besides with the \<^verbatim>\<open>ServeMux\<close>, which clash for names such as \<^verbatim>\<open>a\<close> and \<^verbatim>\<open>a/\<close>, are not modelled.
\<close>

definition container_accepts :: "string list \<Rightarrow> bool" where
  "container_accepts paths = distinct paths"

record main_flags =
  fl_runMode :: string
  fl_certFile :: string
  fl_keyFile :: string
  fl_basicAuthFile :: string
  fl_kubeConfig :: string

text \<open>The three functions of the client library that lead to a client.\<close>

record ('k, 'cs) client_api =
  cl_fromFlags :: "string \<Rightarrow> error + 'k"      \<comment> \<open>\<^verbatim>\<open>clientcmd.BuildConfigFromFlags\<close>\<close>
  cl_inCluster :: "error + 'k"                \<comment> \<open>\<^verbatim>\<open>rest.InClusterConfig\<close>\<close>
  cl_newForConfig :: "'k \<Rightarrow> error + 'cs"      \<comment> \<open>\<^verbatim>\<open>kubernetes.NewForConfig\<close>\<close>

definition buildConfig :: "('k, 'cs) client_api \<Rightarrow> string \<Rightarrow> error + 'k" where
  "buildConfig cl kubeconfig = (if kubeconfig \<noteq> [] then cl_fromFlags cl kubeconfig else cl_inCluster cl)"

definition getClientset :: "('k, 'cs) client_api \<Rightarrow> string \<Rightarrow> error + 'cs" where
  "getClientset cl kubeConfig =
     (case buildConfig cl kubeConfig of
        Inl errConfig \<Rightarrow> Inl errConfig
      | Inr config \<Rightarrow> (case cl_newForConfig cl config of Inl err \<Rightarrow> Inl err | Inr clientset \<Rightarrow> Inr clientset))"

text \<open>
  How the program ends, or goes on: exit with a code, a panic, blocked with only the policy
  server (if that was started), or serving the paths.
\<close>

datatype 'c program = ExitWith nat | MainPanic
  | BackendOnly "'c policy_server option"
  | Serving "string list" "'c policy_server option"

text \<open>
  \<^verbatim>\<open>main\<close>; the result None is waiting for ever.  \<^verbatim>\<open>glog.Fatalf\<close> exits with code 255.  Nothing
  closes the stop channel, so the mode \<open>backendonly\<close> blocks and the waits see it open.
\<close>

definition main_program ::
  "(string \<Rightarrow> error + 'c authenticator) \<Rightarrow> ('k, 'cs) client_api \<Rightarrow> (nat \<Rightarrow> string \<Rightarrow> bool) \<Rightarrow>
   registry_state \<Rightarrow> prioritize_state \<Rightarrow> main_flags \<Rightarrow> 'c program option" where
  "main_program newCSV cl synced ps qs flg =
     (if fl_runMode flg \<noteq> ''all'' \<and> fl_runMode flg \<noteq> ''scheduleronly'' \<and> fl_runMode flg \<noteq> ''backendonly''
      then Some (ExitWith 255)
      else (case getClientset cl (fl_kubeConfig flg) of
        Inl errGet \<Rightarrow> Some (ExitWith 1)
      | Inr clientset \<Rightarrow>
          (let policy = (if fl_runMode flg = ''all'' \<or> fl_runMode flg = ''backendonly''
                 then StartPolicyHttpServer newCSV (fl_certFile flg) (fl_keyFile flg) (fl_basicAuthFile flg) else None)
           in if fl_runMode flg = ''backendonly'' then Some (BackendOnly policy)
              else (case initAll ps qs of
                (Some errInit, ps', qs') \<Rightarrow> Some (ExitWith 2)
              | (None, ps', qs') \<Rightarrow>
                  (case waitReady (\<lambda>_. True) synced ps' qs' of
                     None \<Rightarrow> None
                   | Some Panic \<Rightarrow> Some MainPanic
                   | Some (Done ok) \<Rightarrow>
                       if \<not> ok then Some (ExitWith 3)
                       else (case installHttpServer ps' qs' of
                               Inl errInstall \<Rightarrow> Some (ExitWith 4)
                             | Inr paths \<Rightarrow>
                                 if container_accepts paths then Some (Serving paths policy)
                                 else Some (ExitWith 1)))))))"

section \<open>What start-up promises\<close>

text \<open>Registered components with distinct names that initialise, as in \<^verbatim>\<open>startup\<close>.\<close>

lemma loaded_predicates_eq:
  assumes "distinct (map p_name ps)" and "[] \<notin> set (map p_name ps)"
  shows "loaded_predicates ps = \<lparr>predicateList = ps, inited = False\<rparr>"
proof -
  have "fold (\<lambda>p s. snd (predicate_Regist p s)) qs s = s\<lparr>predicateList := predicateList s @ qs\<rparr>"
    if "distinct (map p_name (predicateList s @ qs))" "[] \<notin> set (map p_name qs)" for qs s
    using that by (induction qs arbitrary: s) (auto simp: predicate_Regist_def)
  from this [of init_registry ps] assms show ?thesis by (simp add: loaded_predicates_def init_registry_def)
qed

lemma loaded_prioritizes_eq:
  assumes "distinct (map q_name qs)" and "[] \<notin> set (map q_name qs)"
  shows "loaded_prioritizes qs = \<lparr>prioritizeList = qs, q_inited = False\<rparr>"
proof -
  have "fold (\<lambda>p s. snd (prioritize_Regist p s)) rs s = s\<lparr>prioritizeList := prioritizeList s @ rs\<rparr>"
    if "distinct (map q_name (prioritizeList s @ rs))" "[] \<notin> set (map q_name rs)" for rs s
    using that by (induction rs arbitrary: s) (auto simp: prioritize_Regist_def)
  from this [of init_prioritizes qs] assms show ?thesis by (simp add: loaded_prioritizes_def init_prioritizes_def)
qed

lemma init_loop_all: "\<forall>p \<in> set ps. p_init p = None \<Longrightarrow> init_loop ps = (None, map (\<lambda>p. p\<lparr>p_started := True\<rparr>) ps)"
  by (induction ps) auto

lemma q_init_loop_all: "\<forall>q \<in> set qs. q_init q = None \<Longrightarrow> q_init_loop qs = (None, map (\<lambda>q. q\<lparr>q_started := True\<rparr>) qs)"
  by (induction qs) auto

lemma ready_loop_all: "\<forall>p \<in> set ps. p_started p \<Longrightarrow> ready_loop ps = Done (\<forall>p \<in> set ps. p_synced p)"
  by (induction ps) auto

lemma q_ready_loop_all: "\<forall>q \<in> set qs. q_started q \<Longrightarrow> q_ready_loop qs = Done (\<forall>q \<in> set qs. q_synced q)"
  by (induction qs) auto

definition good_predicates :: "predicate list \<Rightarrow> bool" where
  "good_predicates ps \<longleftrightarrow> distinct (map p_name ps) \<and> [] \<notin> set (map p_name ps) \<and> (\<forall>p \<in> set ps. p_init p = None)"

definition good_prioritizes :: "prioritize list \<Rightarrow> bool" where
  "good_prioritizes qs \<longleftrightarrow> distinct (map q_name qs) \<and> [] \<notin> set (map q_name qs) \<and> (\<forall>q \<in> set qs. q_init q = None)"

lemma started_predicates:
  assumes "good_predicates ps"
  shows "predicate_Init (loaded_predicates ps) =
    (None, \<lparr>predicateList = map (\<lambda>p. p\<lparr>p_started := True\<rparr>) ps, inited = True\<rparr>)"
  using assms by (simp add: good_predicates_def loaded_predicates_eq predicate_Init_def init_loop_all)

lemma started_prioritizes:
  assumes "good_prioritizes qs"
  shows "prioritize_Init (loaded_prioritizes qs) =
    (None, \<lparr>prioritizeList = map (\<lambda>q. q\<lparr>q_started := True\<rparr>) qs, q_inited = True\<rparr>)"
  using assms by (simp add: good_prioritizes_def loaded_prioritizes_eq prioritize_Init_def q_init_loop_all)

lemma started_ready:
  "predicate_Ready (predicates_at synced \<lparr>predicateList = map (\<lambda>p. p\<lparr>p_started := True\<rparr>) ps, inited = True\<rparr> n) =
     Done (\<forall>p \<in> set ps. synced n (p_name p))"
  "prioritize_Ready (prioritizes_at synced \<lparr>prioritizeList = map (\<lambda>q. q\<lparr>q_started := True\<rparr>) qs, q_inited = True\<rparr> n) =
     Done (\<forall>q \<in> set qs. synced n (q_name q))"
  by (simp_all add: predicate_Ready_def predicates_at_def ready_loop_all prioritize_Ready_def prioritizes_at_def
      q_ready_loop_all)

text \<open>
  The wait on started components: it ends with true when, from some tick on, all are synced,
  and never with false while the channel stays open.
\<close>

lemma wait_eventually:
  assumes "\<And>n. k \<le> n \<Longrightarrow> P n"
  shows "\<exists>m. n0 \<le> m \<and> WaitForCacheSync (\<lambda>_. True) (\<lambda>n. Done (P n)) n0 = Some (Done (True, m))"
proof -
  let ?m = "LEAST m. n0 \<le> m \<and> P m"
  have ex: "n0 \<le> max n0 k \<and> P (max n0 k)" using assms by simp
  have m: "n0 \<le> ?m" "P ?m" using LeastI [of "\<lambda>m. n0 \<le> m \<and> P m", OF ex] by blast+
  have "\<not> P i" if "n0 \<le> i" "i < ?m" for i using not_less_Least [OF that(2)] that(1) by blast
  then have "WaitForCacheSync (\<lambda>_. True) (\<lambda>n. Done (P n)) n0 = Some (Done (True, ?m))"
    using m by (intro wait_first) simp_all
  with m(1) show ?thesis by blast
qed

lemma wait_open:
  assumes "WaitForCacheSync (\<lambda>_. True) (\<lambda>n. Done (P n)) n0 = Some r"
  shows "\<exists>m \<ge> n0. r = Done (True, m) \<and> P m"
  using wait_result [OF assms] by (auto simp: wait_ended_def)

text \<open>The paths that are installed: one for each component, distinct.\<close>

lemma installed_paths:
  assumes "good_predicates ps" and "good_prioritizes qs"
  shows "installHttpServer \<lparr>predicateList = map (\<lambda>p. p\<lparr>p_started := True\<rparr>) ps, inited = True\<rparr>
      \<lparr>prioritizeList = map (\<lambda>q. q\<lparr>q_started := True\<rparr>) qs, q_inited = True\<rparr> =
    Inr (map (route_path apiPrefix predicatesPrefix) (map p_name ps) @
      map (route_path apiPrefix prioritiesPrefix) (map q_name qs) @ common_paths)"
  by (simp add: installHttpServer_def predicate_InstallHttpServer_def prioritize_InstallHttpServer_def comp_def)

lemma paths_distinct:
  assumes "distinct ns" and "distinct ms"
  shows "distinct (map (route_path apiPrefix predicatesPrefix) ns @ map (route_path apiPrefix prioritiesPrefix) ms @ common_paths)"
  using assms
  by (auto simp: route_paths_distinct common_paths_def)
    (auto simp: route_path_def apiPrefix_def predicatesPrefix_def prioritiesPrefix_def)

text \<open>
  C17 (liveness). Components with distinct non-empty names whose \<^verbatim>\<open>Init\<close> succeeds: when the
  informers have synced from some moment on, the program with a scheduler gets to serve, with
  exactly one route for each predicate and each priority, and the routes for the version and the
  health, no two of them equal; and the policy server is started beside it in the mode \<open>all\<close>.
\<close>

theorem main_serves:
  assumes "good_predicates ps" and "good_prioritizes qs" and "fl_runMode flg \<in> {''all'', ''scheduleronly''}"
    and "getClientset cl (fl_kubeConfig flg) = Inr clientset" and "\<forall>n \<ge> k. \<forall>c. synced n c"
  shows "main_program newCSV cl synced (loaded_predicates ps) (loaded_prioritizes qs) flg =
    Some (Serving (map (route_path apiPrefix predicatesPrefix) (map p_name ps) @
        map (route_path apiPrefix prioritiesPrefix) (map q_name qs) @ common_paths)
      (if fl_runMode flg = ''all'' then StartPolicyHttpServer newCSV (fl_certFile flg) (fl_keyFile flg) (fl_basicAuthFile flg)
       else None))"
proof -
  obtain m where m: "WaitForCacheSync (\<lambda>_. True) (\<lambda>n. Done (\<forall>p \<in> set ps. synced n (p_name p))) 0 = Some (Done (True, m))"
    using wait_eventually [of k "\<lambda>n. \<forall>p \<in> set ps. synced n (p_name p)" 0] assms(5) by blast
  obtain m2 where m2: "WaitForCacheSync (\<lambda>_. True) (\<lambda>n. Done (\<forall>q \<in> set qs. synced n (q_name q))) m = Some (Done (True, m2))"
    using wait_eventually [of k "\<lambda>n. \<forall>q \<in> set qs. synced n (q_name q)" m] assms(5) by blast
  have mode: "(fl_runMode flg \<noteq> ''all'' \<and> fl_runMode flg \<noteq> ''scheduleronly'' \<and> fl_runMode flg \<noteq> ''backendonly'') = False"
    "(fl_runMode flg = ''backendonly'') = False"
    using assms(3) by auto
  have accepts: "container_accepts (map (route_path apiPrefix predicatesPrefix) (map p_name ps) @
        map (route_path apiPrefix prioritiesPrefix) (map q_name qs) @ common_paths)"
    using assms(1,2) unfolding container_accepts_def
    by (intro paths_distinct) (simp_all add: good_predicates_def good_prioritizes_def)
  show ?thesis
    unfolding main_program_def mode
    using m m2 accepts assms(3,4)
    by (simp add: initAll_def started_predicates [OF assms(1)] started_prioritizes [OF assms(2)] waitReady_def
        started_ready installed_paths [OF assms(1,2)] Let_def del: map_map)
qed

text \<open>
  C39 (termination). The program has no time-out: when the informers of one predicate or priority
  never sync, it waits for ever, and the exit for a wait that timed out is never taken.
\<close>

theorem main_waits_forever:
  assumes "good_predicates ps" and "good_prioritizes qs" and "fl_runMode flg \<in> {''all'', ''scheduleronly''}"
    and "getClientset cl (fl_kubeConfig flg) = Inr clientset"
    and "c \<in> set (map p_name ps) \<union> set (map q_name qs)" and "\<forall>n. \<not> synced n c"
  shows "main_program newCSV cl synced (loaded_predicates ps) (loaded_prioritizes qs) flg = None"
proof -
  let ?P = "\<lambda>n. \<forall>p \<in> set ps. synced n (p_name p)" and ?Q = "\<lambda>n. \<forall>q \<in> set qs. synced n (q_name q)"
  have mode: "(fl_runMode flg \<noteq> ''all'' \<and> fl_runMode flg \<noteq> ''scheduleronly'' \<and> fl_runMode flg \<noteq> ''backendonly'') = False"
    "(fl_runMode flg = ''backendonly'') = False"
    using assms(3) by auto
  have wait: "WaitForCacheSync (\<lambda>_. True) (\<lambda>n. Done (P n)) n0 = None \<or>
      (\<exists>m. WaitForCacheSync (\<lambda>_. True) (\<lambda>n. Done (P n)) n0 = Some (Done (True, m)) \<and> P m)" for P n0
    using wait_open [of P n0] by (cases "WaitForCacheSync (\<lambda>_. True) (\<lambda>n. Done (P n)) n0") auto
  have never: "\<not> (?P m \<and> ?Q m')" for m m' using assms(5,6) by auto
  have "waitReady (\<lambda>_. True) synced \<lparr>predicateList = map (\<lambda>p. p\<lparr>p_started := True\<rparr>) ps, inited = True\<rparr>
      \<lparr>prioritizeList = map (\<lambda>q. q\<lparr>q_started := True\<rparr>) qs, q_inited = True\<rparr> = None"
    using wait [of ?P 0]
  proof
    assume "\<exists>m. WaitForCacheSync (\<lambda>_. True) (\<lambda>n. Done (?P n)) 0 = Some (Done (True, m)) \<and> ?P m"
    then obtain m where m: "WaitForCacheSync (\<lambda>_. True) (\<lambda>n. Done (?P n)) 0 = Some (Done (True, m))" "?P m" by blast
    with wait [of ?Q m] never have "WaitForCacheSync (\<lambda>_. True) (\<lambda>n. Done (?Q n)) m = None" by blast
    with m(1) show ?thesis by (simp add: waitReady_def started_ready)
  qed (simp add: waitReady_def started_ready)
  then show ?thesis
    unfolding main_program_def mode using assms(3,4)
    by (simp add: initAll_def started_predicates [OF assms(1)] started_prioritizes [OF assms(2)] Let_def)
qed

text \<open>
  The ways to end, whatever is registered and however the informers behave: code 255
  exactly for an unknown mode; 2 exactly when the mode has a scheduler, there is a client and an
  \<^verbatim>\<open>Init\<close> fails; the codes 3 and 4 never, because the stop channel is never closed and what was
  initialised can be installed.
\<close>

theorem main_exit_codes:
  "main_program newCSV cl synced ps qs flg \<noteq> Some (ExitWith 3) \<and>
   main_program newCSV cl synced ps qs flg \<noteq> Some (ExitWith 4) \<and>
   (main_program newCSV cl synced ps qs flg = Some (ExitWith 255) \<longleftrightarrow>
      fl_runMode flg \<notin> {''all'', ''scheduleronly'', ''backendonly''}) \<and>
   (main_program newCSV cl synced ps qs flg = Some (ExitWith 2) \<longleftrightarrow>
      fl_runMode flg \<in> {''all'', ''scheduleronly''} \<and> (\<exists>clientset. getClientset cl (fl_kubeConfig flg) = Inr clientset) \<and> fst (initAll ps qs) \<noteq> None)"
proof -
  have wait: "waitReady (\<lambda>_. True) synced ps' qs' \<noteq> Some (Done False)" for ps' qs'
  proof
    assume "waitReady (\<lambda>_. True) synced ps' qs' = Some (Done False)"
    then obtain ready n k where "WaitForCacheSync (\<lambda>_. True) ready n = Some (Done (False, k))"
      by (auto simp: waitReady_def split: option.splits outcome.splits if_splits)
    from wait_result [OF this] show False by (auto simp: wait_ended_def)
  qed
  have ready: "ok" if "waitReady (\<lambda>_. True) synced ps' qs' = Some (Done ok)" for ok ps' qs'
    using wait that by (cases ok) auto
  have install: "\<exists>paths. installHttpServer ps' qs' = Inr paths" if "initAll ps qs = (None, ps', qs')" for ps' qs'
  proof -
    from that have "predicate_Init ps = (None, ps')" "prioritize_Init qs = (None, qs')"
      by (auto simp: initAll_def split: prod.splits option.splits)
    then show ?thesis
      using preds.installed_after_init [of ps apiPrefix] prios.installed_after_init [of qs apiPrefix]
      by (simp add: installHttpServer_def)
  qed
  show ?thesis
    unfolding main_program_def Let_def
    by (auto split: option.splits prod.splits outcome.splits sum.splits dest: ready install)
qed

text \<open>The program's own components, with the informers of all of them synced from tick 2 on.\<close>

definition sample_sync :: informer_sync where
  "sample_sync = \<lparr>syn_pv = True, syn_pvc = True, syn_pod = True\<rparr>"

definition own_predicates :: "predicate list" where
  "own_predicates = [affinity_plugin sample_codec sample_api (sample_caches (sample_pv [] 6) []) sample_sync,
     pressure_plugin sample_codec (sample_caches (sample_pv [] 6) []) sample_sync, namespace_plugin None]"

definition own_prioritizes :: "prioritize list" where
  "own_prioritizes = [diskuse_plugin (\<lambda>_. 0) sample_codec (sample_caches (sample_pv [] 6) []) sample_sync,
     spread_plugin (\<lambda>_. 0) (sample_caches (sample_pv [] 6) []) sample_sync]"

definition sample_flags :: main_flags where
  "sample_flags = \<lparr>fl_runMode = ''all'', fl_certFile = [], fl_keyFile = [], fl_basicAuthFile = [], fl_kubeConfig = ''config''\<rparr>"

definition sample_client :: "(string, unit) client_api" where
  "sample_client = \<lparr>cl_fromFlags = Inr, cl_inCluster = Inl (External ''not in a cluster''), cl_newForConfig = (\<lambda>_. Inr ())\<rparr>"

lemma sample_clientset: "getClientset sample_client (fl_kubeConfig sample_flags) = Inr ()"
  by (simp add: getClientset_def buildConfig_def sample_client_def sample_flags_def)

lemma own_good: "good_predicates own_predicates" "good_prioritizes own_prioritizes"
  by (simp_all add: good_predicates_def own_predicates_def affinity_plugin_def pressure_plugin_def namespace_plugin_def
      affinityName_def pressureName_def nsName_def good_prioritizes_def own_prioritizes_def diskuse_plugin_def
      spread_plugin_def diskuseName_def spreadName_def)

lemma own_names: "map p_name own_predicates = [''hostpathpvaffinity'', ''hostpathpvdiskpressure'', ''namespacenodeselector'']"
  "map q_name own_prioritizes = [''hostpathpvdiskuse'', ''hostpathpvspread'']"
  by (simp_all add: own_predicates_def affinity_plugin_def pressure_plugin_def namespace_plugin_def
      affinityName_def pressureName_def nsName_def own_prioritizes_def diskuse_plugin_def
      spread_plugin_def diskuseName_def spreadName_def)

lemma main_serves_witness:
  "main_program sample_auth sample_client (\<lambda>n c. 2 \<le> n) (loaded_predicates own_predicates)
     (loaded_prioritizes own_prioritizes) sample_flags =
   Some (Serving [''/scheduler/predicates/hostpathpvaffinity'', ''/scheduler/predicates/hostpathpvdiskpressure'',
     ''/scheduler/predicates/namespacenodeselector'', ''/scheduler/priorities/hostpathpvdiskuse'',
     ''/scheduler/priorities/hostpathpvspread'', ''/version'', ''/health'']
     (Some \<lparr>ps_tls = False, ps_auth = None\<rparr>))"
  by (subst main_serves [OF own_good _ sample_clientset, of 2])
    (simp_all add: sample_flags_def own_names route_path_def apiPrefix_def predicatesPrefix_def prioritiesPrefix_def
      common_paths_def StartPolicyHttpServer_def del: map_map)

lemma main_waits_forever_witness:
  "main_program sample_auth sample_client (\<lambda>n c. c \<noteq> ''hostpathpvspread'') (loaded_predicates own_predicates)
     (loaded_prioritizes own_prioritizes) sample_flags = None"
  by (rule main_waits_forever [OF own_good _ sample_clientset, of "''hostpathpvspread''"])
    (simp_all add: sample_flags_def own_names del: set_map)

section \<open>Requests to the scheduler's server\<close>

text \<open>The web services behind the installed paths; a component's route is a POST on its root.\<close>

definition version :: string where "version = ''v0.1.0''"

datatype main_route = PredicateRoute string | PriorityRoute string | VersionRoute | HealthRoute

text \<open>What the two common routes write.\<close>

definition common_reply :: "main_route \<Rightarrow> string option" where
  "common_reply f = (case f of VersionRoute \<Rightarrow> Some version | HealthRoute \<Rightarrow> Some ''OK'' | _ \<Rightarrow> None)"

definition service_at :: "string \<Rightarrow> string \<Rightarrow> main_route \<Rightarrow> main_route web_service" where
  "service_at rootPath meth f = \<lparr>ws_root = rootPath,
     ws_routes = [\<lparr>rt_method = meth, rt_path = concatPath rootPath ''/'', rt_function = f\<rparr>]\<rparr>"

definition main_services :: "string list \<Rightarrow> string list \<Rightarrow> main_route web_service list" where
  "main_services ns ms =
     map (\<lambda>n. service_at (route_path apiPrefix predicatesPrefix n) ''POST'' (PredicateRoute n)) ns @
     map (\<lambda>m. service_at (route_path apiPrefix prioritiesPrefix m) ''POST'' (PriorityRoute m)) ms @
     [service_at ''/version'' ''GET'' VersionRoute, service_at ''/health'' ''GET'' HealthRoute]"

text \<open>The route for a request whose \<^verbatim>\<open>Accept\<close> header admits JSON; the services consume every type.\<close>

definition main_dispatch :: "string list \<Rightarrow> string list \<Rightarrow> string \<Rightarrow> string \<Rightarrow> http_error + main_route" where
  "main_dispatch ns ms meth path =
     (case SelectRoute (\<lambda>_ _. False) (\<lambda>_. True) (\<lambda>_. True) (main_services ns ms) meth path of
        Inl e \<Rightarrow> Inl e | Inr r \<Rightarrow> Inr (rt_function r))"

lemma main_service_paths:
  "map ws_root (main_services ns ms) = map (route_path apiPrefix predicatesPrefix) ns @
     map (route_path apiPrefix prioritiesPrefix) ms @ common_paths"
  by (simp add: main_services_def service_at_def common_paths_def)

lemma route_path_join: "route_path apiPrefix p n = CHR ''/'' # join_with ''/'' [''scheduler'', p, n]"
  by (simp add: route_path_def apiPrefix_def)

lemma prefix_tokens: "plain_token ''scheduler''" "plain_token predicatesPrefix" "plain_token prioritiesPrefix"
  "plain_token ''version''" "plain_token ''health''"
  by code_simp+

lemma route_tokens:
  assumes "plain_token p" and "plain_token n"
  shows "tokenizePath (route_path apiPrefix p n) = [''scheduler'', p, n]"
    and "tokenizePath (concatPath (route_path apiPrefix p n) ''/'') = [''scheduler'', p, n]"
proof -
  have ok: "list_all plain_token [''scheduler'', p, n]" using assms prefix_tokens(1) by simp
  then show "tokenizePath (route_path apiPrefix p n) = [''scheduler'', p, n]"
    unfolding route_path_join by (intro tokenize_plain) simp_all
  have "last (route_path apiPrefix p n) \<noteq> CHR ''/''"
    using join_plain_ends [OF _ ok] by (simp add: route_path_join)
  then have "dropWhile (\<lambda>c. c = CHR ''/'') (rev (route_path apiPrefix p n)) = rev (route_path apiPrefix p n)"
    by (rule drop_rev)
  then have "concatPath (route_path apiPrefix p n) ''/'' = CHR ''/'' # join_with ''/'' [''scheduler'', p, n] @ ''/''"
    by (simp add: concatPath_def route_path_join)
  then show "tokenizePath (concatPath (route_path apiPrefix p n) ''/'') = [''scheduler'', p, n]"
    using tokenize_plain(2) [OF _ ok] by simp
qed

lemma common_tokens:
  "tokenizePath ''/version'' = [''version'']" "tokenizePath ''/health'' = [''health'']"
  by code_simp+

lemma plain_static: "list_all plain_token ts \<Longrightarrow> list_all static_token ts"
  by (auto simp: list_all_iff plain_token_def)

text \<open>Which services a path of a component matches: that of the component alone.\<close>

lemma component_score:
  assumes "plain_token p" and "plain_token n" and "plain_token p'" and "plain_token n'"
  shows "computeWebserviceScore [''scheduler'', p, n] (tokenizePath (route_path apiPrefix p' n')) = None \<longleftrightarrow>
    p' \<noteq> p \<or> n' \<noteq> n"
proof -
  have "list_all static_token [''scheduler'', p', n']" using assms prefix_tokens(1) by (simp add: plain_token_def)
  from score_static [OF this] show ?thesis using route_tokens(1) [OF assms(3,4)] by auto
qed

lemma common_score: "computeWebserviceScore [''scheduler'', p, n] (tokenizePath ''/version'') = None"
  "computeWebserviceScore [''scheduler'', p, n] (tokenizePath ''/health'') = None"
  by (simp_all add: common_tokens computeWebserviceScore_def)

lemma prefixes_differ: "predicatesPrefix \<noteq> prioritiesPrefix"
  by (simp add: predicatesPrefix_def prioritiesPrefix_def)

lemma service_dispatch:
  assumes "plain_token p" and "plain_token n"
    and "detectWebService [''scheduler'', p, n] wss = Some (service_at (route_path apiPrefix p n) ''POST'' f)"
  shows "(case SelectRoute (\<lambda>_ _. False) (\<lambda>_. True) (\<lambda>_. True) wss meth (route_path apiPrefix p n) of
      Inl e \<Rightarrow> Inl e | Inr r \<Rightarrow> Inr (rt_function r)) = (if meth = ''POST'' then Inr f else Inl MethodNotAllowed405)"
proof -
  let ?r = "\<lparr>rt_method = ''POST'', rt_path = concatPath (route_path apiPrefix p n) ''/'', rt_function = f\<rparr>"
  have "list_all static_token (tokenizePath (rt_path ?r))"
    using assms(1,2) prefix_tokens(1) by (simp add: route_tokens(2) plain_token_def)
  from select_self [OF this, of "\<lambda>_ _. False" "route_path apiPrefix p n"]
  have "selectRoutes (\<lambda>_ _. False) (service_at (route_path apiPrefix p n) ''POST'' f) [''scheduler'', p, n] = [?r]"
    by (simp add: service_at_def route_tokens(2) [OF assms(1,2)])
  then show ?thesis
    using assms(3) detectRoute_first [of "[?r]" "''POST''" meth]
    by (simp add: SelectRoute_def route_tokens(1) [OF assms(1,2)] Let_def)
qed

lemma others_silent:
  assumes "plain_token p" and "plain_token n" and "plain_token q" and "list_all plain_token ks" and "q \<noteq> p \<or> n \<notin> set ks"
  shows "list_all (\<lambda>w. computeWebserviceScore [''scheduler'', p, n] (tokenizePath (ws_root w)) = None)
    (map (\<lambda>k. service_at (route_path apiPrefix q k) ''POST'' (f k)) ks)"
  using assms component_score [OF assms(1,2,3)] by (auto simp: list_all_iff service_at_def)

lemma common_silent:
  "list_all (\<lambda>w. computeWebserviceScore [''scheduler'', p, n] (tokenizePath (ws_root w)) = None)
    [service_at ''/version'' ''GET'' VersionRoute, service_at ''/health'' ''GET'' HealthRoute]"
  by (simp add: service_at_def common_score)

lemma own_score:
  assumes "plain_token p" and "plain_token n"
  shows "\<exists>k. computeWebserviceScore [''scheduler'', p, n] (tokenizePath (ws_root (service_at (route_path apiPrefix p n) meth f))) = Some k"
  using component_score [OF assms assms] by (auto simp: service_at_def)

text \<open>
  Every component is reached at its own path and at no other: a POST on
  \<open>/scheduler/predicates/n\<close> or \<open>/scheduler/priorities/n\<close> goes to the component \<open>n\<close> of that kind,
  another method is not allowed there, and without such a component the path is not found; a
  predicate and a priority may share their name. Names are those without a slash or a leading
  brace, distinct within their registry.
\<close>

theorem main_requests:
  assumes "distinct ns" and "distinct ms" and "list_all plain_token ns" and "list_all plain_token ms" and "plain_token n"
  shows "main_dispatch ns ms meth (route_path apiPrefix predicatesPrefix n) =
      (if n \<notin> set ns then Inl NotFound404 else if meth = ''POST'' then Inr (PredicateRoute n) else Inl MethodNotAllowed405) \<and>
    main_dispatch ns ms meth (route_path apiPrefix prioritiesPrefix n) =
      (if n \<notin> set ms then Inl NotFound404 else if meth = ''POST'' then Inr (PriorityRoute n) else Inl MethodNotAllowed405)"
proof -
  let ?P = "\<lambda>k. service_at (route_path apiPrefix predicatesPrefix k) ''POST'' (PredicateRoute k)"
  let ?Q = "\<lambda>k. service_at (route_path apiPrefix prioritiesPrefix k) ''POST'' (PriorityRoute k)"
  let ?silent = "\<lambda>p. list_all (\<lambda>w. computeWebserviceScore [''scheduler'', p, n] (tokenizePath (ws_root w)) = None)"
  have others: "?silent p (map (\<lambda>k. service_at (route_path apiPrefix q k) ''POST'' (f k)) ks)"
    if "plain_token p" "plain_token q" "list_all plain_token ks" "q \<noteq> p \<or> n \<notin> set ks" for p q ks and f :: "string \<Rightarrow> main_route"
    by (rule others_silent [OF that(1) assms(5) that(2-4)])
  have 1: "detectWebService [''scheduler'', predicatesPrefix, n] (main_services ns ms) =
      (if n \<in> set ns then Some (?P n) else None)"
  proof (cases "n \<in> set ns")
    case True
    then obtain as bs where ns: "ns = as @ n # bs" by (auto dest: split_list)
    obtain k where k: "computeWebserviceScore [''scheduler'', predicatesPrefix, n] (tokenizePath (ws_root (?P n))) = Some k"
      using own_score [OF prefix_tokens(2) assms(5)] by blast
    have "detectWebService [''scheduler'', predicatesPrefix, n]
        (map ?P as @ ?P n # map ?P bs @ map ?Q ms @ [service_at ''/version'' ''GET'' VersionRoute, service_at ''/health'' ''GET'' HealthRoute]) =
        Some (?P n)"
      using assms(1,3,4) unfolding ns
      by (intro detect_unique [OF k]; unfold list_all_append)
        (intro conjI others common_silent; simp add: prefix_tokens prefixes_differ prefixes_differ [symmetric])+
    with True show ?thesis by (simp add: main_services_def ns)
  next
    case False
    then have "?silent predicatesPrefix (main_services ns ms)"
      using assms(3,4) unfolding main_services_def list_all_append
      by (intro conjI others common_silent; simp add: prefix_tokens prefixes_differ prefixes_differ [symmetric])
    from detect_loop_none [OF this, of None "-1"] False show ?thesis by (simp add: detectWebService_def)
  qed
  have 2: "detectWebService [''scheduler'', prioritiesPrefix, n] (main_services ns ms) =
      (if n \<in> set ms then Some (?Q n) else None)"
  proof (cases "n \<in> set ms")
    case True
    then obtain as bs where ms: "ms = as @ n # bs" by (auto dest: split_list)
    obtain k where k: "computeWebserviceScore [''scheduler'', prioritiesPrefix, n] (tokenizePath (ws_root (?Q n))) = Some k"
      using own_score [OF prefix_tokens(3) assms(5)] by blast
    have "detectWebService [''scheduler'', prioritiesPrefix, n]
        ((map ?P ns @ map ?Q as) @ ?Q n # map ?Q bs @ [service_at ''/version'' ''GET'' VersionRoute, service_at ''/health'' ''GET'' HealthRoute]) =
        Some (?Q n)"
      using assms(2,3,4) unfolding ms
      by (intro detect_unique [OF k]; unfold list_all_append)
        (intro conjI others common_silent; simp add: prefix_tokens prefixes_differ prefixes_differ [symmetric])+
    with True show ?thesis by (simp add: main_services_def ms)
  next
    case False
    then have "?silent prioritiesPrefix (main_services ns ms)"
      using assms(3,4) unfolding main_services_def list_all_append
      by (intro conjI others common_silent; simp add: prefix_tokens prefixes_differ prefixes_differ [symmetric])
    from detect_loop_none [OF this, of None "-1"] False show ?thesis by (simp add: detectWebService_def)
  qed
  have none: "main_dispatch ns ms meth (route_path apiPrefix p n) = Inl NotFound404"
    if "plain_token p" "detectWebService [''scheduler'', p, n] (main_services ns ms) = None" for p
    using that route_tokens(1) [OF that(1) assms(5)] by (simp add: main_dispatch_def SelectRoute_def)
  show ?thesis
    using 1 2 none [OF prefix_tokens(2)] none [OF prefix_tokens(3)]
      service_dispatch [OF prefix_tokens(2) assms(5), of "main_services ns ms" "PredicateRoute n" meth]
      service_dispatch [OF prefix_tokens(3) assms(5), of "main_services ns ms" "PriorityRoute n" meth]
    by (auto simp: main_dispatch_def)
qed

lemma main_requests_witness:
  "main_dispatch (map p_name own_predicates) (map q_name own_prioritizes) ''POST''
     (route_path apiPrefix predicatesPrefix ''hostpathpvaffinity'') = Inr (PredicateRoute ''hostpathpvaffinity'') \<and>
   main_dispatch (map p_name own_predicates) (map q_name own_prioritizes) ''POST''
     (route_path apiPrefix prioritiesPrefix ''hostpathpvaffinity'') = Inl NotFound404"
proof -
  have "list_all plain_token (map p_name own_predicates)" "list_all plain_token (map q_name own_prioritizes)"
    "plain_token ''hostpathpvaffinity''"
    unfolding own_names by code_simp+
  then show ?thesis
    using main_requests [of "map p_name own_predicates" "map q_name own_prioritizes" "''hostpathpvaffinity''" "''POST''"]
    by (simp add: own_names)
qed

end
