(* ===== verification/MainServe.thy ===== *)
theory MainServe
  imports MainProg
begin

text \<open>
  The serving program: a request to the scheduler's server from its path and body to the
  answer, through the router, the component's route and its function.
\<close>

section \<open>Answers\<close>

text \<open>The JSON codecs of the routes; the writers give bodies of one type.\<close>

record 'b route_codec =
  rc_args :: "string \<Rightarrow> error + extender_args"
  rc_filter :: "filter_result \<Rightarrow> error + 'b"
  rc_list :: "host_priority list \<Rightarrow> error + 'b"

datatype 'b answer = Refused http_error | Routed "'b http_result" | Written string

text \<open>
  The route of a component holds the component itself; the names in a registry are distinct, so
  it is the one found by the name, and the search does not fail.
\<close>

definition scheduler_serve ::
  "'b route_codec \<Rightarrow> registry_state \<Rightarrow> prioritize_state \<Rightarrow> string \<Rightarrow> string \<Rightarrow> string option \<Rightarrow> 'b answer" where
  "scheduler_serve rc rs ss meth path body =
     (case main_dispatch (map p_name (predicateList rs)) (map q_name (prioritizeList ss)) meth path of
        Inl e \<Rightarrow> Refused e
      | Inr (PredicateRoute n) \<Rightarrow>
          (case find (\<lambda>p. p_name p = n) (predicateList rs) of
             None \<Rightarrow> Refused NotFound404
           | Some p \<Rightarrow> Routed (predicateRoute (rc_args rc) (rc_filter rc) (p_match p) body))
      | Inr (PriorityRoute n) \<Rightarrow>
          (case find (\<lambda>q. q_name q = n) (prioritizeList ss) of
             None \<Rightarrow> Refused NotFound404
           | Some q \<Rightarrow> Routed (prioritieRoute (rc_args rc) (rc_list rc) (q_score q) body))
      | Inr VersionRoute \<Rightarrow> Written version
      | Inr HealthRoute \<Rightarrow> Written ''OK'')"

lemma find_started:
  "find (\<lambda>p. p_name p = n) (map (\<lambda>p. p\<lparr>p_started := True\<rparr>) ps) = map_option (\<lambda>p. p\<lparr>p_started := True\<rparr>) (find (\<lambda>p. p_name p = n) ps)"
  by (induction ps) simp_all

lemma q_find_started:
  "find (\<lambda>q. q_name q = n) (map (\<lambda>q. q\<lparr>q_started := True\<rparr>) qs) = map_option (\<lambda>q. q\<lparr>q_started := True\<rparr>) (find (\<lambda>q. q_name q = n) qs)"
  by (induction qs) simp_all

lemma find_named:
  "find (\<lambda>x. name x = n) xs = None \<longleftrightarrow> n \<notin> set (map name xs)"
  by (auto simp: find_None_iff)

lemma initAll_started:
  assumes "good_predicates ps" and "good_prioritizes qs"
  shows "initAll (loaded_predicates ps) (loaded_prioritizes qs) =
    (None, \<lparr>predicateList = map (\<lambda>p. p\<lparr>p_started := True\<rparr>) ps, inited = True\<rparr>,
     \<lparr>prioritizeList = map (\<lambda>q. q\<lparr>q_started := True\<rparr>) qs, q_inited = True\<rparr>)"
  by (simp add: initAll_def started_predicates [OF assms(1)] started_prioritizes [OF assms(2)])

text \<open>The paths of the components and those of the version and the health stay apart.\<close>

lemma short_path_silent:
  assumes "plain_token p" and "list_all plain_token ks"
  shows "list_all (\<lambda>w. computeWebserviceScore [t] (tokenizePath (ws_root w)) = None)
    (map (\<lambda>k. service_at (route_path apiPrefix p k) ''POST'' (f k)) ks)"
  using assms by (auto simp: list_all_iff service_at_def route_tokens(1) computeWebserviceScore_def)

lemma common_dispatch:
  assumes "list_all plain_token ns" and "list_all plain_token ms"
  shows "main_dispatch ns ms ''GET'' ''/version'' = Inr VersionRoute"
    and "main_dispatch ns ms ''GET'' ''/health'' = Inr HealthRoute"
proof -
  let ?P = "\<lambda>k. service_at (route_path apiPrefix predicatesPrefix k) ''POST'' (PredicateRoute k)"
  let ?Q = "\<lambda>k. service_at (route_path apiPrefix prioritiesPrefix k) ''POST'' (PriorityRoute k)"
  let ?V = "service_at ''/version'' ''GET'' VersionRoute" and ?H = "service_at ''/health'' ''GET'' HealthRoute"
  have silent: "list_all (\<lambda>w. computeWebserviceScore [t] (tokenizePath (ws_root w)) = None) (map ?P ns @ map ?Q ms)" for t
    using short_path_silent [OF prefix_tokens(2) assms(1)] short_path_silent [OF prefix_tokens(3) assms(2)] by simp
  have score: "computeWebserviceScore [''version''] (tokenizePath (ws_root ?V)) = Some 10"
    "computeWebserviceScore [''version''] (tokenizePath (ws_root ?H)) = None"
    "computeWebserviceScore [''health''] (tokenizePath (ws_root ?H)) = Some 10"
    "computeWebserviceScore [''health''] (tokenizePath (ws_root ?V)) = None"
    by code_simp+
  have "detectWebService [''version''] ((map ?P ns @ map ?Q ms) @ ?V # [?H]) = Some ?V"
    by (rule detect_unique [OF score(1)]) (use silent score(2) in simp)
  moreover have "detectWebService [''health''] ((map ?P ns @ map ?Q ms @ [?V]) @ ?H # []) = Some ?H"
    by (rule detect_unique [OF score(3)]) (use silent score(4) in simp)
  moreover have "selectRoutes (\<lambda>_ _. False) ?V [''version''] = ws_routes ?V" "selectRoutes (\<lambda>_ _. False) ?H [''health''] = ws_routes ?H"
    by code_simp+
  moreover have "detectRoute (\<lambda>_. True) (\<lambda>_. True) (ws_routes ?V) ''GET'' = Inr (hd (ws_routes ?V))"
    "detectRoute (\<lambda>_. True) (\<lambda>_. True) (ws_routes ?H) ''GET'' = Inr (hd (ws_routes ?H))"
    by code_simp+
  moreover have "ws_routes ?V \<noteq> [] \<and> rt_function (hd (ws_routes ?V)) = VersionRoute"
    "ws_routes ?H \<noteq> [] \<and> rt_function (hd (ws_routes ?H)) = HealthRoute"
    by (simp_all add: service_at_def)
  ultimately show "main_dispatch ns ms ''GET'' ''/version'' = Inr VersionRoute"
    "main_dispatch ns ms ''GET'' ''/health'' = Inr HealthRoute"
    by (simp_all add: main_dispatch_def main_services_def SelectRoute_def common_tokens Let_def)
qed

text \<open>After \<^verbatim>\<open>initAll\<close>.\<close>

lemma served:
  assumes "good_predicates ps" and "good_prioritizes qs"
    and "list_all plain_token (map p_name ps)" and "list_all plain_token (map q_name qs)" and "plain_token n"
    and "initAll (loaded_predicates ps) (loaded_prioritizes qs) = (err, rs, ss)"
  shows "err = None \<and>
    scheduler_serve rc rs ss meth (route_path apiPrefix predicatesPrefix n) body =
      (case find (\<lambda>p. p_name p = n) ps of
         None \<Rightarrow> Refused NotFound404
       | Some p \<Rightarrow> if meth = ''POST'' then Routed (predicateRoute (rc_args rc) (rc_filter rc) (p_match p) body)
                   else Refused MethodNotAllowed405) \<and>
    scheduler_serve rc rs ss meth (route_path apiPrefix prioritiesPrefix n) body =
      (case find (\<lambda>q. q_name q = n) qs of
         None \<Rightarrow> Refused NotFound404
       | Some q \<Rightarrow> if meth = ''POST'' then Routed (prioritieRoute (rc_args rc) (rc_list rc) (q_score q) body)
                   else Refused MethodNotAllowed405) \<and>
    scheduler_serve rc rs ss ''GET'' ''/version'' body = Written version \<and>
    scheduler_serve rc rs ss ''GET'' ''/health'' body = Written ''OK''"
proof -
  have d: "distinct (map p_name ps)" "distinct (map q_name qs)"
    using assms(1,2) by (simp_all add: good_predicates_def good_prioritizes_def)
  have state: "err = None" "predicateList rs = map (\<lambda>p. p\<lparr>p_started := True\<rparr>) ps"
    "prioritizeList ss = map (\<lambda>q. q\<lparr>q_started := True\<rparr>) qs"
    using assms(6) by (auto simp: initAll_started [OF assms(1,2)])
  have names: "map p_name (map (\<lambda>p. p\<lparr>p_started := True\<rparr>) ps) = map p_name ps"
    "map q_name (map (\<lambda>q. q\<lparr>q_started := True\<rparr>) qs) = map q_name qs"
    by (simp_all add: comp_def)
  note serve = scheduler_serve_def [of rc rs ss, unfolded state(2,3) names find_started q_find_started]
  note routed = main_requests [OF d assms(3-5), of meth, folded find_named]
  have "scheduler_serve rc rs ss meth (route_path apiPrefix predicatesPrefix n) body =
      (case find (\<lambda>p. p_name p = n) ps of
         None \<Rightarrow> Refused NotFound404
       | Some p \<Rightarrow> if meth = ''POST'' then Routed (predicateRoute (rc_args rc) (rc_filter rc) (p_match p) body)
                   else Refused MethodNotAllowed405)"
    unfolding serve routed [THEN conjunct1] by (cases "find (\<lambda>p. p_name p = n) ps") simp_all
  moreover have "scheduler_serve rc rs ss meth (route_path apiPrefix prioritiesPrefix n) body =
      (case find (\<lambda>q. q_name q = n) qs of
         None \<Rightarrow> Refused NotFound404
       | Some q \<Rightarrow> if meth = ''POST'' then Routed (prioritieRoute (rc_args rc) (rc_list rc) (q_score q) body)
                   else Refused MethodNotAllowed405)"
    unfolding serve routed [THEN conjunct2] by (cases "find (\<lambda>q. q_name q = n) qs") simp_all
  moreover have "scheduler_serve rc rs ss ''GET'' ''/version'' body = Written version"
    "scheduler_serve rc rs ss ''GET'' ''/health'' body = Written ''OK''"
    unfolding serve common_dispatch [OF assms(3,4)] by simp_all
  ultimately show ?thesis using state(1) by blast
qed

lemma served_predicate:
  assumes "good_predicates ps" and "good_prioritizes qs"
    and "list_all plain_token (map p_name ps)" and "list_all plain_token (map q_name qs)" and "plain_token n"
    and "initAll (loaded_predicates ps) (loaded_prioritizes qs) = (err, rs, ss)"
    and "find (\<lambda>p. p_name p = n) ps = Some p"
  shows "scheduler_serve rc rs ss ''POST'' (route_path apiPrefix predicatesPrefix n) body =
    Routed (predicateRoute (rc_args rc) (rc_filter rc) (p_match p) body)"
  using served [OF assms(1-6), of rc "''POST''" body] assms(7) by simp

lemma find_distinct:
  "distinct (map name xs) \<Longrightarrow> x \<in> set xs \<Longrightarrow> name x = n \<Longrightarrow> find (\<lambda>y. name y = n) xs = Some x"
  by (induction xs) auto

section \<open>Properties\<close>

text \<open>
  C18 (functional). Once \<^verbatim>\<open>initAll\<close> has run, which succeeds for components that initialise, the server
  answers a POST to the path of a predicate with that predicate's route on the body, to the path of a priority
  with that priority's, and refuses other methods there and other names; and the version
  and the health are written whatever the components.
\<close>

theorem scheduler_answers:
  assumes "good_predicates ps" and "good_prioritizes qs"
    and "list_all plain_token (map p_name ps)" and "list_all plain_token (map q_name qs)" and "plain_token n"
    and "initAll (loaded_predicates ps) (loaded_prioritizes qs) = (err, rs, ss)"
  shows "err = None \<and>
    scheduler_serve rc rs ss meth (route_path apiPrefix predicatesPrefix n) body =
      (case find (\<lambda>p. p_name p = n) ps of
         None \<Rightarrow> Refused NotFound404
       | Some p \<Rightarrow> if meth = ''POST'' then Routed (predicateRoute (rc_args rc) (rc_filter rc) (p_match p) body)
                   else Refused MethodNotAllowed405) \<and>
    scheduler_serve rc rs ss meth (route_path apiPrefix prioritiesPrefix n) body =
      (case find (\<lambda>q. q_name q = n) qs of
         None \<Rightarrow> Refused NotFound404
       | Some q \<Rightarrow> if meth = ''POST'' then Routed (prioritieRoute (rc_args rc) (rc_list rc) (q_score q) body)
                   else Refused MethodNotAllowed405) \<and>
    scheduler_serve rc rs ss ''GET'' ''/version'' body = Written version \<and>
    scheduler_serve rc rs ss ''GET'' ''/health'' body = Written ''OK''"
  by (rule served [OF assms])

text \<open>The program's own components; the reader gives a pod and a node whatever the body.\<close>

definition sample_route_codec :: "(filter_result + host_priority list) route_codec" where
  "sample_route_codec = \<lparr>rc_args = (\<lambda>_. Inr (sample_request_args [sample_node ''n1'', sample_node ''n2''])),
     rc_filter = (\<lambda>r. Inr (Inl r)), rc_list = (\<lambda>r. Inr (Inr r))\<rparr>"

definition own_state :: "registry_state \<times> prioritize_state" where
  "own_state = snd (initAll (loaded_predicates own_predicates) (loaded_prioritizes own_prioritizes))"

lemma own_initAll:
  "initAll (loaded_predicates own_predicates) (loaded_prioritizes own_prioritizes) = (None, fst own_state, snd own_state)"
  by (simp add: own_state_def initAll_started [OF own_good])

lemma own_plain: "list_all plain_token (map p_name own_predicates)" "list_all plain_token (map q_name own_prioritizes)"
  unfolding own_names by code_simp+

lemma scheduler_answers_witness:
  "scheduler_serve sample_route_codec (fst own_state) (snd own_state) ''POST''
     (route_path apiPrefix predicatesPrefix ''hostpathpvdiskpressure'') None =
     Routed (BadRequest ''Please send a request body'') \<and>
   scheduler_serve sample_route_codec (fst own_state) (snd own_state) ''PUT''
     (route_path apiPrefix prioritiesPrefix ''hostpathpvspread'') None = Refused MethodNotAllowed405"
proof -
  have n: "plain_token ''hostpathpvdiskpressure''" "plain_token ''hostpathpvspread''" by code_simp+
  have "find (\<lambda>p. p_name p = ''hostpathpvdiskpressure'') own_predicates \<noteq> None"
    "find (\<lambda>q. q_name q = ''hostpathpvspread'') own_prioritizes \<noteq> None"
    unfolding find_named own_names by simp_all
  then show ?thesis
    using scheduler_answers [OF own_good own_plain n(1) own_initAll, of sample_route_codec "''POST''" None]
      scheduler_answers [OF own_good own_plain n(2) own_initAll, of sample_route_codec "''PUT''" None]
    by (auto simp: predicateRoute_def)
qed

text \<open>
  C8 (safety). From the request to the disks: a filter request that is posted to the path of the
  disk-pressure predicate of the running program and answered with 200 was answered with a result that
  offers only nodes of the request, in their order; and on each of them the new directories of the pod (sizes not negative,
  in total between 1 and the largest int64) fit on the disks beside what they hold. The
  informers' caches are those of one moment.
\<close>

theorem served_nodes_hold_pods:
  assumes "good_predicates ps" and "good_prioritizes qs"
    and "list_all plain_token (map p_name ps)" and "list_all plain_token (map q_name qs)"
    and "pressure_plugin cd ca sync \<in> set ps"
    and "initAll (loaded_predicates ps) (loaded_prioritizes qs) = (err, rs, ss)"
    and "scheduler_serve rc rs ss ''POST'' (route_path apiPrefix predicatesPrefix pressureName) (Some body) = Routed (Ok200 b)"
    and "rc_args rc body = Inr args" and "ea_pod args = Some q" and "ea_nodes args = Some items"
  shows "\<exists>res. rc_filter rc res = Inr b \<and>
    fr_nodes res = Some (filter (\<lambda>nd. pressure_PodMatchNode cd ca q nd = Inr True) items) \<and>
    (\<forall>nd \<in> set items. pressure_PodMatchNode cd ca q nd = Inr True \<longrightarrow>
      (\<forall>tot req has. getPodHostpathOfNodeDiskInfos cd ca q (node_name nd) = Inr (tot, req, has) \<longrightarrow>
        (\<forall>x \<in> set (sizes req). 0 \<le> x) \<longrightarrow> 0 < sum_list (sizes req) \<longrightarrow> sum_list (sizes req) < 2 ^ 63 \<longrightarrow>
        (\<exists>alloc disks. getNodeDiskInfos cd ca nd = Inr (alloc, disks) \<and> fits (sizes req) (sizes disks))))"
proof -
  have "p_name (pressure_plugin cd ca sync) = pressureName" by (simp add: pressure_plugin_def)
  then have found: "find (\<lambda>p. p_name p = pressureName) ps = Some (pressure_plugin cd ca sync)"
    using assms(1,5) by (intro find_distinct) (simp_all add: good_predicates_def)
  have "plain_token pressureName" by code_simp
  from served_predicate [OF assms(1-4) this assms(6) found, of rc "Some body"] assms(7)
  have routed: "predicateRoute (rc_args rc) (rc_filter rc) (pressure_PodMatchNode cd ca) (Some body) = Ok200 b"
    by (simp add: pressure_plugin_def)
  have "args = \<lparr>ea_pod = Some q, ea_nodes = Some items\<rparr>" using assms(9,10) by simp
  with routed assms(8) have "\<exists>res. rc_filter rc res = Inr b \<and>
      fr_nodes res = Some (filter (passes (pressure_PodMatchNode cd ca) q) items)"
    by (auto simp: predicateRoute_def Predicate_Handler_Some split: sum.splits)
  then show ?thesis
    by (fastforce simp: passes_def [abs_def] intro: pressure_sound_disks)
qed

text \<open>The program's own components, and a pod with one new directory of size 6.\<close>

abbreviation sample_new :: informers where
  "sample_new \<equiv> sample_caches (sample_pv [] 6) []"

lemma sample_filter:
  "\<exists>failed. predicateRoute (rc_args sample_route_codec) (rc_filter sample_route_codec) (pressure_PodMatchNode sample_codec sample_new)
      (Some ''body'') =
    Ok200 (Inl \<lparr>fr_nodes = Some [sample_node ''n1'', sample_node ''n2''], fr_failed = Some failed, fr_error = None\<rparr>)"
proof -
  have "passes (pressure_PodMatchNode sample_codec sample_new) (sample_pod ''p1'' []) (sample_node ''n1'')"
    "passes (pressure_PodMatchNode sample_codec sample_new) (sample_pod ''p1'' []) (sample_node ''n2'')"
    by code_simp+
  then show ?thesis
    by (simp add: predicateRoute_def sample_route_codec_def sample_request_args_def Predicate_Handler_Some)
qed

lemma sample_served_request:
  "getPodHostpathOfNodeDiskInfos sample_codec sample_new (sample_pod ''p1'' []) (node_name (sample_node ''n1'')) =
     Inr (6, [\<lparr>di_path = [], di_size = 6, di_disabled = False\<rparr>], True)"
  "pressure_PodMatchNode sample_codec sample_new (sample_pod ''p1'' []) (sample_node ''n1'') = Inr True"
  by code_simp+

lemma served_nodes_hold_pods_witness:
  "\<exists>b alloc disks. scheduler_serve sample_route_codec (fst own_state) (snd own_state) ''POST''
      (route_path apiPrefix predicatesPrefix pressureName) (Some ''body'') = Routed (Ok200 b) \<and>
    getNodeDiskInfos sample_codec sample_new (sample_node ''n1'') = Inr (alloc, disks) \<and> fits [6] (sizes disks)"
proof -
  let ?p = "pressure_plugin sample_codec sample_new sample_sync"
  have own: "?p \<in> set own_predicates" by (simp add: own_predicates_def)
  have "find (\<lambda>p. p_name p = pressureName) own_predicates = Some ?p"
    using own_good(1) own by (intro find_distinct) (simp_all add: good_predicates_def pressure_plugin_def)
  moreover have "plain_token pressureName" by code_simp
  moreover obtain failed where "predicateRoute (rc_args sample_route_codec) (rc_filter sample_route_codec)
      (pressure_PodMatchNode sample_codec sample_new) (Some ''body'') =
      Ok200 (Inl \<lparr>fr_nodes = Some [sample_node ''n1'', sample_node ''n2''], fr_failed = Some failed, fr_error = None\<rparr>)"
    using sample_filter by blast
  ultimately have run: "scheduler_serve sample_route_codec (fst own_state) (snd own_state) ''POST''
      (route_path apiPrefix predicatesPrefix pressureName) (Some ''body'') =
      Routed (Ok200 (Inl \<lparr>fr_nodes = Some [sample_node ''n1'', sample_node ''n2''], fr_failed = Some failed, fr_error = None\<rparr>))"
    using served_predicate [OF own_good own_plain _ own_initAll, of pressureName ?p sample_route_codec "Some ''body''"]
    by (simp add: pressure_plugin_def)
  have args: "rc_args sample_route_codec ''body'' =
      Inr \<lparr>ea_pod = Some (sample_pod ''p1'' []), ea_nodes = Some [sample_node ''n1'', sample_node ''n2'']\<rparr>"
    by (simp add: sample_route_codec_def sample_request_args_def)
  note all = served_nodes_hold_pods [OF own_good own_plain own own_initAll run args, unfolded extender_args.simps, OF refl refl]
  have "\<exists>alloc disks. getNodeDiskInfos sample_codec sample_new (sample_node ''n1'') = Inr (alloc, disks) \<and>
      fits (sizes [\<lparr>di_path = [], di_size = 6, di_disabled = False\<rparr>]) (sizes disks)"
    using all
    by (elim exE conjE, drule_tac bspec [of _ _ "sample_node ''n1''"])
      (use sample_served_request in \<open>auto simp: sizes_def\<close>)
  then have "\<exists>alloc disks. getNodeDiskInfos sample_codec sample_new (sample_node ''n1'') = Inr (alloc, disks) \<and> fits [6] (sizes disks)"
    by (simp add: sizes_def)
  with run show ?thesis by blast
qed

end
