(* ===== verification/Spec2Isabelle.thy ===== *)
theory Spec2Isabelle
  imports Binding NsShow NsRace MainServe
begin

text \<open>
  \<^bold>\<open>What is verified.\<close> A scheduler extender for Kubernetes clusters with hostpath volumes whose
  directories live on particular nodes and disks.  The cluster's scheduler asks it over HTTP
  which nodes a pod may go to (predicates) and how good they are (priorities); a second HTTP
  server shows, edits and enforces which nodes the pods of each namespace may use.

  \<^bold>\<open>The parts and their theories\<close>, in the order of the imports.

  \<^item> \<^verbatim>\<open>Prelude\<close>, \<^verbatim>\<open>GoStd\<close>, \<^verbatim>\<open>Float64\<close>, \<^verbatim>\<open>ApiTypes\<close>: Go's 64-bit integers as words, maps as
    association lists in iteration order (locale \<open>go_map\<close>), sorting (locale \<open>sorter\<close>), panics as
    the value \<open>Panic\<close>, functions of \<^verbatim>\<open>strings\<close>, \<^verbatim>\<open>path\<close> and \<^verbatim>\<open>strconv\<close>, float64 rounding on
    rationals, and the API objects with the fields that are read.
  \<^item> \<^verbatim>\<open>PodInfo\<close> (\<^verbatim>\<open>pkg/algorithm/common.go\<close>, locale \<open>pod_info\<close>), \<^verbatim>\<open>HostPathPV\<close> and \<^verbatim>\<open>NodeMounts\<close>
    (\<^verbatim>\<open>pkg/algorithm/hostpathpv.go\<close>): the queries on the caches, the classification of volumes, and
    which directories are charged to a node.  \<^verbatim>\<open>Accounting\<close> relates the latter to a two-phase
    specification: recorded directories once for each cleaned path, then reservations.
  \<^item> \<^verbatim>\<open>Registry\<close> (locales \<open>registry\<close> and \<open>plugin_service\<close>), \<^verbatim>\<open>PredicatePlugin\<close>
    (\<^verbatim>\<open>predicate/predicate.go\<close>) and \<^verbatim>\<open>Prioritize\<close> (\<^verbatim>\<open>prioritize/prioritize.go\<close>): registration,
    initialisation, readiness, routes and handlers.  A component is a record of its name, the
    result of its \<^verbatim>\<open>Init\<close>, whether it started and synced, and its function.
  \<^item> \<^verbatim>\<open>Affinity\<close>, \<^verbatim>\<open>DiskPressure\<close> (locale \<open>volume_predicate\<close>) and \<^verbatim>\<open>FilterService\<close>: the two hostpath
    predicates and the filter service over them.  The specification of the disk pressure is an
    assignment of directories to disks within their rooms (\<open>fits\<close>); \<^verbatim>\<open>Placement\<close> takes it, through
    the accounting, to the annotations of the volumes and the sizes of the disks.
  \<^item> \<^verbatim>\<open>Packing\<close> and \<^verbatim>\<open>Binding\<close>: the disk-pressure predicate over time.  \<open>bind_run\<close> is any sequence of
    pods that arrive, are bound to the node after the predicate passed them with the pods before them in the
    cache, are bound elsewhere, finish or leave, between two updates of the records of directories
    (\<open>cluster_ok\<close>); \<open>owed\<close> are the directories that the node's pods lack, counted without the code's reservations.
    The pods bound there use volumes with a record of the node (\<open>on_record\<close>).
  \<^item> \<^verbatim>\<open>Workers\<close>, \<^verbatim>\<open>Scoring\<close> (locale \<open>priority\<close>), \<^verbatim>\<open>DiskUse\<close>, \<^verbatim>\<open>Spread\<close> and \<^verbatim>\<open>ScoreService\<close>: the
    goroutines of \<^verbatim>\<open>NodesScoring\<close> as an inductive step relation, and the two priorities with
    their scores in integers.
  \<^item> \<^verbatim>\<open>Labels\<close>, \<^verbatim>\<open>LabelText\<close> (the vendored label selectors), \<^verbatim>\<open>NsSelector\<close> and \<^verbatim>\<open>NsPredicate\<close>
    (\<^verbatim>\<open>predicate/namespaces_nodeselector.go\<close>): the selector that is printed from the configuration
    of a namespace, lexed and parsed again, and the verdict it gives (\<open>ns_verdict\<close>).
  \<^item> \<^verbatim>\<open>Router\<close> (the vendored \<^verbatim>\<open>go-restful\<close>): paths as tokens, the service and the route for a request.
  \<^item> \<^verbatim>\<open>NsServer\<close>, \<^verbatim>\<open>NsHeap\<close>, \<^verbatim>\<open>NsEdit\<close>, \<^verbatim>\<open>NsService\<close> and \<^verbatim>\<open>PolicyServer\<close>
    (\<^verbatim>\<open>predicate/namespaces_nodeselector_httpserver.go\<close>): the handlers over a heap of config maps,
    because the server edits the object that the predicate has cached; the routes and the
    authentication in front of them.  \<^verbatim>\<open>server_state\<close> holds the two variables of the package and
    the fields of \<^verbatim>\<open>SchedulerConfig\<close>; \<open>cache_view\<close> is what the predicate sees of it; \<open>server_step\<close>
    interleaves requests and calls of the predicate.
  \<^item> \<^verbatim>\<open>NsRules\<close>: the abstract view of the configuration, a set of values for each namespace, part
    and key, with the verdict and the effect of an edit on it.  \<^verbatim>\<open>NsStore\<close> (locale \<open>config_reader\<close>): the
    server together with the config map that the API server holds, as the step relation
    \<open>store_run\<close> with a log of the accepted edits.  \<^verbatim>\<open>NsSystem\<close> and \<^verbatim>\<open>NsShow\<close>: filter requests to
    the namespace predicate (\<^verbatim>\<open>Handler\<close> in \<^verbatim>\<open>predicate/predicate.go\<close>) and the reply that shows the
    configuration, in such runs.
  \<^item> \<^verbatim>\<open>NsRace\<close>: the edit handler split into the steps between which another goroutine can run
    (\<open>edit_step\<close>), and the interleavings of any number of edits with other requests and the
    predicate (\<open>race\<close>).
  \<^item> \<^verbatim>\<open>MainProg\<close> (\<^verbatim>\<open>pkg/main.go\<close>, and \<^verbatim>\<open>Init\<close> and \<^verbatim>\<open>Ready\<close> of the components): the program from its
    start to serving, waiting for ever or an exit code, and the routing of the scheduler's requests.
    \<^verbatim>\<open>MainServe\<close> composes the router with the routes and functions of the components.
  \<^item> \<^verbatim>\<open>Samples\<close>: a small cluster on which the properties are evaluated.

  \<^bold>\<open>How they interact.\<close> \<^verbatim>\<open>main\<close> initialises the two registries, waits until their components are
  ready and installs one route for each.  The hostpath components share the accounting; the
  predicates stop at the first volume that does not match; the namespace predicate and the
  policy server share the cached config map, and the verdict of the check handler is that of
  the predicate.

  \<^bold>\<open>What the lemmas show.\<close> For each component the behaviour of its operations on every branch;
  soundness of the predicates for their specifications, with the cases in which they are
  exact; equality of the scores with formulas over integers; every interleaving of the goroutines
  gives the sequential result; the text of a selector reads back as the configuration
  it was printed from; an edit changes one entry; a refresh deletes the pods that the must-rules forbid, spares
  those that are admitted, and deletes those that only the other rules refuse, too; start-up ends in serving once the informers sync.  Across the components: what the
  disk-pressure predicate passes does not overcommit a disk, from the request's body on, and neither do
  the bindings of many pods one after the other, except for volumes that have no record of the node, whose
  pods are not seen, and shared volumes without a directory in theirs; and the
  nodes a filter request gets, and the configuration that is shown, are those of the rules at the start
  with the accepted edits, the caches being unobservable.  Edits that run at the same time change only
  rules that one of them names, and one of two can be lost although both are answered with success.  Some properties
  state where the code does not do what it seems meant to: wrap-around of sums, prefixes of paths,
  undecodable annotations, lost or unsaved edits, waiting without a time-out.

  \<^bold>\<open>Bounds.\<close> All loops but one are structural recursions or have a measure, and no fuel is used
  (\<open>edit_steps\<close> counts steps, and five of them always answer);
  \<^verbatim>\<open>WaitForCacheSync\<close>, which may wait for ever, is a partial function whose value None means
  that.  The scores of the disk use are exact while a hundred times the allocable bytes of a node
  are below \<open>2^53\<close> (90 terabytes); the reductions of the scores need counts up to
  \<open>2^45\<close>, far above the numbers of pods and percentages that occur.  Sums of sizes wrap around at 64 bits
  as in Go.

  \<^bold>\<open>Parameters.\<close> The informers' caches, the decoders of annotations, JSON and password files, the API
  server's answers, the clock, the conversion of out-of-range floats to integers, regular expressions in routes
  and the client library are arguments of the definitions.  The runs of \<open>store_run\<close> are those in which
  this process alone writes the config map and the API server answers its requests for it (\<open>answers_from\<close>);
  that the JSON codec reads back what it wrote, up to the order of maps (\<open>reads_back\<close>), is a
  hypothesis of the properties about rules.  What other writers and failed requests do is shown
  without it, in \<^verbatim>\<open>NsService\<close> and at the end of \<^verbatim>\<open>NsSystem\<close>.

  \<^bold>\<open>Not modelled.\<close> Logging, the parsing of flags, listening and TLS, the \<^verbatim>\<open>ServeMux\<close> before the routers
  (it redirects unclean paths), media types of requests, and the texts of errors beyond their
  parts.  In \<^verbatim>\<open>NsRace\<close> the edits run in steps, the
  other handlers and the predicate, which only read, as one step each; two edits inside one step,
  where the Go runtime may end the process because a map is used without a lock, are outside the model.  Of
  the vendored label package only what the program uses is modelled.
\<close>

end
